(* ===== verification/Prelude.thy ===== *)
theory Prelude
  imports Main "HOL-Library.Word" "HOL-Library.Multiset" "HOL-Library.Char_ord" "HOL-Library.List_Lexorder" "HOL-Library.Code_Target_Nat"
begin

text \<open>
  The vocabulary every component shares: the machine integers of the Go program, its two kinds
  of failure (a returned \<^verbatim>\<open>error\<close> and a \<^verbatim>\<open>panic\<close>) as values of sum types, sequencing of
  such computations, bounds-checked indexing, and the iteration order of a Go map as an explicit
  enumeration of its keys.  The lemma collections declared here carry the component proofs.
\<close>

section \<open>Machine integers\<close>

type_synonym u8 = "8 word"
type_synonym u32 = "32 word"
type_synonym u64 = "64 word"
  \<comment> \<open>both \<^verbatim>\<open>uint64\<close> and, read with \<open>sint\<close>, \<^verbatim>\<open>int64\<close>\<close>

named_theorems go_simps \<open>equations that unfold the small helpers of the Go code\<close>
named_theorems range_simps \<open>facts on the enumeration of a Go map\<close>

section \<open>Errors and panics\<close>

text \<open>
  A Go function either returns an \<^verbatim>\<open>error\<close> value, which is \<open>go_error + 'a\<close> here, or panics,
  which is \<open>fault + 'a\<close>.  The arguments of a formatted message are kept, so a theorem can say
  what a message reports.  \<open>Blocked\<close> is the goroutine that waits forever on a channel.
\<close>

datatype fmt_arg = Str string | Num int | Strs "string list"

datatype go_error =
    Errorf string "fmt_arg list"
  | Wrapf go_error string "fmt_arg list"

datatype fault =
    Panic string "fmt_arg list"
  | PanicErr go_error
  | IndexOutOfRange
  | NilDeref
  | Blocked

type_synonym 'a fallible = "go_error + 'a"
type_synonym 'a result = "fault + 'a"

definition sbind :: "'e + 'a \<Rightarrow> ('a \<Rightarrow> 'e + 'b) \<Rightarrow> 'e + 'b" where
  "sbind m f = (case m of Inl e \<Rightarrow> Inl e | Inr a \<Rightarrow> f a)"

lemma sbind_simps [simp]: "sbind (Inl e) f = Inl e" "sbind (Inr a) f = f a"
  by (simp_all add: sbind_def)

lemma sbind_Inr_iff: "sbind m f = Inr b \<longleftrightarrow> (\<exists>a. m = Inr a \<and> f a = Inr b)"
  by (cases m) auto

lemma sbind_Inl_iff: "sbind m f = Inl e \<longleftrightarrow> m = Inl e \<or> (\<exists>a. m = Inr a \<and> f a = Inl e)"
  by (cases m) auto

lemma sbind_cong [fundef_cong]:
  "m = m' \<Longrightarrow> (\<And>a. m' = Inr a \<Longrightarrow> f a = g a) \<Longrightarrow> sbind m f = sbind m' g"
  by (cases m') auto

text \<open>A Go loop over a slice whose body may fail: the first failure ends it.\<close>

fun sfold :: "('a \<Rightarrow> 's \<Rightarrow> 'e + 's) \<Rightarrow> 'a list \<Rightarrow> 's \<Rightarrow> 'e + 's" where
  "sfold f [] s = Inr s"
| "sfold f (x # xs) s = sbind (f x s) (sfold f xs)"

lemma sfold_append: "sfold f (xs @ ys) s = sbind (sfold f xs s) (sfold f ys)"
  by (induction xs arbitrary: s) (auto simp: sbind_def split: sum.splits)

lemma sfold_invariant:
  assumes "sfold f xs s = Inr t" and "P s"
    and "\<And>x s t. x \<in> set xs \<Longrightarrow> P s \<Longrightarrow> f x s = Inr t \<Longrightarrow> P t"
  shows "P t"
  using assms
proof (induction xs arbitrary: s)
  case Nil
  then show ?case by simp
next
  case (Cons x xs)
  from Cons.prems(1) obtain s' where s': "f x s = Inr s'" and rest: "sfold f xs s' = Inr t"
    by (auto simp: sbind_Inr_iff)
  have "P s'" by (rule Cons.prems(3) [OF _ Cons.prems(2) s']) simp
  show ?case
    by (rule Cons.IH [OF rest \<open>P s'\<close>]) (rule Cons.prems(3), simp_all)
qed

fun smap :: "('a \<Rightarrow> 'e + 'b) \<Rightarrow> 'a list \<Rightarrow> 'e + 'b list" where
  "smap f [] = Inr []"
| "smap f (x # xs) = sbind (f x) (\<lambda>y. sbind (smap f xs) (\<lambda>ys. Inr (y # ys)))"

lemma smap_cong [fundef_cong]:
  "xs = ys \<Longrightarrow> (\<And>x. x \<in> set ys \<Longrightarrow> f x = g x) \<Longrightarrow> smap f xs = smap g ys"
  by (induction ys arbitrary: xs) (auto intro!: sbind_cong)

lemma smap_Inr_iff: "smap f xs = Inr ys \<longleftrightarrow> list_all2 (\<lambda>x y. f x = Inr y) xs ys"
  by (induction xs arbitrary: ys) (auto simp: sbind_Inr_iff list_all2_Cons1)

lemma smap_Inr_map: "(\<And>x. x \<in> set xs \<Longrightarrow> f x = Inr (g x)) \<Longrightarrow> smap f xs = Inr (map g xs)"
  by (induction xs) auto

lemma smap_projr:
  "smap f xs = Inr ys \<longleftrightarrow> (\<forall>x\<in>set xs. \<not> isl (f x)) \<and> ys = map (\<lambda>x. projr (f x)) xs"
proof (induction xs arbitrary: ys)
  case Nil
  then show ?case by auto
next
  case (Cons x xs)
  then show ?case by (cases "f x") (auto simp: sbind_Inr_iff)
qed

lemma smap_perm:
  assumes "smap f xs = Inr ys" and "mset xs' = mset xs"
  shows "\<exists>ys'. smap f xs' = Inr ys' \<and> mset ys' = mset ys"
proof -
  have "set xs' = set xs" using assms(2) by (rule mset_eq_setD)
  then have "smap f xs' = Inr (map (\<lambda>x. projr (f x)) xs')"
    using assms(1) by (simp add: smap_projr)
  moreover have "mset (map (\<lambda>x. projr (f x)) xs') = mset ys"
    using assms by (auto simp: smap_projr)
  ultimately show ?thesis by blast
qed

section \<open>Bounds-checked indexing\<close>

definition at_index :: "'a list \<Rightarrow> nat \<Rightarrow> 'a result" where
  "at_index xs i = (if i < length xs then Inr (xs ! i) else Inl IndexOutOfRange)"

lemma at_index_Inr_iff: "at_index xs i = Inr x \<longleftrightarrow> i < length xs \<and> xs ! i = x"
  by (auto simp: at_index_def)

definition set_index :: "'a list \<Rightarrow> nat \<Rightarrow> 'a \<Rightarrow> 'a list result" where
  "set_index xs i x = (if i < length xs then Inr (xs[i := x]) else Inl IndexOutOfRange)"

lemma set_index_Inr_iff: "set_index xs i x = Inr ys \<longleftrightarrow> i < length xs \<and> ys = xs[i := x]"
  by (auto simp: set_index_def)

section \<open>Ranging over a Go map\<close>

text \<open>
  The order in which \<^verbatim>\<open>for k, v := range m\<close> visits the entries is not specified.  A loop over a
  map takes the order the runtime chose as an argument, a list of the keys; \<open>enumerates\<close> says it
  lists each key once.
\<close>

definition enumerates :: "'k list \<Rightarrow> ('k \<rightharpoonup> 'v) \<Rightarrow> bool" where
  "enumerates ks m \<longleftrightarrow> distinct ks \<and> set ks = dom m"

lemma enumerates_distinct [dest]: "enumerates ks m \<Longrightarrow> distinct ks"
  by (simp add: enumerates_def)

lemma enumerates_set [range_simps]: "enumerates ks m \<Longrightarrow> set ks = dom m"
  by (simp add: enumerates_def)

lemma enumerates_mset: "enumerates ks m \<Longrightarrow> enumerates ks' m \<Longrightarrow> mset ks = mset ks'"
  by (metis enumerates_def set_eq_iff_mset_eq_distinct)

lemma enumerates_Some: "enumerates ks m \<Longrightarrow> k \<in> set ks \<Longrightarrow> \<exists>v. m k = Some v"
  by (auto simp: enumerates_def)

lemma enumerates_dom_cong: "dom m = dom m' \<Longrightarrow> enumerates ks m \<longleftrightarrow> enumerates ks m'"
  by (simp add: enumerates_def)

lemma enumerates_exists: "finite (dom m) \<Longrightarrow> \<exists>ks. enumerates ks m"
  using finite_distinct_list by (fastforce simp: enumerates_def)

text \<open>Sums over an enumeration do not depend on the order.\<close>

lemma sum_list_enumerates:
  "enumerates ks m \<Longrightarrow> sum_list (map f ks) = (\<Sum>k\<in>dom m. f k)"
  by (auto simp: enumerates_def sum_list_distinct_conv_sum_set)

section \<open>Filling a map in a loop\<close>

lemma fold_upd_map_of:
  "fold (\<lambda>x m. m(k x \<mapsto> v x)) xs m = m ++ map_of (rev (map (\<lambda>x. (k x, v x)) xs))"
  by (induction xs arbitrary: m) (simp_all add: map_add_upd_left fun_eq_iff map_add_def split: option.splits)

lemma fold_upd_distinct:
  assumes "distinct (map k xs)"
  shows "fold (\<lambda>x m. m(k x \<mapsto> v x)) xs Map.empty = map_of (map (\<lambda>x. (k x, v x)) xs)"
proof -
  let ?kv = "map (\<lambda>x. (k x, v x)) xs"
  have "distinct (map fst ?kv)" using assms by (simp add: comp_def)
  then have "map_of (rev ?kv) = map_of ?kv"
    by (subst map_of_inject_set) (simp_all add: rev_map [symmetric])
  then show ?thesis by (simp add: fold_upd_map_of)
qed

lemma map_of_map_key:
  assumes "distinct (map k xs)" and "x \<in> set xs"
  shows "map_of (map (\<lambda>x. (k x, v x)) xs) (k x) = Some (v x)"
  using assms by (intro map_of_is_SomeI) (auto simp: comp_def)

lemma fold_upd_mset:
  assumes "distinct (map k xs)" and "mset ys = mset xs"
  shows "fold (\<lambda>x m. m(k x \<mapsto> v x)) ys Map.empty = fold (\<lambda>x m. m(k x \<mapsto> v x)) xs Map.empty"
proof -
  have "mset (map k ys) = mset (map k xs)" using assms(2) by simp
  then have "distinct (map k ys)" using assms(1) by (metis mset_eq_imp_distinct_iff)
  moreover have "set ys = set xs" using assms(2) by (rule mset_eq_setD)
  ultimately show ?thesis
    using assms(1) by (simp add: fold_upd_distinct) (subst map_of_inject_set; simp add: comp_def)
qed

lemma fold_pointwise:
  assumes "\<And>k m. f k m = m(k := g (m k))" and "distinct ks"
  shows "fold f ks m h = (if h \<in> set ks then g (m h) else m h)"
  using assms(2) by (induction ks arbitrary: m) (auto simp: assms(1))

lemma map_of_enumerates:
  assumes "enumerates ks m" and "\<And>k v. m k = Some v \<Longrightarrow> g k = v"
  shows "map_of (map (\<lambda>k. (k, g k)) ks) = m"
proof
  fix k
  show "map_of (map (\<lambda>k. (k, g k)) ks) k = m k"
    using assms by (cases "m k") (auto simp: map_of_map_restrict restrict_map_def enumerates_def comp_def)
qed

section \<open>Word facts\<close>

lemma unat_add_no_wrap:
  "unat (a :: 'a::len word) + unat b < 2 ^ LENGTH('a) \<Longrightarrow> unat (a + b) = unat a + unat b"
  by (simp add: unat_word_ariths)

lemma unat_sub_no_wrap: "unat b \<le> unat a \<Longrightarrow> unat (a - b) = unat a - unat (b :: 'a::len word)"
  by (simp add: unat_sub word_le_nat_alt)

lemma unat_inc_no_wrap: "a < (b :: 'a::len word) \<Longrightarrow> unat (a + 1) = Suc (unat a)"
proof -
  assume "a < b"
  then have "unat a + 1 \<le> unat b" by (simp add: word_less_nat_alt)
  also have "unat b < 2 ^ LENGTH('a)" by (rule unsigned_less)
  finally have "unat a + 1 < 2 ^ LENGTH('a)" .
  then show ?thesis by (simp add: unat_word_ariths)
qed

section \<open>Sums over multisets\<close>

lemma sum_mset_pick: "x \<in># M \<Longrightarrow> (\<Sum>v\<in>#M. f v) = f x + (\<Sum>v\<in>#M - {#x#}. f v)"
  by (drule multi_member_split) auto

end
