(* ===== verification/Go_Std.thy ===== *)
theory Go_Std
  imports Prelude
begin

text \<open>
  What the program uses of the Go standard library: \<^verbatim>\<open>encoding/hex\<close>, the prefix and suffix tests
  of \<^verbatim>\<open>strings\<close>, \<^verbatim>\<open>strings.TrimSpace\<close>, \<^verbatim>\<open>bytes.Compare\<close>, \<^verbatim>\<open>net.SplitHostPort\<close>, the decimal
  verb of \<^verbatim>\<open>fmt\<close> and \<^verbatim>\<open>sort.Sort\<close> over a comparison.  A Go string is a list of bytes, which is the
  \<open>string\<close> of HOL.  The locale \<open>sort_interface\<close> is the contract of a \<^verbatim>\<open>Less\<close> method.
\<close>

section \<open>Hexadecimal text\<close>

definition hex_digit :: "nat \<Rightarrow> char" where
  "hex_digit n = ''0123456789abcdef'' ! n"

definition hex_encode :: "u8 list \<Rightarrow> string" where
  "hex_encode bs = concat (map (\<lambda>b. [hex_digit (unat b div 16), hex_digit (unat b mod 16)]) bs)"

definition from_hex_char :: "char \<Rightarrow> u8 option" where
  "from_hex_char c =
     (if CHR ''0'' \<le> c \<and> c \<le> CHR ''9'' then Some (of_nat (of_char c - 48))
      else if CHR ''a'' \<le> c \<and> c \<le> CHR ''f'' then Some (of_nat (of_char c - 97 + 10))
      else if CHR ''A'' \<le> c \<and> c \<le> CHR ''F'' then Some (of_nat (of_char c - 65 + 10))
      else None)"

text \<open>
  \<^verbatim>\<open>hex.DecodeString\<close> returns the bytes decoded before the first invalid character together with
  the error; the second component is \<open>True\<close> when the error is nil.
\<close>

fun hex_decode :: "string \<Rightarrow> u8 list \<times> bool" where
  "hex_decode [] = ([], True)"
| "hex_decode [c] = ([], False)"
| "hex_decode (a # b # cs) =
     (case (from_hex_char a, from_hex_char b) of
        (Some x, Some y) \<Rightarrow>
          (let (bs, ok) = hex_decode cs in ((16 * x + y) # bs, ok))
      | _ \<Rightarrow> ([], False))"

lemma hex_encode_simps [simp]:
  "hex_encode [] = []"
  "hex_encode (b # bs) = hex_digit (unat b div 16) # hex_digit (unat b mod 16) # hex_encode bs"
  by (simp_all add: hex_encode_def)

lemma hex_digit_table: "\<forall>n \<in> set [0..<16]. from_hex_char (hex_digit n) = Some (of_nat n)"
  by code_simp

lemma from_hex_digit: "n < 16 \<Longrightarrow> from_hex_char (hex_digit n) = Some (of_nat n)"
  using hex_digit_table by simp

lemma byte_split: "16 * of_nat (unat b div 16) + of_nat (unat b mod 16) = (b :: u8)"
proof -
  have "16 * of_nat (unat b div 16) + of_nat (unat b mod 16)
      = (of_nat (16 * (unat b div 16) + unat b mod 16) :: u8)"
    by (simp only: of_nat_add of_nat_mult of_nat_numeral)
  also have "16 * (unat b div 16) + unat b mod 16 = unat b" by simp
  finally show ?thesis by simp
qed

lemma hex_decode_encode [simp]: "hex_decode (hex_encode bs) = (bs, True)"
proof (induction bs)
  case Nil
  then show ?case by simp
next
  case (Cons b bs)
  have "unat b < 256" using unsigned_less [of b] by simp
  then have "unat b div 16 < 16" by simp
  then show ?case using Cons by (simp add: from_hex_digit byte_split)
qed

lemma hex_encode_inject: "hex_encode xs = hex_encode ys \<longleftrightarrow> xs = ys"
  by (metis fst_conv hex_decode_encode)

section \<open>Strings\<close>

definition has_prefix :: "string \<Rightarrow> string \<Rightarrow> bool" where
  "has_prefix s p \<longleftrightarrow> take (length p) s = p"

definition has_suffix :: "string \<Rightarrow> string \<Rightarrow> bool" where
  "has_suffix s p \<longleftrightarrow> length p \<le> length s \<and> drop (length s - length p) s = p"

text \<open>The white space \<^verbatim>\<open>strings.TrimSpace\<close> removes, for text in ASCII.\<close>

definition is_space :: "char \<Rightarrow> bool" where
  "is_space c \<longleftrightarrow> c \<in> {CHR 0x09, CHR 0x0A, CHR 0x0B, CHR 0x0C, CHR 0x0D, CHR '' ''}"

definition trim_space :: "string \<Rightarrow> string" where
  "trim_space s = rev (dropWhile is_space (rev (dropWhile is_space s)))"

text \<open>The slice expression \<^verbatim>\<open>s[0:n]\<close> of a string panics when the string is too short.\<close>

definition str_prefix :: "nat \<Rightarrow> string \<Rightarrow> string result" where
  "str_prefix n s = (if n \<le> length s then Inr (take n s) else Inl IndexOutOfRange)"

text \<open>The verb \<^verbatim>\<open>%d\<close> on an unsigned integer.\<close>

fun dec_digits :: "nat \<Rightarrow> string" where
  "dec_digits n = (if n < 10 then [hex_digit n] else dec_digits (n div 10) @ [hex_digit (n mod 10)])"

declare dec_digits.simps [simp del]

text \<open>The digits of a number are digits, and the number can be read back.\<close>

definition read_dec :: "string \<Rightarrow> nat" where
  "read_dec s = foldl (\<lambda>n c. 10 * n + (of_char c - 48)) 0 s"

lemma hex_digit_dec: "\<forall>n \<in> set [0..<10]. of_char (hex_digit n) = n + (48 :: nat)"
  by code_simp

lemma read_dec_digits: "read_dec (dec_digits n) = n"
proof (induction n rule: dec_digits.induct)
  case (1 n)
  show ?case
  proof (cases "n < 10")
    case True
    then show ?thesis
      using hex_digit_dec by (simp add: dec_digits.simps [of n] read_dec_def)
  next
    case False
    with 1 have "read_dec (dec_digits (n div 10)) = n div 10" by simp
    moreover have "of_char (hex_digit (n mod 10)) = n mod 10 + (48 :: nat)"
      using hex_digit_dec by simp
    ultimately show ?thesis
      using False by (simp add: dec_digits.simps [of n] read_dec_def)
  qed
qed

lemma dec_digits_inject: "dec_digits m = dec_digits n \<longleftrightarrow> m = n"
  by (metis read_dec_digits)

lemma hex_digit_not_slash: "\<forall>n \<in> set [0..<10]. hex_digit n \<noteq> CHR ''/''"
  by code_simp

lemma slash_notin_dec_digits: "CHR ''/'' \<notin> set (dec_digits n)"
proof (induction n rule: dec_digits.induct)
  case (1 n)
  then show ?case
    using hex_digit_not_slash by (cases "n < 10") (auto simp: dec_digits.simps [of n])
qed

section \<open>\<^verbatim>\<open>net.SplitHostPort\<close>\<close>

fun index_of :: "char \<Rightarrow> string \<Rightarrow> nat option" where
  "index_of c [] = None"
| "index_of c (x # xs) = (if x = c then Some 0 else map_option Suc (index_of c xs))"

definition last_index_of :: "char \<Rightarrow> string \<Rightarrow> nat option" where
  "last_index_of c s = map_option (\<lambda>i. length s - 1 - i) (index_of c (rev s))"

abbreviation addr_err :: "string \<Rightarrow> string \<Rightarrow> (string \<times> string) fallible" where
  "addr_err addr why \<equiv> Inl (Errorf why [Str addr])"

text \<open>The last two checks of \<^verbatim>\<open>SplitHostPort\<close>, from the offsets \<open>j\<close> and \<open>k\<close> on.\<close>

definition split_checks :: "string \<Rightarrow> nat \<Rightarrow> nat \<Rightarrow> string \<Rightarrow> nat \<Rightarrow> (string \<times> string) fallible" where
  "split_checks hostport j k host i =
     (if CHR ''['' \<in> set (drop j hostport) then addr_err hostport ''unexpected '[' in address''
      else if CHR '']'' \<in> set (drop k hostport) then addr_err hostport ''unexpected ']' in address''
      else Inr (host, drop (i + 1) hostport))"

definition split_host_port :: "string \<Rightarrow> (string \<times> string) fallible" where
  "split_host_port hostport =
     (case last_index_of (CHR '':'') hostport of
        None \<Rightarrow> addr_err hostport ''missing port in address''
      | Some i \<Rightarrow>
          if hostport ! 0 = CHR ''['' then
            (case index_of (CHR '']'') hostport of
               None \<Rightarrow> addr_err hostport ''missing ']' in address''
             | Some end \<Rightarrow>
                 if end + 1 = length hostport then addr_err hostport ''missing port in address''
                 else if end + 1 = i then
                   split_checks hostport 1 (end + 1) (drop 1 (take end hostport)) i
                 else if hostport ! (end + 1) = CHR '':''
                 then addr_err hostport ''too many colons in address''
                 else addr_err hostport ''missing port in address'')
          else if CHR '':'' \<in> set (take i hostport)
          then addr_err hostport ''too many colons in address''
          else split_checks hostport 0 0 (take i hostport) i)"

lemma index_of_None_iff: "index_of c s = None \<longleftrightarrow> c \<notin> set s"
  by (induction s) auto

lemma index_of_append_notin: "c \<notin> set xs \<Longrightarrow> index_of c (xs @ c # ys) = Some (length xs)"
  by (induction xs) auto

lemma last_index_of_append_notin:
  "c \<notin> set ys \<Longrightarrow> last_index_of c (xs @ c # ys) = Some (length xs)"
  by (simp add: last_index_of_def index_of_append_notin)

text \<open>A plain host and a bracketed one are split at the last colon.\<close>

lemma split_host_port_plain:
  assumes "set host \<inter> {CHR '':'', CHR ''['', CHR '']''} = {}"
    and "set port \<inter> {CHR '':'', CHR ''['', CHR '']''} = {}"
  shows "split_host_port (host @ CHR '':'' # port) = Inr (host, port)"
proof -
  have li: "last_index_of (CHR '':'') (host @ CHR '':'' # port) = Some (length host)"
    using assms by (simp add: last_index_of_append_notin)
  have nb: "(host @ CHR '':'' # port) ! 0 \<noteq> CHR ''[''"
    using assms(1) by (cases host) auto
  have "CHR ''['' \<notin> set (host @ CHR '':'' # port)" "CHR '']'' \<notin> set (host @ CHR '':'' # port)"
    using assms by auto
  then show ?thesis
    using assms(1) nb by (auto simp: split_host_port_def li split_checks_def)
qed

lemma split_host_port_bracketed:
  assumes "set host \<inter> {CHR ''['', CHR '']''} = {}"
    and "set port \<inter> {CHR '':'', CHR ''['', CHR '']''} = {}"
  shows "split_host_port (CHR ''['' # host @ CHR '']'' # CHR '':'' # port) = Inr (host, port)"
proof -
  let ?s = "CHR ''['' # host @ CHR '']'' # CHR '':'' # port"
  have "last_index_of (CHR '':'') ((''['' @ host @ '']'') @ CHR '':'' # port) = Some (length host + 2)"
    using assms by (subst last_index_of_append_notin) auto
  then have li: "last_index_of (CHR '':'') ?s = Some (length host + 2)" by simp
  have io: "index_of (CHR '']'') (host @ CHR '']'' # CHR '':'' # port) = Some (length host)"
    using assms by (subst index_of_append_notin) auto
  show ?thesis
    using assms by (auto simp: split_host_port_def li io split_checks_def)
qed

section \<open>Sorting by a \<^verbatim>\<open>Less\<close> method\<close>

text \<open>
  \<^verbatim>\<open>sort.Sort\<close> and \<^verbatim>\<open>sort.Slice\<close> rearrange a slice into ascending order of a comparison and are not
  stable.  The model is insertion by the comparison; the locale shows that any algorithm with the
  same contract returns the same list wherever elements with equal keys are equal.
\<close>

fun insert_by :: "('a \<Rightarrow> 'a \<Rightarrow> bool) \<Rightarrow> 'a \<Rightarrow> 'a list \<Rightarrow> 'a list" where
  "insert_by lt x [] = [x]"
| "insert_by lt x (y # ys) = (if lt y x then y # insert_by lt x ys else x # y # ys)"

definition go_sort :: "('a \<Rightarrow> 'a \<Rightarrow> bool) \<Rightarrow> 'a list \<Rightarrow> 'a list" where
  "go_sort lt xs = foldr (insert_by lt) xs []"

locale sort_interface =
  fixes lt :: "'a \<Rightarrow> 'a \<Rightarrow> bool" and key :: "'a \<Rightarrow> 'k::linorder"
  assumes lt_key: "lt x y \<longleftrightarrow> key x < key y"
begin

lemma insert_by_eq: "insert_by lt x ys = insort_key key x ys"
  by (induction ys) (auto simp: lt_key)

lemma go_sort_eq: "go_sort lt xs = sort_key key xs"
  by (induction xs) (simp_all add: go_sort_def insert_by_eq)

lemma go_sort_mset: "mset (go_sort lt xs) = mset xs"
  by (simp add: go_sort_eq)

lemma go_sort_sorted: "sorted (map key (go_sort lt xs))"
  by (simp add: go_sort_eq)

lemma go_sort_unique:
  assumes "mset ys = mset xs" and "sorted (map key ys)" and "inj_on key (set xs)"
  shows "ys = go_sort lt xs"
  using sort_key_inj_key_eq [of xs ys key] assms by (simp add: go_sort_eq)

lemma go_sort_perm:
  "mset xs = mset ys \<Longrightarrow> inj_on key (set ys) \<Longrightarrow> go_sort lt xs = go_sort lt ys"
  by (rule go_sort_unique) (simp_all add: go_sort_mset go_sort_sorted)

end

interpretation int_sort: sort_interface "(<) :: int \<Rightarrow> int \<Rightarrow> bool" id
  by unfold_locales simp

text \<open>\<^verbatim>\<open>bytes.Compare\<close> is the lexicographic order of byte slices.\<close>

fun bytes_compare :: "u8 list \<Rightarrow> u8 list \<Rightarrow> int" where
  "bytes_compare [] [] = 0"
| "bytes_compare [] (b # bs) = -1"
| "bytes_compare (a # as) [] = 1"
| "bytes_compare (a # as) (b # bs) =
     (if a < b then -1 else if b < a then 1 else bytes_compare as bs)"

lemma bytes_compare_cases: "bytes_compare xs ys \<in> {-1, 0, 1}"
  by (induction xs ys rule: bytes_compare.induct) auto

lemma bytes_compare_less: "bytes_compare xs ys = -1 \<longleftrightarrow> xs < ys"
  by (induction xs ys rule: bytes_compare.induct) auto

lemma bytes_compare_eq: "bytes_compare xs ys = 0 \<longleftrightarrow> xs = ys"
  by (induction xs ys rule: bytes_compare.induct) auto

end
