(* ===== verification/Utils.thy ===== *)
theory Utils
  imports Go_Std
begin

text \<open>
  \<^verbatim>\<open>utils/utils.go\<close>: the maximum of \<^verbatim>\<open>uint32\<close> values, the two networks and what depends on them
  (chain parameters, genesis block, default servers), the detection of the network from an
  extended public key or an address, and the check of the quorum arguments.  \<^verbatim>\<open>Network\<close> and
  \<^verbatim>\<open>BackendName\<close> are Go strings, so a value outside the declared constants reaches the
  panicking branches.
\<close>

definition PanicOnError :: "'a fallible \<Rightarrow> 'a result" where
  "PanicOnError r = (case r of Inl err \<Rightarrow> Inl (PanicErr err) | Inr x \<Rightarrow> Inr x)"

lemma PanicOnError_simps [simp]:
  "PanicOnError (Inl e) = Inl (PanicErr e)" "PanicOnError (Inr x) = Inr x"
  by (simp_all add: PanicOnError_def)

lemma PanicOnError_Inr_iff: "PanicOnError r = Inr x \<longleftrightarrow> r = Inr x"
  by (cases r) auto

fun max_loop :: "u32 \<Rightarrow> u32 list \<Rightarrow> u32" where
  "max_loop r [] = r"
| "max_loop r (v # vs) = max_loop (if v > r then v else r) vs"

definition Max :: "u32 \<Rightarrow> u32 list \<Rightarrow> u32" where
  "Max num nums = max_loop num nums"

type_synonym network = string
type_synonym backend_name = string

definition Mainnet :: network where [go_simps]: "Mainnet = ''mainnet''"
definition Testnet :: network where [go_simps]: "Testnet = ''testnet''"
definition Electrum :: backend_name where [go_simps]: "Electrum = ''electrum''"
definition Btcd :: backend_name where [go_simps]: "Btcd = ''btcd''"

datatype chain_params = MainNetParams | TestNet3Params

definition ChainConfig :: "network \<Rightarrow> chain_params result" where
  "ChainConfig n =
     (if n = Mainnet then Inr MainNetParams
      else if n = Testnet then Inr TestNet3Params
      else Inl (Panic ''unreachable'' []))"

definition XpubToNetwork :: "string \<Rightarrow> network result" where
  "XpubToNetwork xpub =
     sbind (str_prefix 4 xpub) (\<lambda>prefix.
       if prefix = ''xpub'' then Inr Mainnet
       else if prefix = ''tpub'' then Inr Testnet
       else Inl (Panic ''unknown prefix: %s'' [Str xpub]))"

definition AddressToNetwork :: "string \<Rightarrow> network result" where
  "AddressToNetwork addr =
     sbind (at_index addr 0) (\<lambda>c.
       if c = CHR ''m'' then Inr Testnet
       else if c = CHR ''n'' then Inr Testnet
       else if c = CHR ''2'' then Inr Testnet
       else if c = CHR ''1'' then Inr Mainnet
       else if c = CHR ''3'' then Inr Mainnet
       else Inl (Panic ''unknown prefix: %s'' [Str addr]))"

definition GenesisBlock :: "network \<Rightarrow> string result" where
  "GenesisBlock network =
     (if network = Mainnet then
        Inr ''000000000019d6689c085ae165831e934ff763ae46a2a6c172b3f1b60a8ce26f''
      else if network = Testnet then
        Inr ''000000000933ea01ad0ee984209779baaec3ced90fa3f408719526f8d77f4943''
      else Inl (Panic ''unreachable'' []))"

definition VerifyMandN :: "int \<Rightarrow> int \<Rightarrow> unit fallible" where
  "VerifyMandN m n =
     (if m \<le> 0 then Inl (Errorf ''m has to be positive (got %d)'' [Num m])
      else if m > n then Inl (Errorf ''m cannot be larger than n (%d > %d)'' [Num m, Num n])
      else if n > 20 then Inl (Errorf ''n cannot be greater than 20 (got %d)'' [Num n])
      else Inr ())"

definition GetDefaultServer :: "network \<Rightarrow> backend_name \<Rightarrow> string \<Rightarrow> (string \<times> string) result" where
  "GetDefaultServer network backend addr =
     (if addr \<noteq> '''' then PanicOnError (split_host_port addr)
      else if backend = Electrum then
        (if network = ''mainnet'' then Inr (''electrum.petrkr.net'', ''s50002'')
         else if network = ''testnet'' then Inr (''testnet.hsmiths.com'', ''s53012'')
         else Inl (Panic ''unreachable'' []))
      else if backend = Btcd then
        (if network = ''mainnet'' then Inr (''localhost'', ''8334'')
         else if network = ''testnet'' then Inr (''localhost'', ''18334'')
         else Inl (Panic ''unreachable'' []))
      else Inl (Panic ''unreachable'' []))"

section \<open>Lemmas\<close>

lemma max_loop_Cons: "max_loop r (v # vs) = max_loop (max r v) vs"
  by (auto simp: max_def not_less intro!: arg_cong [where f = "\<lambda>x. max_loop x vs"])

lemma max_loop_greatest:
  "max_loop r vs \<in> insert r (set vs) \<and> (\<forall>v \<in> insert r (set vs). v \<le> max_loop r vs)"
proof (induction vs arbitrary: r)
  case Nil
  then show ?case by simp
next
  case (Cons v vs)
  have "max r v \<in> {r, v}" by (simp add: max_def)
  with Cons [of "max r v"] show ?case
    unfolding max_loop_Cons by (auto simp del: max_loop.simps)
qed

lemma Max_pair [go_simps]: "Max a [b] = max a b"
  unfolding Max_def max_loop_Cons by simp

lemma known_networks_distinct [simp]: "Mainnet \<noteq> Testnet" "Testnet \<noteq> Mainnet"
  by (simp_all add: go_simps)

lemma ChainConfig_simps [simp]:
  "ChainConfig Mainnet = Inr MainNetParams" "ChainConfig Testnet = Inr TestNet3Params"
  by (simp_all add: ChainConfig_def)

lemma ChainConfig_Inr_iff: "(\<exists>c. ChainConfig n = Inr c) \<longleftrightarrow> n \<in> {Mainnet, Testnet}"
  by (simp add: ChainConfig_def)

lemma XpubToNetwork_range: "XpubToNetwork x = Inr n \<Longrightarrow> n \<in> {Mainnet, Testnet}"
  by (auto simp: XpubToNetwork_def sbind_Inr_iff split: if_splits)

lemma AddressToNetwork_range: "AddressToNetwork a = Inr n \<Longrightarrow> n \<in> {Mainnet, Testnet}"
  by (auto simp: AddressToNetwork_def sbind_Inr_iff split: if_splits)

lemma known_network_served:
  assumes "n \<in> {Mainnet, Testnet}" and "b \<in> {Electrum, Btcd}"
  shows "(\<exists>c. ChainConfig n = Inr c) \<and> (\<exists>g. GenesisBlock n = Inr g) \<and>
    (\<exists>s. GetDefaultServer n b '''' = Inr s)"
  using assms by (auto simp: ChainConfig_def GenesisBlock_def GetDefaultServer_def go_simps)

section \<open>Properties\<close>

text \<open>\<^verbatim>\<open>Max\<close> returns the greatest of its arguments, compared as unsigned integers.\<close>

theorem Max_is_greatest:
  "Max num nums \<in> insert num (set nums) \<and> (\<forall>v \<in> insert num (set nums). v \<le> Max num nums)"
  unfolding Max_def by (rule max_loop_greatest)

theorem Max_is_greatest_witness:
  "Max 3418911847 [356309450, 0] \<in> insert 3418911847 (set [356309450, 0]) \<and> (0::u32) \<le> Max 3418911847 [356309450, 0]"
  using Max_is_greatest [of 3418911847 "[356309450, 0]"] by simp

text \<open>
  \<^verbatim>\<open>VerifyMandN\<close> accepts a quorum exactly when \<open>0 < m \<le> n \<le> 20\<close>, and otherwise the error it
  returns names the first of the three conditions that fails.
\<close>

theorem VerifyMandN_spec:
  "VerifyMandN m n =
     (if 0 < m \<and> m \<le> n \<and> n \<le> 20 then Inr ()
      else Inl (if m \<le> 0 then Errorf ''m has to be positive (got %d)'' [Num m]
                else if n < m then Errorf ''m cannot be larger than n (%d > %d)'' [Num m, Num n]
                else Errorf ''n cannot be greater than 20 (got %d)'' [Num n]))"
  by (auto simp: VerifyMandN_def)

text \<open>
  A network that is detected from an extended public key or from an address is one every
  later step can serve: its chain parameters, its genesis block and a default server of either
  backend exist, so none of the ``unreachable'' panics is reached.
\<close>

theorem detected_network_is_served:
  assumes "XpubToNetwork s = Inr n \<or> AddressToNetwork s = Inr n" and "b \<in> {Electrum, Btcd}"
  shows "(\<exists>c. ChainConfig n = Inr c) \<and> (\<exists>g. GenesisBlock n = Inr g) \<and>
    (\<exists>hp. GetDefaultServer n b '''' = Inr hp)"
  using assms XpubToNetwork_range AddressToNetwork_range known_network_served by blast

theorem detected_network_is_served_witness:
  "\<exists>hp. GetDefaultServer Testnet Btcd '''' = Inr hp"
  using detected_network_is_served [of "''tpubDC5s7''" Testnet Btcd]
  by (simp add: XpubToNetwork_def str_prefix_def)

text \<open>
  A server given on the command line as \<open>host:port\<close>, or as \<open>[host]:port\<close> for a host that
  holds colons, is used as it is given, whatever the network and the backend.
\<close>

theorem GetDefaultServer_given:
  assumes "set host \<inter> {CHR ''['', CHR '']''} = {}"
    and "set port \<inter> {CHR '':'', CHR ''['', CHR '']''} = {}"
  shows "GetDefaultServer n b (CHR ''['' # host @ CHR '']'' # CHR '':'' # port) = Inr (host, port) \<and>
    (CHR '':'' \<notin> set host \<longrightarrow> GetDefaultServer n b (host @ CHR '':'' # port) = Inr (host, port))"
  using split_host_port_bracketed [OF assms] split_host_port_plain [of host port] assms
  by (auto simp: GetDefaultServer_def)

theorem GetDefaultServer_given_witness:
  "GetDefaultServer Testnet Electrum ''[2001:db8::1]:s1234'' = Inr (''2001:db8::1'', ''s1234'')
   \<and> GetDefaultServer Testnet Electrum ''foobar:s1234'' = Inr (''foobar'', ''s1234'')"
  using GetDefaultServer_given [of "''2001:db8::1''" "''s1234''" Testnet Electrum]
    GetDefaultServer_given [of "''foobar''" "''s1234''" Testnet Electrum]
  by simp

end
