(* ===== verification/Txscript.thy ===== *)
theory Txscript
  imports Utils
begin

text \<open>
  The part of the vendored \<^verbatim>\<open>btcd/txscript\<close> that decides under which key the accounter files an
  address: the \<^verbatim>\<open>ScriptBuilder\<close>, the standard payment scripts of \<^verbatim>\<open>PayToAddrScript\<close> and the
  multi-signature script.  Destinations are the address types of the vendored \<^verbatim>\<open>btcutil\<close>; a public key is kept
  as its serialisation.
\<close>

section \<open>Opcodes and limits\<close>

abbreviation OP_0 :: u8 where "OP_0 \<equiv> 0x00"
abbreviation OP_DATA_1 :: u8 where "OP_DATA_1 \<equiv> 0x01"
abbreviation OP_PUSHDATA1 :: u8 where "OP_PUSHDATA1 \<equiv> 0x4c"
abbreviation OP_PUSHDATA2 :: u8 where "OP_PUSHDATA2 \<equiv> 0x4d"
abbreviation OP_PUSHDATA4 :: u8 where "OP_PUSHDATA4 \<equiv> 0x4e"
abbreviation OP_1NEGATE :: u8 where "OP_1NEGATE \<equiv> 0x4f"
abbreviation OP_1 :: u8 where "OP_1 \<equiv> 0x51"
abbreviation OP_DUP :: u8 where "OP_DUP \<equiv> 0x76"
abbreviation OP_EQUAL :: u8 where "OP_EQUAL \<equiv> 0x87"
abbreviation OP_EQUALVERIFY :: u8 where "OP_EQUALVERIFY \<equiv> 0x88"
abbreviation OP_HASH160 :: u8 where "OP_HASH160 \<equiv> 0xa9"
abbreviation OP_CHECKSIG :: u8 where "OP_CHECKSIG \<equiv> 0xac"
abbreviation OP_CHECKMULTISIG :: u8 where "OP_CHECKMULTISIG \<equiv> 0xae"

abbreviation MaxScriptSize :: nat where "MaxScriptSize \<equiv> 10000"
abbreviation MaxScriptElementSize :: nat where "MaxScriptElementSize \<equiv> 520"

section \<open>The script builder\<close>

record script_builder =
  sb_script :: "u8 list"
  sb_err :: "go_error option"

definition NewScriptBuilder :: script_builder where
  "NewScriptBuilder = \<lparr>sb_script = [], sb_err = None\<rparr>"

definition AddOp :: "u8 \<Rightarrow> script_builder \<Rightarrow> script_builder" where
  "AddOp opcode b =
     (if sb_err b \<noteq> None then b
      else if length (sb_script b) + 1 > MaxScriptSize then
        b\<lparr>sb_err := Some (Errorf ''adding an opcode would exceed the maximum allowed canonical script length of %d''
             [Num (int MaxScriptSize)])\<rparr>
      else b\<lparr>sb_script := sb_script b @ [opcode]\<rparr>)"

definition canonicalDataSize :: "u8 list \<Rightarrow> nat" where
  "canonicalDataSize data =
     (let dataLen = length data in
      if dataLen = 0 then 1
      else if dataLen = 1 \<and> data ! 0 \<le> 16 then 1
      else if dataLen = 1 \<and> data ! 0 = 0x81 then 1
      else if dataLen < unat OP_PUSHDATA1 then 1 + dataLen
      else if dataLen \<le> 0xff then 2 + dataLen
      else if dataLen \<le> 0xffff then 3 + dataLen
      else 5 + dataLen)"

text \<open>\<^verbatim>\<open>binary.LittleEndian.PutUint16\<close> and \<^verbatim>\<open>PutUint32\<close>.\<close>

fun put_le :: "nat \<Rightarrow> nat \<Rightarrow> u8 list" where
  "put_le 0 v = []"
| "put_le (Suc k) v = of_nat (v mod 256) # put_le k (v div 256)"

definition addData :: "u8 list \<Rightarrow> script_builder \<Rightarrow> script_builder" where
  "addData data b =
     (let dataLen = length data; push = (\<lambda>bs. b\<lparr>sb_script := sb_script b @ bs\<rparr>) in
      if dataLen = 0 \<or> dataLen = 1 \<and> data ! 0 = 0 then push [OP_0]
      else if dataLen = 1 \<and> data ! 0 \<le> 16 then push [(OP_1 - 1) + data ! 0]
      else if dataLen = 1 \<and> data ! 0 = 0x81 then push [OP_1NEGATE]
      else if dataLen < unat OP_PUSHDATA1 then push ([(OP_DATA_1 - 1) + of_nat dataLen] @ data)
      else if dataLen \<le> 0xff then push ([OP_PUSHDATA1, of_nat dataLen] @ data)
      else if dataLen \<le> 0xffff then push ([OP_PUSHDATA2] @ put_le 2 dataLen @ data)
      else push ([OP_PUSHDATA4] @ put_le 4 dataLen @ data))"

definition AddData :: "u8 list \<Rightarrow> script_builder \<Rightarrow> script_builder" where
  "AddData data b =
     (if sb_err b \<noteq> None then b
      else if length (sb_script b) + canonicalDataSize data > MaxScriptSize then
        b\<lparr>sb_err := Some (Errorf ''adding %d bytes of data would exceed the maximum allowed canonical script length of %d''
             [Num (int (canonicalDataSize data)), Num (int MaxScriptSize)])\<rparr>
      else if length data > MaxScriptElementSize then
        b\<lparr>sb_err := Some (Errorf ''adding a data element of %d bytes would exceed the maximum allowed script element size of %d''
             [Num (int (length data)), Num (int MaxScriptElementSize)])\<rparr>
      else addData data b)"

text \<open>
  \<^verbatim>\<open>scriptNum.Bytes\<close>: little endian magnitude with the sign in the top bit of the last byte.
\<close>

fun le_magnitude :: "nat \<Rightarrow> u8 list" where
  "le_magnitude n = (if n = 0 then [] else of_nat (n mod 256) # le_magnitude (n div 256))"

declare le_magnitude.simps [simp del]

definition scriptNum_Bytes :: "int \<Rightarrow> u8 list" where
  "scriptNum_Bytes n =
     (if n = 0 then []
      else let r = le_magnitude (nat \<bar>n\<bar>) in
        if bit (last r) 7 then r @ [if n < 0 then 0x80 else 0x00]
        else if n < 0 then butlast r @ [or (last r) 0x80]
        else r)"

definition AddInt64 :: "int \<Rightarrow> script_builder \<Rightarrow> script_builder" where
  "AddInt64 val b =
     (if sb_err b \<noteq> None then b
      else if length (sb_script b) + 1 > MaxScriptSize then
        b\<lparr>sb_err := Some (Errorf ''adding an integer would exceed the maximum allow canonical script length of %d''
             [Num (int MaxScriptSize)])\<rparr>
      else if val = 0 then b\<lparr>sb_script := sb_script b @ [OP_0]\<rparr>
      else if val = -1 \<or> (val \<ge> 1 \<and> val \<le> 16) then
        b\<lparr>sb_script := sb_script b @ [(OP_1 - 1) + of_int val]\<rparr>
      else AddData (scriptNum_Bytes val) b)"

text \<open>\<^verbatim>\<open>Script()\<close> returns the bytes and the error; the callers use the bytes only when it is nil.\<close>

definition Script :: "script_builder \<Rightarrow> u8 list fallible" where
  "Script b = (case sb_err b of Some e \<Rightarrow> Inl e | None \<Rightarrow> Inr (sb_script b))"

section \<open>Destinations and their payment scripts\<close>

datatype btc_address =
    AddressPubKeyHash "u8 list" u8
  | AddressScriptHash "u8 list" u8
  | AddressPubKey "u8 list" u8
  | AddressWitnessPubKeyHash string "u8 list"
  | AddressWitnessScriptHash string "u8 list"

fun ScriptAddress :: "btc_address \<Rightarrow> u8 list" where
  "ScriptAddress (AddressPubKeyHash hash _) = hash"
| "ScriptAddress (AddressScriptHash hash _) = hash"
| "ScriptAddress (AddressPubKey pk _) = pk"
| "ScriptAddress (AddressWitnessPubKeyHash _ prog) = prog"
| "ScriptAddress (AddressWitnessScriptHash _ prog) = prog"

definition payToPubKeyHashScript :: "u8 list \<Rightarrow> u8 list fallible" where
  "payToPubKeyHashScript pubKeyHash =
     Script (AddOp OP_CHECKSIG (AddOp OP_EQUALVERIFY (AddData pubKeyHash
       (AddOp OP_HASH160 (AddOp OP_DUP NewScriptBuilder)))))"

definition payToWitnessPubKeyHashScript :: "u8 list \<Rightarrow> u8 list fallible" where
  "payToWitnessPubKeyHashScript pubKeyHash = Script (AddData pubKeyHash (AddOp OP_0 NewScriptBuilder))"

definition payToScriptHashScript :: "u8 list \<Rightarrow> u8 list fallible" where
  "payToScriptHashScript scriptHash =
     Script (AddOp OP_EQUAL (AddData scriptHash (AddOp OP_HASH160 NewScriptBuilder)))"

definition payToWitnessScriptHashScript :: "u8 list \<Rightarrow> u8 list fallible" where
  "payToWitnessScriptHashScript scriptHash = Script (AddData scriptHash (AddOp OP_0 NewScriptBuilder))"

definition payToPubKeyScript :: "u8 list \<Rightarrow> u8 list fallible" where
  "payToPubKeyScript serializedPubKey = Script (AddOp OP_CHECKSIG (AddData serializedPubKey NewScriptBuilder))"

fun PayToAddrScript :: "btc_address \<Rightarrow> u8 list fallible" where
  "PayToAddrScript (AddressPubKeyHash h n) = payToPubKeyHashScript (ScriptAddress (AddressPubKeyHash h n))"
| "PayToAddrScript (AddressScriptHash h n) = payToScriptHashScript (ScriptAddress (AddressScriptHash h n))"
| "PayToAddrScript (AddressPubKey pk n) = payToPubKeyScript (ScriptAddress (AddressPubKey pk n))"
| "PayToAddrScript (AddressWitnessPubKeyHash hrp p) =
     payToWitnessPubKeyHashScript (ScriptAddress (AddressWitnessPubKeyHash hrp p))"
| "PayToAddrScript (AddressWitnessScriptHash hrp p) =
     payToWitnessScriptHashScript (ScriptAddress (AddressWitnessScriptHash hrp p))"

text \<open>\<open>nrequired\<close> of the keys have to sign.\<close>

definition MultiSigScript :: "btc_address list \<Rightarrow> int \<Rightarrow> u8 list fallible" where
  "MultiSigScript pubkeys nrequired =
     (if int (length pubkeys) < nrequired then
        Inl (Errorf ''unable to generate multisig script with %d required signatures when there are only %d public keys available''
               [Num nrequired, Num (int (length pubkeys))])
      else
        (let builder = AddInt64 nrequired NewScriptBuilder;
             builder = fold (\<lambda>key. AddData (ScriptAddress key)) pubkeys builder;
             builder = AddInt64 (int (length pubkeys)) builder
         in Script (AddOp OP_CHECKMULTISIG builder)))"

section \<open>Closed forms\<close>

named_theorems builder_simps \<open>one step of the script builder\<close>

lemma NewScriptBuilder_simps [builder_simps]:
  "sb_script NewScriptBuilder = []" "sb_err NewScriptBuilder = None"
  by (simp_all add: NewScriptBuilder_def)

lemma AddOp_step [builder_simps]:
  assumes "sb_err b = None" and "length (sb_script b) < MaxScriptSize"
  shows "sb_script (AddOp c b) = sb_script b @ [c]" and "sb_err (AddOp c b) = None"
  using assms by (simp_all add: AddOp_def)

lemma AddData_step [builder_simps]:
  assumes "sb_err b = None" and "2 \<le> length d" and "length d < 76"
    and "length (sb_script b) + length d < MaxScriptSize"
  shows "sb_script (AddData d b) = sb_script b @ of_nat (length d) # d" and "sb_err (AddData d b) = None"
  using assms by (auto simp: AddData_def addData_def canonicalDataSize_def Let_def)

text \<open>The push of a small number: one opcode up to 16, a one-byte push above.\<close>

definition num_push :: "nat \<Rightarrow> u8 list" where
  "num_push k = (if k \<le> 16 then [0x50 + of_nat k] else [0x01, of_nat k])"

lemma scriptNum_Bytes_small: "0 < k \<Longrightarrow> k < 128 \<Longrightarrow> scriptNum_Bytes (int k) = [of_nat k]"
proof -
  assume k: "0 < k" "k < 128"
  have le: "le_magnitude k = [of_nat k]"
    using k by (simp add: le_magnitude.simps [of k] le_magnitude.simps [of 0])
  have "\<not> bit (of_nat k :: u8) 7"
    using k by (simp add: bit_of_nat_iff bit_nat_def)
  then show ?thesis using k by (simp add: scriptNum_Bytes_def le)
qed

lemma AddInt64_step [builder_simps]:
  assumes "sb_err b = None" and "0 < k" and "k \<le> 20" and "length (sb_script b) + 2 \<le> MaxScriptSize"
  shows "sb_script (AddInt64 (int k) b) = sb_script b @ num_push k" and "sb_err (AddInt64 (int k) b) = None"
proof -
  have big: "AddData [of_nat k] b = b\<lparr>sb_script := sb_script b @ [0x01, of_nat k]\<rparr>" if "\<not> k \<le> 16"
  proof -
    have "k \<in> {17, 18, 19, 20}" using that assms(3) by auto
    then show ?thesis
      using assms by (auto simp: AddData_def addData_def canonicalDataSize_def Let_def)
  qed
  show "sb_script (AddInt64 (int k) b) = sb_script b @ num_push k" "sb_err (AddInt64 (int k) b) = None"
    using assms big by (auto simp: AddInt64_def num_push_def scriptNum_Bytes_small)
qed

text \<open>Destinations as \<^verbatim>\<open>DecodeAddress\<close> and the address constructors make them.\<close>

fun wf_address :: "btc_address \<Rightarrow> bool" where
  "wf_address (AddressPubKeyHash h _) = (length h = 20)"
| "wf_address (AddressScriptHash h _) = (length h = 20)"
| "wf_address (AddressPubKey pk _) = (length pk = 33 \<or> length pk = 65)"
| "wf_address (AddressWitnessPubKeyHash _ p) = (length p = 20)"
| "wf_address (AddressWitnessScriptHash _ p) = (length p = 32)"

text \<open>Two addresses name the same destination when they differ in the network only.\<close>

fun same_destination :: "btc_address \<Rightarrow> btc_address \<Rightarrow> bool" where
  "same_destination (AddressPubKeyHash h _) (AddressPubKeyHash h' _) = (h = h')"
| "same_destination (AddressScriptHash h _) (AddressScriptHash h' _) = (h = h')"
| "same_destination (AddressPubKey pk _) (AddressPubKey pk' _) = (pk = pk')"
| "same_destination (AddressWitnessPubKeyHash _ p) (AddressWitnessPubKeyHash _ p') = (p = p')"
| "same_destination (AddressWitnessScriptHash _ p) (AddressWitnessScriptHash _ p') = (p = p')"
| "same_destination _ _ = False"

lemma pay_scripts:
  "length h = 20 \<Longrightarrow> payToPubKeyHashScript h = Inr ([0x76, 0xa9, 20] @ h @ [0x88, 0xac])"
  "length h = 20 \<Longrightarrow> payToScriptHashScript h = Inr ([0xa9, 20] @ h @ [0x87])"
  "length pk = 33 \<or> length pk = 65 \<Longrightarrow>
     payToPubKeyScript pk = Inr (of_nat (length pk) # pk @ [0xac])"
  "length h = 20 \<Longrightarrow> payToWitnessPubKeyHashScript h = Inr ([0x00, 20] @ h)"
  "length p = 32 \<Longrightarrow> payToWitnessScriptHashScript p = Inr ([0x00, 32] @ p)"
  by (auto simp: payToPubKeyHashScript_def payToScriptHashScript_def payToPubKeyScript_def
      payToWitnessPubKeyHashScript_def payToWitnessScriptHashScript_def Script_def builder_simps)

lemma PayToAddrScript_succeeds: "wf_address a \<Longrightarrow> \<exists>s. PayToAddrScript a = Inr s"
  by (cases a) (auto simp: pay_scripts)

lemma add_keys_step:
  assumes "sb_err b = None" and "\<forall>k \<in> set ks. length (ScriptAddress k) = 33"
    and "length (sb_script b) + 34 * length ks \<le> MaxScriptSize"
  shows "sb_script (fold (\<lambda>key. AddData (ScriptAddress key)) ks b)
           = sb_script b @ concat (map (\<lambda>k. 33 # ScriptAddress k) ks) \<and>
         sb_err (fold (\<lambda>key. AddData (ScriptAddress key)) ks b) = None"
  using assms
proof (induction ks arbitrary: b)
  case Nil
  then show ?case by simp
next
  case (Cons k ks)
  let ?b = "AddData (ScriptAddress k) b"
  have b: "sb_script ?b = sb_script b @ 33 # ScriptAddress k" "sb_err ?b = None"
    using Cons.prems by (simp_all add: builder_simps)
  show ?case using Cons.IH [of ?b] Cons.prems b by simp
qed

section \<open>Properties\<close>

text \<open>
  On well-formed addresses the payment script determines the destination: two addresses get
  the same script exactly when they are of the same kind and carry the same hash, witness
  program or key.  The accounter's map of addresses, whose keys are these scripts, therefore
  never merges two destinations.
\<close>

theorem PayToAddrScript_injective:
  assumes "wf_address a" and "wf_address b"
  shows "PayToAddrScript a = PayToAddrScript b \<longleftrightarrow> same_destination a b"
  using assms by (cases a; cases b) (auto simp: pay_scripts)

theorem PayToAddrScript_injective_witness:
  "PayToAddrScript (AddressPubKeyHash (replicate 20 7) 0) \<noteq> PayToAddrScript (AddressScriptHash (replicate 20 7) 5)"
  using PayToAddrScript_injective [of "AddressPubKeyHash (replicate 20 7) 0" "AddressScriptHash (replicate 20 7) 5"]
  by simp

text \<open>
  For every quorum the command line accepts and compressed public keys, the multi-signature
  script is built without an error and is the number of required signatures, the keys in order,
  the number of keys and \<^verbatim>\<open>OP_CHECKMULTISIG\<close>; a number above 16 is a one-byte data push.
\<close>

theorem MultiSigScript_form:
  assumes "VerifyMandN (int m) (int (length keys)) = Inr ()"
    and "\<forall>k \<in> set keys. length (ScriptAddress k) = 33"
  shows "MultiSigScript keys (int m) =
    Inr (num_push m @ concat (map (\<lambda>k. 33 # ScriptAddress k) keys) @ num_push (length keys) @ [0xae])"
proof -
  have mn: "0 < m" "m \<le> length keys" "length keys \<le> 20"
    using assms(1) by (auto simp: VerifyMandN_def split: if_splits)
  let ?b1 = "AddInt64 (int m) NewScriptBuilder"
  let ?b2 = "fold (\<lambda>key. AddData (ScriptAddress key)) keys ?b1"
  have b1: "sb_script ?b1 = num_push m" "sb_err ?b1 = None" "length (num_push m) \<le> 2"
    using mn by (simp_all add: builder_simps) (simp add: num_push_def)
  have b2: "sb_script ?b2 = num_push m @ concat (map (\<lambda>k. 33 # ScriptAddress k) keys)" "sb_err ?b2 = None"
    using add_keys_step [of ?b1 keys] assms(2) b1 mn by auto
  have len: "length (concat (map (\<lambda>k. 33 # ScriptAddress k) keys)) = 34 * length keys"
    using assms(2) by (induction keys) auto
  let ?b3 = "AddInt64 (int (length keys)) ?b2"
  have small: "length (sb_script ?b2) + 4 \<le> MaxScriptSize" "length (num_push (length keys)) \<le> 2"
    using b2(1) b1(3) len mn by (simp_all add: num_push_def)
  have b3: "sb_script ?b3 = sb_script ?b2 @ num_push (length keys)" "sb_err ?b3 = None"
    by (rule AddInt64_step [OF b2(2)]; use mn small(1) in linarith)+
  have "length (sb_script ?b3) < MaxScriptSize"
    using b3(1) small by simp
  from AddOp_step [OF b3(2) this, of OP_CHECKMULTISIG] show ?thesis
    using mn b2(1) b3(1) by (simp add: MultiSigScript_def Script_def)
qed

theorem MultiSigScript_form_witness:
  "MultiSigScript [AddressPubKey (replicate 33 2) 0, AddressPubKey (replicate 33 3) 0] 2 =
     Inr ([0x52] @ (33 # replicate 33 2) @ (33 # replicate 33 3) @ [0x52, 0xae])"
  using MultiSigScript_form [of 2 "[AddressPubKey (replicate 33 2) 0, AddressPubKey (replicate 33 3) 0]"]
  by (simp add: VerifyMandN_def num_push_def)

end
