(* ===== verification/Deriver.thy ===== *)
theory Deriver
  imports Txscript
begin

text \<open>
  \<^verbatim>\<open>deriver/address_deriver.go\<close>: wallet addresses, the payment script of an address and the
  derivation of the address at (change, index) from one extended public key or, for a
  multi-signature wallet, from several.  The elliptic-curve key tree (\<^verbatim>\<open>hdkeychain\<close>), the hash
  functions and the address encodings are a parameter of the model, the record \<open>btc_lib\<close>; the
  scripts are those of theory \<open>Txscript\<close>.
\<close>

section \<open>The libraries the deriver calls\<close>

record ('k, 'p) btc_lib =
  NewKeyFromString :: "string \<Rightarrow> 'k fallible"
  Child :: "'k \<Rightarrow> u32 \<Rightarrow> 'k fallible"
  KeyString :: "'k \<Rightarrow> string"
  KeyAddress :: "'k \<Rightarrow> chain_params \<Rightarrow> btc_address fallible"
  ECPubKey :: "'k \<Rightarrow> 'p fallible"
  SerializeCompressed :: "'p \<Rightarrow> u8 list"
  NewAddressPubKey :: "u8 list \<Rightarrow> chain_params \<Rightarrow> btc_address fallible"
  Sum256 :: "u8 list \<Rightarrow> u8 list"
  NewAddressScriptHash :: "u8 list \<Rightarrow> chain_params \<Rightarrow> btc_address fallible"
  EncodeAddress :: "btc_address \<Rightarrow> string"
  DecodeAddress :: "string \<Rightarrow> chain_params \<Rightarrow> btc_address fallible"

section \<open>Addresses\<close>

record Address =
  a_path :: string
  a_addr :: string
  a_net :: network
  a_change :: u32
  a_addrIndex :: u32

definition NewAddress :: "string \<Rightarrow> string \<Rightarrow> network \<Rightarrow> u32 \<Rightarrow> u32 \<Rightarrow> Address" where
  "NewAddress path addr net change addrIndex =
     \<lparr>a_path = path, a_addr = addr, a_net = net, a_change = change, a_addrIndex = addrIndex\<rparr>"

definition Path :: "Address \<Rightarrow> string" where "Path a = a_path a"
definition Address_String :: "Address \<Rightarrow> string" where "Address_String a = a_addr a"
definition Change :: "Address \<Rightarrow> u32" where "Change a = a_change a"
definition Index :: "Address \<Rightarrow> u32" where "Index a = a_addrIndex a"
definition Network :: "Address \<Rightarrow> network" where "Network a = a_net a"

lemmas address_defs [go_simps] =
  NewAddress_def Path_def Address_String_def Change_def Index_def Network_def

definition Address_Address :: "('k, 'p) btc_lib \<Rightarrow> Address \<Rightarrow> btc_address result" where
  "Address_Address lib a =
     sbind (ChainConfig (a_net a)) (\<lambda>params.
       case DecodeAddress lib (a_addr a) params of
         Inl err \<Rightarrow> Inl (Panic ''failed to decode address'' [])
       | Inr address \<Rightarrow> Inr address)"

definition Address_Script :: "('k, 'p) btc_lib \<Rightarrow> Address \<Rightarrow> string result" where
  "Address_Script lib a =
     sbind (Address_Address lib a) (\<lambda>address.
       case PayToAddrScript address of
         Inl err \<Rightarrow> Inl (Panic ''failed to encode script'' [])
       | Inr script \<Rightarrow> Inr (hex_encode script))"

section \<open>Sorting the public keys\<close>

definition sortedByteArrays_Less :: "u8 list \<Rightarrow> u8 list \<Rightarrow> bool result" where
  "sortedByteArrays_Less b c =
     (if bytes_compare b c = -1 then Inr True
      else if bytes_compare b c = 0 \<or> bytes_compare b c = 1 then Inr False
      else Inl (Panic ''not fail-able with `bytes.Comparable` bounded [-1, 1].'' []))"

definition sortByteArrays :: "u8 list list \<Rightarrow> u8 list list" where
  "sortByteArrays src = go_sort (\<lambda>b c. sortedByteArrays_Less b c = Inr True) src"

section \<open>The deriver\<close>

record AddressDeriver =
  d_network :: network
  d_xpubs :: "string list"
  d_m :: int
  d_singleAddress :: string

definition NewAddressDeriver :: "network \<Rightarrow> string list \<Rightarrow> int \<Rightarrow> string \<Rightarrow> AddressDeriver" where
  "NewAddressDeriver network xpubs m singleAddress =
     \<lparr>d_network = network, d_xpubs = xpubs, d_m = m, d_singleAddress = singleAddress\<rparr>"

text \<open>The two steps down the key tree that both derivations take.\<close>

definition childKey :: "('k, 'p) btc_lib \<Rightarrow> string \<Rightarrow> u32 \<Rightarrow> u32 \<Rightarrow> 'k result" where
  "childKey lib xpub change addressIndex =
     sbind (PanicOnError (NewKeyFromString lib xpub)) (\<lambda>key.
     sbind (PanicOnError (Child lib key change)) (\<lambda>key.
     PanicOnError (Child lib key addressIndex)))"

definition singleDerive :: "('k, 'p) btc_lib \<Rightarrow> AddressDeriver \<Rightarrow> u32 \<Rightarrow> u32 \<Rightarrow> string result" where
  "singleDerive lib d change addressIndex =
     sbind (at_index (d_xpubs d) 0) (\<lambda>xpub.
     sbind (childKey lib xpub change addressIndex) (\<lambda>key.
     sbind (ChainConfig (d_network d)) (\<lambda>params.
     sbind (PanicOnError (KeyAddress lib key params)) (\<lambda>pubKey.
     Inr (EncodeAddress lib pubKey)))))"

text \<open>The body of the first loop up to the append: the compressed key of one cosigner.\<close>

definition pubKeyBytes :: "('k, 'p) btc_lib \<Rightarrow> u32 \<Rightarrow> u32 \<Rightarrow> string \<Rightarrow> u8 list result" where
  "pubKeyBytes lib change addressIndex xpub =
     sbind (childKey lib xpub change addressIndex) (\<lambda>key.
     sbind (PanicOnError (ECPubKey lib key)) (\<lambda>pubKey.
     let bytes = SerializeCompressed lib pubKey in
     if length bytes \<noteq> 33
     then Inl (Panic ''expected pubkey length 33, got %d'' [Num (int (length bytes))])
     else Inr bytes))"

definition multiSigSegwitDerive ::
    "('k, 'p) btc_lib \<Rightarrow> AddressDeriver \<Rightarrow> u32 \<Rightarrow> u32 \<Rightarrow> string result" where
  "multiSigSegwitDerive lib d change addressIndex =
     sbind (sfold (\<lambda>xpub pubKeysBytes.
         sbind (pubKeyBytes lib change addressIndex xpub) (\<lambda>bytes.
         Inr (sortByteArrays (pubKeysBytes @ [bytes])))) (d_xpubs d) []) (\<lambda>pubKeysBytes.
     sbind (smap (\<lambda>bytes.
         sbind (ChainConfig (d_network d)) (\<lambda>params.
         PanicOnError (NewAddressPubKey lib bytes params))) pubKeysBytes) (\<lambda>pubKeys.
     sbind (PanicOnError (MultiSigScript pubKeys (d_m d))) (\<lambda>multiSigScript.
     let sha = Sum256 lib multiSigScript in
     sbind (PanicOnError (Script (AddData sha (AddOp OP_0 NewScriptBuilder)))) (\<lambda>segWitScript.
     sbind (ChainConfig (d_network d)) (\<lambda>params.
     sbind (PanicOnError (NewAddressScriptHash lib segWitScript params)) (\<lambda>addrScriptHash.
     Inr (EncodeAddress lib addrScriptHash)))))))"

definition derive_path :: "u32 \<Rightarrow> u32 \<Rightarrow> string" where
  "derive_path change addressIndex =
     ''m/.../'' @ dec_digits (unat change) @ ''/'' @ dec_digits (unat addressIndex)"

definition Derive :: "('k, 'p) btc_lib \<Rightarrow> AddressDeriver \<Rightarrow> u32 \<Rightarrow> u32 \<Rightarrow> Address result" where
  "Derive lib d change addressIndex =
     (if d_singleAddress d \<noteq> '''' then
        Inr \<lparr>a_path = ''n/a'', a_addr = d_singleAddress d, a_net = d_network d, a_change = 0, a_addrIndex = 0\<rparr>
      else
        (let addr = \<lparr>a_path = derive_path change addressIndex, a_addr = '''', a_net = d_network d,
                     a_change = change, a_addrIndex = addressIndex\<rparr> in
         if length (d_xpubs d) = 1 then
           sbind (singleDerive lib d change addressIndex) (\<lambda>s. Inr (addr\<lparr>a_addr := s\<rparr>))
         else
           sbind (multiSigSegwitDerive lib d change addressIndex) (\<lambda>s. Inr (addr\<lparr>a_addr := s\<rparr>))))"

section \<open>Lemmas\<close>

lemma sortedByteArrays_Less_eq: "sortedByteArrays_Less b c = Inr (b < c)"
  using bytes_compare_cases [of b c] bytes_compare_less [of b c]
  by (auto simp: sortedByteArrays_Less_def)

interpretation bytes_sort: sort_interface "\<lambda>b c. sortedByteArrays_Less b c = Inr True" id
  by unfold_locales (simp add: sortedByteArrays_Less_eq)

lemma sortByteArrays_perm: "mset xs = mset ys \<Longrightarrow> sortByteArrays xs = sortByteArrays ys"
  unfolding sortByteArrays_def by (rule bytes_sort.go_sort_perm) simp_all

lemma sortByteArrays_again:
  "sortByteArrays (sortByteArrays xs @ ys) = sortByteArrays (xs @ ys)"
  by (rule sortByteArrays_perm) (simp add: sortByteArrays_def bytes_sort.go_sort_mset)

lemma sortByteArrays_Nil [simp]: "sortByteArrays [] = []"
  by (simp add: sortByteArrays_def go_sort_def)

text \<open>Sorting in every round of the loop is sorting once at its end.\<close>

lemma key_loop:
  "sfold (\<lambda>x acc. sbind (f x) (\<lambda>b. Inr (sortByteArrays (acc @ [b])))) xs (sortByteArrays acc)
     = sbind (smap f xs) (\<lambda>bs. Inr (sortByteArrays (acc @ bs)))"
proof (induction xs arbitrary: acc)
  case Nil
  then show ?case by simp
next
  case (Cons x xs)
  show ?case
  proof (cases "f x")
    case (Inl e)
    then show ?thesis by simp
  next
    case (Inr b)
    then show ?thesis
      using Cons [of "acc @ [b]"] by (cases "smap f xs") (simp_all add: sortByteArrays_again)
  qed
qed

lemma key_loop_perm:
  assumes "sfold (\<lambda>x acc. sbind (f x) (\<lambda>b. Inr (sortByteArrays (acc @ [b])))) xs [] = Inr r"
    and "mset xs' = mset xs"
  shows "sfold (\<lambda>x acc. sbind (f x) (\<lambda>b. Inr (sortByteArrays (acc @ [b])))) xs' [] = Inr r"
proof -
  obtain bs where bs: "smap f xs = Inr bs" "r = sortByteArrays bs"
    using assms(1) key_loop [of f xs "[]"] by (cases "smap f xs") auto
  obtain bs' where "smap f xs' = Inr bs'" "mset bs' = mset bs"
    using smap_perm [OF bs(1) assms(2)] by blast
  then show ?thesis
    using key_loop [of f xs' "[]"] sortByteArrays_perm [of bs' bs] bs(2) by simp
qed

lemma Derive_metadata:
  assumes "Derive lib d change addressIndex = Inr a" and "d_singleAddress d = ''''"
  shows "Path a = derive_path change addressIndex" "Change a = change" "Index a = addressIndex"
    "Network a = d_network d"
  using assms by (auto simp: Derive_def Let_def sbind_Inr_iff go_simps split: if_splits)

lemma derive_path_inject:
  "derive_path c i = derive_path c' i' \<longleftrightarrow> c = c' \<and> i = i'"
proof
  assume "derive_path c i = derive_path c' i'"
  then have eq: "dec_digits (unat c) @ CHR ''/'' # dec_digits (unat i)
      = dec_digits (unat c') @ CHR ''/'' # dec_digits (unat i')"
    by (simp add: derive_path_def)
  have idx: "index_of (CHR ''/'') (dec_digits (unat x) @ CHR ''/'' # ys) = Some (length (dec_digits (unat x)))"
    for x :: u32 and ys
    by (rule index_of_append_notin) (rule slash_notin_dec_digits)
  have "length (dec_digits (unat c)) = length (dec_digits (unat c'))"
    using idx [of c "dec_digits (unat i)"] idx [of c' "dec_digits (unat i')"] eq by simp
  with eq have "dec_digits (unat c) = dec_digits (unat c')" "dec_digits (unat i) = dec_digits (unat i')"
    by simp_all
  then show "c = c' \<and> i = i'" by (simp add: dec_digits_inject word_unat_eq_iff)
qed simp

section \<open>What the libraries promise\<close>

text \<open>The version bytes of \<^verbatim>\<open>chaincfg\<close> in front of a base58 address.\<close>

fun PubKeyHashAddrID :: "chain_params \<Rightarrow> u8" where
  "PubKeyHashAddrID MainNetParams = 0x00"
| "PubKeyHashAddrID TestNet3Params = 0x6f"

fun ScriptHashAddrID :: "chain_params \<Rightarrow> u8" where
  "ScriptHashAddrID MainNetParams = 0x05"
| "ScriptHashAddrID TestNet3Params = 0xc4"

text \<open>
  The documented behaviour the deriver relies on: a key's address is the hash of its public key
  and the address of a script the hash of the script, both 20 bytes under the network's version
  byte, and decoding the text of such an address gives it back.
\<close>

definition lib_laws :: "('k, 'p) btc_lib \<Rightarrow> bool" where
  "lib_laws lib \<longleftrightarrow>
     (\<forall>k params a. KeyAddress lib k params = Inr a \<longrightarrow>
        (\<exists>h. a = AddressPubKeyHash h (PubKeyHashAddrID params) \<and> length h = 20)) \<and>
     (\<forall>s params a. NewAddressScriptHash lib s params = Inr a \<longrightarrow>
        (\<exists>h. a = AddressScriptHash h (ScriptHashAddrID params) \<and> length h = 20)) \<and>
     (\<forall>h params. length h = 20 \<longrightarrow>
        DecodeAddress lib (EncodeAddress lib (AddressPubKeyHash h (PubKeyHashAddrID params))) params
          = Inr (AddressPubKeyHash h (PubKeyHashAddrID params)) \<and>
        DecodeAddress lib (EncodeAddress lib (AddressScriptHash h (ScriptHashAddrID params))) params
          = Inr (AddressScriptHash h (ScriptHashAddrID params)))"

lemma singleDerive_address:
  assumes "lib_laws lib" and "singleDerive lib d change addressIndex = Inr s"
  shows "\<exists>params h. ChainConfig (d_network d) = Inr params \<and> length h = 20 \<and>
    DecodeAddress lib s params = Inr (AddressPubKeyHash h (PubKeyHashAddrID params))"
  using assms unfolding lib_laws_def singleDerive_def
  by (fastforce simp: sbind_Inr_iff PanicOnError_Inr_iff)

lemma multiSigSegwitDerive_address:
  assumes "lib_laws lib" and "multiSigSegwitDerive lib d change addressIndex = Inr s"
  shows "\<exists>params h. ChainConfig (d_network d) = Inr params \<and> length h = 20 \<and>
    DecodeAddress lib s params = Inr (AddressScriptHash h (ScriptHashAddrID params))"
  using assms unfolding lib_laws_def multiSigSegwitDerive_def Let_def
  by (fastforce simp: sbind_Inr_iff PanicOnError_Inr_iff)

text \<open>
  A small library that satisfies the laws, with the last bytes of its input in the place of every
  hash, for evaluating the model on concrete wallets.
\<close>

definition tail_digest :: "nat \<Rightarrow> u8 list \<Rightarrow> u8 list" where
  "tail_digest n bs = take n (rev bs @ replicate n 0)"

definition sample_lib :: "(u8 list, u8 list) btc_lib" where
  "sample_lib =
     \<lparr>NewKeyFromString = (\<lambda>s. Inr (map of_char s)),
      Child = (\<lambda>k i. Inr (k @ put_le 4 (unat i))),
      KeyString = map (\<lambda>b. char_of (unat b)),
      KeyAddress = (\<lambda>k params. Inr (AddressPubKeyHash (tail_digest 20 k) (PubKeyHashAddrID params))),
      ECPubKey = Inr,
      SerializeCompressed = (\<lambda>p. 2 # tail_digest 32 p),
      NewAddressPubKey = (\<lambda>bs params. Inr (AddressPubKey bs (PubKeyHashAddrID params))),
      Sum256 = tail_digest 32,
      NewAddressScriptHash = (\<lambda>s params. Inr (AddressScriptHash (tail_digest 20 s) (ScriptHashAddrID params))),
      EncodeAddress = (\<lambda>a. case a of
          AddressPubKeyHash h n \<Rightarrow> hex_encode (0 # n # h)
        | AddressScriptHash h n \<Rightarrow> hex_encode (1 # n # h)
        | _ \<Rightarrow> hex_encode (ScriptAddress a)),
      DecodeAddress = (\<lambda>s params. case hex_decode s of
          (k # n # h, True) \<Rightarrow> Inr (if k = 0 then AddressPubKeyHash h n else AddressScriptHash h n)
        | _ \<Rightarrow> Inl (Errorf ''decoded address is of unknown format'' []))\<rparr>"

lemma length_tail_digest [simp]: "length (tail_digest n bs) = n"
  by (simp add: tail_digest_def)

lemma sample_lib_laws: "lib_laws sample_lib"
  by (simp add: lib_laws_def sample_lib_def del: hex_encode_simps)

section \<open>Properties\<close>

text \<open>
  C17: the order in which the cosigners' extended keys are entered does not matter: a
  multi-signature wallet derives the same address at every (change, index) for any permutation
  of its keys, because the compressed keys are sorted before they enter the script.
\<close>

theorem multisig_order_irrelevant:
  assumes "mset (d_xpubs d') = mset (d_xpubs d)" and "d_network d' = d_network d" and "d_m d' = d_m d"
    and "multiSigSegwitDerive lib d change addressIndex = Inr s"
  shows "multiSigSegwitDerive lib d' change addressIndex = Inr s"
proof -
  let ?loop = "sfold (\<lambda>xpub acc. sbind (pubKeyBytes lib change addressIndex xpub)
      (\<lambda>b. Inr (sortByteArrays (acc @ [b]))))"
  obtain r where "?loop (d_xpubs d) [] = Inr r"
    using assms(4) by (auto simp: multiSigSegwitDerive_def sbind_Inr_iff)
  moreover from key_loop_perm [OF this assms(1)] have "?loop (d_xpubs d') [] = Inr r" .
  ultimately show ?thesis
    using assms(2-4) by (simp add: multiSigSegwitDerive_def)
qed

theorem multisig_order_irrelevant_witness:
  "\<exists>s. multiSigSegwitDerive sample_lib (NewAddressDeriver Testnet [''tpubA'', ''tpubB''] 2 '''') 0 5 = Inr s \<and>
       multiSigSegwitDerive sample_lib (NewAddressDeriver Testnet [''tpubB'', ''tpubA''] 2 '''') 0 5 = Inr s"
proof -
  let ?d = "NewAddressDeriver Testnet [''tpubA'', ''tpubB''] 2 ''''"
  let ?d' = "NewAddressDeriver Testnet [''tpubB'', ''tpubA''] 2 ''''"
  have "\<not> isl (multiSigSegwitDerive sample_lib ?d 0 5)" by code_simp
  then obtain s where s: "multiSigSegwitDerive sample_lib ?d 0 5 = Inr s"
    by (cases "multiSigSegwitDerive sample_lib ?d 0 5") auto
  have "multiSigSegwitDerive sample_lib ?d' 0 5 = Inr s"
    by (rule multisig_order_irrelevant [OF _ _ _ s]) (simp_all add: NewAddressDeriver_def)
  with s show ?thesis by blast
qed

text \<open>
  The script under which a derived address is filed.  A wallet with one extended key pays to a
  public key hash, a wallet with several to a script hash; \<^verbatim>\<open>Script\<close> of the derived address
  does not panic and is the hexadecimal text of exactly that standard script.
\<close>

theorem derived_script_form:
  assumes "lib_laws lib" and "d_singleAddress d = ''''"
    and "Derive lib d change addressIndex = Inr a"
  shows "\<exists>h. length h = 20 \<and>
    Address_Script lib a = Inr (hex_encode
      (if length (d_xpubs d) = 1 then [0x76, 0xa9, 20] @ h @ [0x88, 0xac] else [0xa9, 20] @ h @ [0x87]))"
proof (cases "length (d_xpubs d) = 1")
  case True
  with assms(2,3) have "singleDerive lib d change addressIndex = Inr (a_addr a)" "a_net a = d_network d"
    by (auto simp: Derive_def Let_def sbind_Inr_iff)
  with singleDerive_address [OF assms(1)] True show ?thesis
    by (fastforce simp: Address_Script_def Address_Address_def pay_scripts)
next
  case False
  with assms(2,3) have "multiSigSegwitDerive lib d change addressIndex = Inr (a_addr a)" "a_net a = d_network d"
    by (auto simp: Derive_def Let_def sbind_Inr_iff)
  with multiSigSegwitDerive_address [OF assms(1)] False show ?thesis
    by (fastforce simp: Address_Script_def Address_Address_def pay_scripts)
qed

theorem derived_script_form_witness:
  "\<exists>a h. Derive sample_lib (NewAddressDeriver Mainnet [''xpubA''] 1 '''') 0 5 = Inr a \<and> length h = 20 \<and>
     Address_Script sample_lib a = Inr (hex_encode ([0x76, 0xa9, 20] @ h @ [0x88, 0xac]))"
proof -
  let ?d = "NewAddressDeriver Mainnet [''xpubA''] 1 ''''"
  have "\<not> isl (Derive sample_lib ?d 0 5)" by code_simp
  then obtain a where a: "Derive sample_lib ?d 0 5 = Inr a"
    by (cases "Derive sample_lib ?d 0 5") auto
  with derived_script_form [OF sample_lib_laws _ a] show ?thesis
    by (auto simp: NewAddressDeriver_def)
qed

text \<open>
  The path shown for a derived address identifies it: two derivations of a wallet report the
  same path only for the same change value and the same index, which are also the values the
  address carries.
\<close>

theorem derived_path_identifies:
  assumes "d_singleAddress d = ''''"
    and "Derive lib d c i = Inr a" and "Derive lib d c' i' = Inr a'"
  shows "(Path a = Path a' \<longleftrightarrow> c = c' \<and> i = i') \<and> Change a = c \<and> Index a = i \<and> Network a = d_network d"
  using Derive_metadata [OF assms(2,1)] Derive_metadata [OF assms(3,1)] by (simp add: derive_path_inject)

theorem derived_path_identifies_witness:
  "\<exists>a a'. Derive sample_lib (NewAddressDeriver Mainnet [''xpubA''] 1 '''') 0 15 = Inr a \<and>
     Derive sample_lib (NewAddressDeriver Mainnet [''xpubA''] 1 '''') 1 5 = Inr a' \<and> Path a \<noteq> Path a'"
proof -
  let ?d = "NewAddressDeriver Mainnet [''xpubA''] 1 ''''"
  have "\<not> isl (Derive sample_lib ?d 0 15)" "\<not> isl (Derive sample_lib ?d 1 5)" by code_simp+
  then obtain a a' where a: "Derive sample_lib ?d 0 15 = Inr a" "Derive sample_lib ?d 1 5 = Inr a'"
    by (cases "Derive sample_lib ?d 0 15"; cases "Derive sample_lib ?d 1 5") auto
  with derived_path_identifies [OF _ a] show ?thesis by (auto simp: NewAddressDeriver_def)
qed

end
