(* ===== verification/Reporter.thy ===== *)
theory Reporter
  imports Utils
begin

text \<open>
  \<^verbatim>\<open>reporter/reporter.go\<close>: the progress counters.  The Go struct is a process-wide singleton whose
  fields are read and written with \<^verbatim>\<open>sync/atomic\<close>, so each operation is one step on the record.
  The signed counters are words read with \<open>sint\<close>.  \<^verbatim>\<open>Log\<close> and \<^verbatim>\<open>Logf\<close> print a line made of the
  counters; the line is the value \<open>Log\<close> returns here.
\<close>

record reporter =
  addressesScheduled :: u32
  addressesFetched :: u32
  txScheduled :: u32
  txFetched :: u32
  txAfterFilter :: u32
  peers :: u32

definition new_reporter :: reporter where
  "new_reporter = \<lparr>addressesScheduled = 0, addressesFetched = 0, txScheduled = 0, txFetched = 0,
     txAfterFilter = 0, peers = 0\<rparr>"

text \<open>The \<^verbatim>\<open>sync.Once\<close> of \<^verbatim>\<open>GetInstance\<close>: the first call creates the instance, later calls return it.\<close>

definition GetInstance :: "reporter option \<Rightarrow> reporter" where
  "GetInstance inst = (case inst of None \<Rightarrow> new_reporter | Some r \<Rightarrow> r)"

text \<open>The readers of the counters.\<close>

definition GetAddressesFetched :: "reporter \<Rightarrow> u32" where "GetAddressesFetched r = addressesFetched r"
definition GetAddressesScheduled :: "reporter \<Rightarrow> u32" where "GetAddressesScheduled r = addressesScheduled r"
definition GetTxFetched :: "reporter \<Rightarrow> u32" where "GetTxFetched r = txFetched r"
definition GetTxScheduled :: "reporter \<Rightarrow> u32" where "GetTxScheduled r = txScheduled r"
definition GetTxAfterFilter :: "reporter \<Rightarrow> u32" where "GetTxAfterFilter r = txAfterFilter r"
definition GetPeers :: "reporter \<Rightarrow> u32" where "GetPeers r = peers r"

definition Log :: "reporter \<Rightarrow> string \<Rightarrow> string \<times> fmt_arg list" where
  "Log r msg = (''%d/%d %d/%d/%d %d: %s'',
     [Num (uint (GetAddressesScheduled r)), Num (uint (GetAddressesFetched r)), Num (uint (GetTxScheduled r)),
      Num (uint (GetTxFetched r)), Num (sint (GetTxAfterFilter r)), Num (sint (GetPeers r)), Str msg])"

text \<open>\<open>Sprintf\<close> is the formatting of the package \<^verbatim>\<open>fmt\<close>.\<close>

definition Logf :: "(string \<Rightarrow> fmt_arg list \<Rightarrow> string) \<Rightarrow> reporter \<Rightarrow> string \<Rightarrow> fmt_arg list \<Rightarrow> string \<times> fmt_arg list" where
  "Logf Sprintf r fmt args = Log r (Sprintf fmt args)"

definition IncAddressesFetched :: "reporter \<Rightarrow> reporter" where
  "IncAddressesFetched r = r\<lparr>addressesFetched := addressesFetched r + 1\<rparr>"

definition SetAddressesFetched :: "u32 \<Rightarrow> reporter \<Rightarrow> reporter" where
  "SetAddressesFetched n r = r\<lparr>addressesFetched := n\<rparr>"

definition IncAddressesScheduled :: "reporter \<Rightarrow> reporter" where
  "IncAddressesScheduled r = r\<lparr>addressesScheduled := addressesScheduled r + 1\<rparr>"

definition SetddressesScheduled :: "u32 \<Rightarrow> reporter \<Rightarrow> reporter" where
  "SetddressesScheduled n r = r\<lparr>addressesScheduled := n\<rparr>"

definition IncTxFetched :: "reporter \<Rightarrow> reporter" where
  "IncTxFetched r = r\<lparr>txFetched := txFetched r + 1\<rparr>"

definition SetTxFetched :: "u32 \<Rightarrow> reporter \<Rightarrow> reporter" where
  "SetTxFetched n r = r\<lparr>txFetched := n\<rparr>"

definition IncTxScheduled :: "reporter \<Rightarrow> reporter" where
  "IncTxScheduled r = r\<lparr>txScheduled := txScheduled r + 1\<rparr>"

definition SetTxScheduled :: "u32 \<Rightarrow> reporter \<Rightarrow> reporter" where
  "SetTxScheduled n r = r\<lparr>txScheduled := n\<rparr>"

definition IncTxAfterFilter :: "reporter \<Rightarrow> reporter" where
  "IncTxAfterFilter r = r\<lparr>txAfterFilter := txAfterFilter r + 1\<rparr>"

definition SetTxAfterFilter :: "u32 \<Rightarrow> reporter \<Rightarrow> reporter" where
  "SetTxAfterFilter n r = r\<lparr>txAfterFilter := n\<rparr>"

definition IncPeers :: "reporter \<Rightarrow> reporter" where
  "IncPeers r = r\<lparr>peers := peers r + 1\<rparr>"

definition SetPeers :: "u32 \<Rightarrow> reporter \<Rightarrow> reporter" where
  "SetPeers n r = r\<lparr>peers := n\<rparr>"

lemmas reporter_defs =
  IncAddressesFetched_def SetAddressesFetched_def IncAddressesScheduled_def SetddressesScheduled_def
  IncTxFetched_def SetTxFetched_def IncTxScheduled_def SetTxScheduled_def IncTxAfterFilter_def
  SetTxAfterFilter_def IncPeers_def SetPeers_def GetAddressesFetched_def GetAddressesScheduled_def
  GetTxFetched_def GetTxScheduled_def GetTxAfterFilter_def GetPeers_def

end
