(* ===== verification/Backend.thy ===== *)
theory Backend
  imports Deriver Reporter
begin

text \<open>
  \<^verbatim>\<open>backend/backend.go\<close> and \<^verbatim>\<open>backend/common.go\<close>: the three kinds of response a backend sends, the
  records of a fixture file with the orders it is sorted by, and the contract of the \<^verbatim>\<open>Backend\<close>
  interface as the locale \<open>backend_contract\<close>.  A \<^verbatim>\<open>time.Time\<close> is the number of seconds since the
  epoch that its method \<^verbatim>\<open>Unix\<close> returns.
\<close>

section \<open>Responses\<close>

type_synonym go_time = int

record AddrResponse =
  ar_Address :: Address
  ar_TxHashes :: "string list"

record TxResponse =
  tr_Hash :: string
  tr_Height :: u64
  tr_Hex :: string

record BlockResponse =
  br_Height :: u32
  br_Timestamp :: go_time

definition HasTransactions :: "AddrResponse \<Rightarrow> bool" where
  "HasTransactions r \<longleftrightarrow> length (ar_TxHashes r) > 0"

lemma HasTransactions_iff: "HasTransactions r \<longleftrightarrow> ar_TxHashes r \<noteq> []"
  by (simp add: HasTransactions_def)

text \<open>A request, as a worker of a backend has it in hand.\<close>

datatype job = JAddr Address | JTx string | JBlock u32

section \<open>The records of a fixture file\<close>

record json_address =
  j_Address :: string
  j_Path :: string
  j_Network :: network
  j_Change :: u32
  j_AddressIndex :: u32
  j_TxHashes :: "string list"

record json_transaction =
  jt_Hash :: string
  jt_Height :: u64
  jt_Hex :: string

record json_block =
  jb_Height :: u32
  jb_Timestamp :: go_time

record json_index =
  ji_Height :: u32  \<comment> \<open>the field of \<^verbatim>\<open>metadata\<close>\<close>
  ji_Addresses :: "json_address list"
  ji_Transactions :: "json_transaction list"
  ji_Blocks :: "json_block list"

definition byAddress_Less :: "json_address \<Rightarrow> json_address \<Rightarrow> bool" where
  "byAddress_Less a b \<longleftrightarrow> j_Address a < j_Address b"

definition byTransactionID_Less :: "json_transaction \<Rightarrow> json_transaction \<Rightarrow> bool" where
  "byTransactionID_Less a b \<longleftrightarrow> jt_Hash a < jt_Hash b"

interpretation address_sort: sort_interface byAddress_Less j_Address
  by unfold_locales (simp add: byAddress_Less_def)

interpretation transaction_sort: sort_interface byTransactionID_Less jt_Hash
  by unfold_locales (simp add: byTransactionID_Less_def)

section \<open>The contract of a backend\<close>

text \<open>
  What the accounter relies on, for a backend whose state is of type \<open>'b\<close>.  \<open>work\<close> is a step of
  the backend's own goroutines; the other relations are a channel operation of the client that
  went through.  Every request is answered exactly once, by the answer that belongs to it, and in
  no particular order: \<open>addr_owed\<close> and \<open>tx_owed\<close> are the answers not delivered yet.
  \<open>tx_answer\<close> is \<open>None\<close> for a hash the backend silently drops.
\<close>

locale backend_contract =
  fixes work :: "'b \<Rightarrow> 'b \<Rightarrow> bool"
    and addr_send :: "Address \<Rightarrow> 'b \<Rightarrow> 'b \<Rightarrow> bool"
    and addr_recv :: "'b \<Rightarrow> AddrResponse \<Rightarrow> 'b \<Rightarrow> bool"
    and tx_send :: "string \<Rightarrow> 'b \<Rightarrow> 'b \<Rightarrow> bool"
    and tx_recv :: "'b \<Rightarrow> TxResponse \<Rightarrow> 'b \<Rightarrow> bool"
    and addr_owed :: "'b \<Rightarrow> AddrResponse multiset"
    and tx_owed :: "'b \<Rightarrow> TxResponse multiset"
    and addr_answer :: "Address \<Rightarrow> AddrResponse"
    and tx_answer :: "string \<Rightarrow> TxResponse option"
    and binv :: "'b \<Rightarrow> bool"
  assumes work_owed: "binv b \<Longrightarrow> work b b' \<Longrightarrow>
        binv b' \<and> addr_owed b' = addr_owed b \<and> tx_owed b' = tx_owed b"
    and addr_send_owed: "binv b \<Longrightarrow> addr_send a b b' \<Longrightarrow>
        binv b' \<and> addr_owed b' = add_mset (addr_answer a) (addr_owed b) \<and> tx_owed b' = tx_owed b"
    and addr_recv_owed: "binv b \<Longrightarrow> addr_recv b r b' \<Longrightarrow>
        binv b' \<and> addr_owed b = add_mset r (addr_owed b') \<and> tx_owed b' = tx_owed b"
    and tx_send_owed: "binv b \<Longrightarrow> tx_send h b b' \<Longrightarrow>
        binv b' \<and> addr_owed b' = addr_owed b \<and>
        tx_owed b' = (case tx_answer h of None \<Rightarrow> tx_owed b | Some t \<Rightarrow> add_mset t (tx_owed b))"
    and tx_recv_owed: "binv b \<Longrightarrow> tx_recv b t b' \<Longrightarrow>
        binv b' \<and> addr_owed b' = addr_owed b \<and> tx_owed b = add_mset t (tx_owed b')"
    and tx_answer_hash: "tx_answer h = Some t \<Longrightarrow> tr_Hash t = h"

section \<open>What a client of a backend sees\<close>

text \<open>
  The use of a backend that was in state \<open>b0\<close>: the addresses and the hashes that were asked for, the
  responses that were received, and the state now.
\<close>

inductive client_run ::
    "('b \<Rightarrow> 'b \<Rightarrow> bool) \<Rightarrow> (Address \<Rightarrow> 'b \<Rightarrow> 'b \<Rightarrow> bool) \<Rightarrow> ('b \<Rightarrow> AddrResponse \<Rightarrow> 'b \<Rightarrow> bool)
      \<Rightarrow> (string \<Rightarrow> 'b \<Rightarrow> 'b \<Rightarrow> bool) \<Rightarrow> ('b \<Rightarrow> TxResponse \<Rightarrow> 'b \<Rightarrow> bool) \<Rightarrow> 'b
      \<Rightarrow> Address list \<Rightarrow> AddrResponse list \<Rightarrow> string list \<Rightarrow> TxResponse list \<Rightarrow> 'b \<Rightarrow> bool"
  for work addr_send addr_recv tx_send tx_recv b0 where
  run_start: "client_run work addr_send addr_recv tx_send tx_recv b0 [] [] [] [] b0"
| run_work: "client_run work addr_send addr_recv tx_send tx_recv b0 as rs hs ts b \<Longrightarrow> work b b' \<Longrightarrow>
     client_run work addr_send addr_recv tx_send tx_recv b0 as rs hs ts b'"
| run_ask: "client_run work addr_send addr_recv tx_send tx_recv b0 as rs hs ts b \<Longrightarrow> addr_send a b b' \<Longrightarrow>
     client_run work addr_send addr_recv tx_send tx_recv b0 (a # as) rs hs ts b'"
| run_answer: "client_run work addr_send addr_recv tx_send tx_recv b0 as rs hs ts b \<Longrightarrow> addr_recv b r b' \<Longrightarrow>
     client_run work addr_send addr_recv tx_send tx_recv b0 as (r # rs) hs ts b'"
| run_ask_tx: "client_run work addr_send addr_recv tx_send tx_recv b0 as rs hs ts b \<Longrightarrow> tx_send h b b' \<Longrightarrow>
     client_run work addr_send addr_recv tx_send tx_recv b0 as rs (h # hs) ts b'"
| run_answer_tx: "client_run work addr_send addr_recv tx_send tx_recv b0 as rs hs ts b \<Longrightarrow> tx_recv b t b' \<Longrightarrow>
     client_run work addr_send addr_recv tx_send tx_recv b0 as rs hs (t # ts) b'"

context backend_contract
begin

text \<open>Every request is answered once or still owed, and nothing else is received.\<close>

lemma client_run_owed:
  assumes "client_run work addr_send addr_recv tx_send tx_recv b0 as rs hs ts b"
    and "binv b0" "addr_owed b0 = {#}" "tx_owed b0 = {#}"
  shows "binv b \<and> image_mset addr_answer (mset as) = mset rs + addr_owed b \<and>
    (\<Sum>h\<in>#mset hs. case tx_answer h of None \<Rightarrow> {#} | Some t \<Rightarrow> {#t#}) = mset ts + tx_owed b"
  using assms
proof (induction rule: client_run.induct)
  case run_start
  then show ?case by simp
next
  case (run_work as rs hs ts b b')
  then show ?case using work_owed [OF _ run_work(2)] by simp
next
  case (run_ask as rs hs ts b a b')
  then show ?case using addr_send_owed [OF _ run_ask(2)] by simp
next
  case (run_answer as rs hs ts b r b')
  then show ?case using addr_recv_owed [OF _ run_answer(2)] by simp
next
  case (run_ask_tx as rs hs ts b h b')
  then show ?case using tx_send_owed [OF _ run_ask_tx(2)] by (simp split: option.splits)
next
  case (run_answer_tx as rs hs ts b t b')
  then show ?case using tx_recv_owed [OF _ run_answer_tx(2)] by simp
qed

end

end
