(* ===== verification/Wire.thy ===== *)
theory Wire
  imports Txscript
begin

text \<open>
  The part of the vendored \<^verbatim>\<open>btcd/wire\<close>, \<^verbatim>\<open>chainhash\<close> and \<^verbatim>\<open>btcutil\<close> the accounter parses
  transactions with: the readers of \<^verbatim>\<open>common.go\<close>, \<^verbatim>\<open>BtcDecode\<close> and \<^verbatim>\<open>BtcEncode\<close> of \<^verbatim>\<open>msgtx.go\<close>, the
  printing of a hash and \<^verbatim>\<open>NewTxFromBytes\<close>.  An \<^verbatim>\<open>io.Reader\<close> over a byte slice is the list of the
  bytes left, an \<^verbatim>\<open>io.Writer\<close> over a buffer the list of the bytes written.  The pools of reusable
  buffers are not modelled: every slice is a value.
\<close>

section \<open>Readers\<close>

type_synonym 'a reader = "u8 list \<Rightarrow> ('a \<times> u8 list) fallible"

definition rret :: "'a \<Rightarrow> 'a reader" where
  "rret a r = Inr (a, r)"

definition rfail :: "go_error \<Rightarrow> 'a reader" where
  "rfail e r = Inl e"

definition rbind :: "'a reader \<Rightarrow> ('a \<Rightarrow> 'b reader) \<Rightarrow> 'b reader" where
  "rbind m f r = (case m r of Inl e \<Rightarrow> Inl e | Inr (a, r') \<Rightarrow> f a r')"

definition io_EOF :: go_error where
  "io_EOF = Errorf ''EOF'' []"

definition io_ErrUnexpectedEOF :: go_error where
  "io_ErrUnexpectedEOF = Errorf ''unexpected EOF'' []"

text \<open>\<^verbatim>\<open>io.ReadFull\<close> of a buffer of \<open>n\<close> bytes.\<close>

definition ReadFull :: "nat \<Rightarrow> u8 list reader" where
  "ReadFull n r =
     (if n \<le> length r then Inr (take n r, drop n r)
      else if r = [] then Inl io_EOF else Inl io_ErrUnexpectedEOF)"

fun le_nat :: "u8 list \<Rightarrow> nat" where
  "le_nat [] = 0"
| "le_nat (b # bs) = unat b + 256 * le_nat bs"

text \<open>\<^verbatim>\<open>Uint8\<close> to \<^verbatim>\<open>Uint64\<close> of \<^verbatim>\<open>binaryFreeList\<close> in little endian order, by the number of bytes.\<close>

definition read_uint :: "nat \<Rightarrow> 'a::len word reader" where
  "read_uint n = rbind (ReadFull n) (\<lambda>buf. rret (of_nat (le_nat buf)))"

definition messageError :: "string \<Rightarrow> string \<Rightarrow> fmt_arg list \<Rightarrow> go_error" where
  "messageError f desc args = Wrapf (Errorf desc args) f []"

definition errNonCanonicalVarInt :: "u64 \<Rightarrow> u8 \<Rightarrow> u64 \<Rightarrow> go_error" where
  "errNonCanonicalVarInt rv discriminant least =
     messageError ''ReadVarInt''
       ''non-canonical varint %x - discriminant %x must encode a value greater than %x''
       [Num (uint rv), Num (uint discriminant), Num (uint least)]"

definition ReadVarInt :: "u64 reader" where
  "ReadVarInt = rbind (read_uint 1 :: u8 reader) (\<lambda>discriminant.
     let canonical = (\<lambda>(rv :: u64) least.
           if rv < least then rfail (errNonCanonicalVarInt rv discriminant least) else rret rv)
     in if discriminant = 0xff then rbind (read_uint 8 :: u64 reader) (\<lambda>rv. canonical rv 0x100000000)
        else if discriminant = 0xfe then rbind (read_uint 4 :: u32 reader) (\<lambda>sv. canonical (ucast sv) 0x10000)
        else if discriminant = 0xfd then rbind (read_uint 2 :: 16 word reader) (\<lambda>sv. canonical (ucast sv) 0xfd)
        else rret (ucast discriminant))"

text \<open>A counted loop of reads that appends what each iteration read.\<close>

fun read_many :: "nat \<Rightarrow> 'a reader \<Rightarrow> 'a list reader" where
  "read_many 0 rd = rret []"
| "read_many (Suc n) rd = rbind rd (\<lambda>x. rbind (read_many n rd) (\<lambda>xs. rret (x # xs)))"

section \<open>Transactions\<close>

definition HashSize :: nat where "HashSize = 32"
definition MaxMessagePayload :: nat where "MaxMessagePayload = 1024 * 1024 * 32"
definition minTxInPayload :: nat where "minTxInPayload = 9 + HashSize"
definition maxTxInPerMessage :: nat where "maxTxInPerMessage = MaxMessagePayload div minTxInPayload + 1"
definition MinTxOutPayload :: nat where "MinTxOutPayload = 9"
definition maxTxOutPerMessage :: nat where "maxTxOutPerMessage = MaxMessagePayload div MinTxOutPayload + 1"
definition maxWitnessItemsPerInput :: nat where "maxWitnessItemsPerInput = 500000"
definition maxWitnessItemSize :: nat where "maxWitnessItemSize = 11000"

lemma wire_limits:
  "MaxMessagePayload < 18446744073709551616" "maxTxInPerMessage < 18446744073709551616" "maxTxOutPerMessage < 18446744073709551616"
  "maxWitnessItemsPerInput < 18446744073709551616" "maxWitnessItemSize < 18446744073709551616"
  by code_simp+

datatype encoding = BaseEncoding | WitnessEncoding

record OutPoint =
  op_Hash :: "u8 list"  \<comment> \<open>an array of \<open>HashSize\<close> bytes\<close>
  op_Index :: u32

record TxIn =
  ti_PreviousOutPoint :: OutPoint
  ti_SignatureScript :: "u8 list"
  ti_Witness :: "u8 list list"
  ti_Sequence :: u32

record TxOut =
  to_Value :: u64
  to_PkScript :: "u8 list"

record MsgTx =
  tx_Version :: u32
  tx_TxIn :: "TxIn list"
  tx_TxOut :: "TxOut list"
  tx_LockTime :: u32

definition Hash_String :: "u8 list \<Rightarrow> string" where
  "Hash_String hash = hex_encode (rev hash)"

definition readOutPoint :: "OutPoint reader" where
  "readOutPoint = rbind (ReadFull HashSize) (\<lambda>h. rbind (read_uint 4) (\<lambda>i.
     rret \<lparr>op_Hash = h, op_Index = i\<rparr>))"

definition readScript :: "nat \<Rightarrow> string \<Rightarrow> u8 list reader" where
  "readScript maxAllowed fieldName = rbind ReadVarInt (\<lambda>count.
     if unat count > maxAllowed then
       rfail (messageError ''readScript'' ''%s is larger than the max allowed size [count %d, max %d]''
         [Str fieldName, Num (uint count), Num (int maxAllowed)])
     else ReadFull (unat count))"

definition readTxIn :: "TxIn reader" where
  "readTxIn = rbind readOutPoint (\<lambda>op.
     rbind (readScript MaxMessagePayload ''transaction input signature script'') (\<lambda>s.
     rbind (read_uint 4) (\<lambda>q.
     rret \<lparr>ti_PreviousOutPoint = op, ti_SignatureScript = s, ti_Witness = [], ti_Sequence = q\<rparr>)))"

definition readTxOut :: "TxOut reader" where
  "readTxOut = rbind (read_uint 8) (\<lambda>v.
     rbind (readScript MaxMessagePayload ''transaction output public key script'') (\<lambda>s.
     rret \<lparr>to_Value = v, to_PkScript = s\<rparr>))"

definition readWitness :: "u8 list list reader" where
  "readWitness = rbind ReadVarInt (\<lambda>witCount.
     if unat witCount > maxWitnessItemsPerInput then
       rfail (messageError ''MsgTx.BtcDecode''
         ''too many witness items to fit into max message size [count %d, max %d]''
         [Num (uint witCount), Num (int maxWitnessItemsPerInput)])
     else read_many (unat witCount) (readScript maxWitnessItemSize ''script witness item''))"

text \<open>The loop over the inputs that reads the witness of each.\<close>

fun readWitnesses :: "TxIn list \<Rightarrow> TxIn list reader" where
  "readWitnesses [] = rret []"
| "readWitnesses (ti # tis) = rbind readWitness (\<lambda>w. rbind (readWitnesses tis) (\<lambda>tis'.
     rret (ti\<lparr>ti_Witness := w\<rparr> # tis')))"

text \<open>
  The count of the inputs and the flag byte, \<open>0\<close> when the transaction has no marker of witness data.
\<close>

definition readTxInCount :: "encoding \<Rightarrow> (u64 \<times> u8) reader" where
  "readTxInCount enc = rbind ReadVarInt (\<lambda>count.
     if count = 0 \<and> enc = WitnessEncoding then
       rbind (read_uint 1 :: u8 reader) (\<lambda>flag.
         if flag \<noteq> 0x01 then
           rfail (messageError ''MsgTx.BtcDecode'' ''witness tx but flag byte is %x'' [Num (uint flag)])
         else rbind ReadVarInt (\<lambda>count. rret (count, flag)))
     else rret (count, 0))"

definition BtcDecode :: "encoding \<Rightarrow> MsgTx reader" where
  "BtcDecode enc = rbind (read_uint 4) (\<lambda>version.
     rbind (readTxInCount enc) (\<lambda>(count, flag).
     if unat count > maxTxInPerMessage then
       rfail (messageError ''MsgTx.BtcDecode''
         ''too many input transactions to fit into max message size [count %d, max %d]''
         [Num (uint count), Num (int maxTxInPerMessage)])
     else rbind (read_many (unat count) readTxIn) (\<lambda>txIns.
     rbind ReadVarInt (\<lambda>count.
     if unat count > maxTxOutPerMessage then
       rfail (messageError ''MsgTx.BtcDecode''
         ''too many output transactions to fit into max message size [count %d, max %d]''
         [Num (uint count), Num (int maxTxOutPerMessage)])
     else rbind (read_many (unat count) readTxOut) (\<lambda>txOuts.
     rbind (if flag \<noteq> 0 \<and> enc = WitnessEncoding then readWitnesses txIns else rret txIns) (\<lambda>txIns.
     rbind (read_uint 4) (\<lambda>lockTime.
     rret \<lparr>tx_Version = version, tx_TxIn = txIns, tx_TxOut = txOuts, tx_LockTime = lockTime\<rparr>)))))))"

text \<open>Bytes after the transaction are left unread and not reported.\<close>

definition NewTxFromBytes :: "u8 list \<Rightarrow> MsgTx fallible" where
  "NewTxFromBytes serializedTx =
     (case BtcDecode WitnessEncoding serializedTx of Inl err \<Rightarrow> Inl err | Inr (msgTx, _) \<Rightarrow> Inr msgTx)"

section \<open>Writers\<close>

definition WriteVarInt :: "u64 \<Rightarrow> u8 list" where
  "WriteVarInt val =
     (if val < 0xfd then put_le 1 (unat val)
      else if val \<le> 0xffff then 0xfd # put_le 2 (unat val)
      else if val \<le> 0xffffffff then 0xfe # put_le 4 (unat val)
      else 0xff # put_le 8 (unat val))"

definition VarIntSerializeSize :: "u64 \<Rightarrow> nat" where
  "VarIntSerializeSize val =
     (if val < 0xfd then 1 else if val \<le> 0xffff then 3 else if val \<le> 0xffffffff then 5 else 9)"

definition WriteVarBytes :: "u8 list \<Rightarrow> u8 list" where
  "WriteVarBytes bytes = WriteVarInt (of_nat (length bytes)) @ bytes"

definition writeOutPoint :: "OutPoint \<Rightarrow> u8 list" where
  "writeOutPoint op = op_Hash op @ put_le 4 (unat (op_Index op))"

definition writeTxIn :: "TxIn \<Rightarrow> u8 list" where
  "writeTxIn ti = writeOutPoint (ti_PreviousOutPoint ti) @ WriteVarBytes (ti_SignatureScript ti)
     @ put_le 4 (unat (ti_Sequence ti))"

definition WriteTxOut :: "TxOut \<Rightarrow> u8 list" where
  "WriteTxOut to = put_le 8 (unat (to_Value to)) @ WriteVarBytes (to_PkScript to)"

definition writeTxWitness :: "u8 list list \<Rightarrow> u8 list" where
  "writeTxWitness wit = WriteVarInt (of_nat (length wit)) @ concat (map WriteVarBytes wit)"

definition HasWitness :: "MsgTx \<Rightarrow> bool" where
  "HasWitness msg = list_ex (\<lambda>txIn. length (ti_Witness txIn) \<noteq> 0) (tx_TxIn msg)"

definition BtcEncode :: "encoding \<Rightarrow> MsgTx \<Rightarrow> u8 list" where
  "BtcEncode enc msg =
     (let doWitness = (enc = WitnessEncoding \<and> HasWitness msg) in
      put_le 4 (unat (tx_Version msg))
      @ (if doWitness then [0x00, 0x01] else [])
      @ WriteVarInt (of_nat (length (tx_TxIn msg))) @ concat (map writeTxIn (tx_TxIn msg))
      @ WriteVarInt (of_nat (length (tx_TxOut msg))) @ concat (map WriteTxOut (tx_TxOut msg))
      @ (if doWitness then concat (map (\<lambda>ti. writeTxWitness (ti_Witness ti)) (tx_TxIn msg)) else [])
      @ put_le 4 (unat (tx_LockTime msg)))"

lemma rret_eq [simp]: "rret a r = Inr (a, r)"
  by (simp add: rret_def)

lemma ReadFull_append: "length w = n \<Longrightarrow> ReadFull n (w @ r) = Inr (w, r)"
  by (auto simp: ReadFull_def)

lemma length_put_le [simp]: "length (put_le n v) = n"
  by (induction n arbitrary: v) auto

lemma le_nat_put_le: "le_nat (put_le n v) = v mod 256 ^ n"
proof (induction n arbitrary: v)
  case 0
  then show ?case by simp
next
  case (Suc n)
  have "unat (of_nat (v mod 256) :: u8) = v mod 256" by (simp add: unat_of_nat)
  then show ?case using Suc by (simp add: mod_mult2_eq)
qed

section \<open>Reading undoes writing\<close>

text \<open>
  A reader and the writer it undoes on the values \<open>ok\<close> admits: what follows the encoding is left
  unread.  The encoding is then injective and prefix free, and a counted loop undoes the
  concatenation of the elements' encodings.
\<close>

locale wire_codec =
  fixes rd :: "'a reader" and wr :: "'a \<Rightarrow> u8 list" and ok :: "'a \<Rightarrow> bool"
  assumes rd_wr: "ok x \<Longrightarrow> rd (wr x @ r) = Inr (x, r)"
begin

lemma rd_step: "ok x \<Longrightarrow> rbind rd f (wr x @ r) = f x r"
  by (simp add: rbind_def rd_wr)

lemma prefix_free: "ok x \<Longrightarrow> ok y \<Longrightarrow> wr x @ r = wr y @ s \<Longrightarrow> x = y \<and> r = s"
  by (metis rd_wr Inr_inject prod.inject)

lemma many: "list_all ok xs \<Longrightarrow> read_many (length xs) rd (concat (map wr xs) @ r) = Inr (xs, r)"
proof (induction xs arbitrary: r)
  case Nil
  then show ?case by simp
next
  case (Cons x xs)
  from Cons.prems have x: "ok x" and xs: "list_all ok xs" by simp_all
  show ?case using Cons.IH [OF xs] rd_wr [OF x] by (simp add: rbind_def)
qed

lemma many_step:
  "list_all ok xs \<Longrightarrow> rbind (read_many (length xs) rd) f (concat (map wr xs) @ r) = f xs r"
  by (simp add: rbind_def many)

end

lemma read_uint_append:
  assumes "LENGTH('a::len) = 8 * n"
  shows "read_uint n (put_le n (unat w) @ r) = Inr (w :: 'a word, r)"
proof -
  have "unat w < 2 ^ LENGTH('a)" by (rule unsigned_less)
  also have "(2 :: nat) ^ LENGTH('a) = 256 ^ n"
    using power_mult [of "2 :: nat" 8 n] by (simp add: assms)
  finally have "unat w < 256 ^ n" .
  then show ?thesis
    by (simp add: read_uint_def rbind_def ReadFull_append le_nat_put_le)
qed

interpretation uint8_codec: wire_codec "read_uint 1 :: u8 reader" "\<lambda>w. put_le 1 (unat w)" "\<lambda>_. True"
  by unfold_locales (rule read_uint_append, simp)

interpretation uint16_codec: wire_codec "read_uint 2 :: 16 word reader" "\<lambda>w. put_le 2 (unat w)" "\<lambda>_. True"
  by unfold_locales (rule read_uint_append, simp)

interpretation uint32_codec: wire_codec "read_uint 4 :: u32 reader" "\<lambda>w. put_le 4 (unat w)" "\<lambda>_. True"
  by unfold_locales (rule read_uint_append, simp)

interpretation uint64_codec: wire_codec "read_uint 8 :: u64 reader" "\<lambda>w. put_le 8 (unat w)" "\<lambda>_. True"
  by unfold_locales (rule read_uint_append, simp)

lemma put_le_byte: "put_le (Suc 0) (unat b) = [b]"
proof -
  have "unat b < 256" using unsigned_less [of b] by simp
  then show ?thesis by simp
qed

lemma uint8_byte: "rbind (read_uint (Suc 0) :: u8 reader) f (b # r) = f b r"
  using uint8_codec.rd_wr [of b r] by (simp add: rbind_def put_le_byte del: put_le.simps)

lemma ucast_down_up:
  fixes v :: u64
  assumes "unat v < 2 ^ LENGTH('b::len)" and "LENGTH('b) \<le> 64"
  shows "(ucast (ucast v :: 'b word) :: u64) = v" and "unat (ucast v :: 'b word) = unat v"
proof -
  have "unat (ucast v :: 'b word) = take_bit LENGTH('b) (unat v)" by (rule unsigned_ucast_eq)
  also have "\<dots> = unat v" using assms(1) by (rule take_bit_nat_eq_self)
  finally show u: "unat (ucast v :: 'b word) = unat v" .
  have "unat (ucast (ucast v :: 'b word) :: u64) = take_bit LENGTH(64) (unat (ucast v :: 'b word))"
    by (rule unsigned_ucast_eq)
  also have "\<dots> = unat v"
    unfolding u using unsigned_less [of v] by (intro take_bit_nat_eq_self) simp
  finally show "(ucast (ucast v :: 'b word) :: u64) = v" by (simp add: word_unat_eq_iff)
qed

lemma WriteVarInt_byte:
  assumes "v < 0xfd"
  shows "WriteVarInt v = [ucast v] \<and> (ucast v :: u8) < 0xfd \<and> ucast (ucast v :: u8) = v"
proof -
  have n: "unat v < 0xfd" using assms by (simp add: word_less_nat_alt)
  note c = ucast_down_up [where 'b = 8, of v]
  have "put_le 1 (unat v) = [ucast v]"
    using n by (simp add: word_unat_eq_iff c unat_of_nat)
  then show ?thesis using n c assms by (simp add: WriteVarInt_def word_less_nat_alt)
qed

interpretation varint_codec: wire_codec ReadVarInt WriteVarInt "\<lambda>_. True"
proof
  fix v :: u64 and r
  consider "v < 0xfd" | "\<not> v < 0xfd" "v \<le> 0xffff" | "\<not> v < 0xfd" "\<not> v \<le> 0xffff" "v \<le> 0xffffffff"
    | "\<not> v < 0xfd" "\<not> v \<le> 0xffff" "\<not> v \<le> 0xffffffff" by blast
  then show "ReadVarInt (WriteVarInt v @ r) = Inr (v, r)"
  proof cases
    case 1
    then have "(ucast v :: u8) \<noteq> 0xff" "(ucast v :: u8) \<noteq> 0xfe" "(ucast v :: u8) \<noteq> 0xfd"
      using WriteVarInt_byte [of v] by auto
    then show ?thesis
      using WriteVarInt_byte [OF 1] by (simp add: ReadVarInt_def uint8_byte Let_def)
  next
    case 2
    then have n: "unat v < 2 ^ LENGTH(16)" by (simp add: word_le_nat_alt)
    show ?thesis
      using 2 ucast_down_up [OF n] uint16_codec.rd_wr [of "ucast v" r]
      by (simp add: WriteVarInt_def ReadVarInt_def uint8_byte Let_def rbind_def [of "read_uint 2"] del: put_le.simps)
  next
    case 3
    then have n: "unat v < 2 ^ LENGTH(32)" by (simp add: word_le_nat_alt)
    have "\<not> v < 0x10000" using 3 by (simp add: word_le_nat_alt word_less_nat_alt)
    then show ?thesis
      using 3 ucast_down_up [OF n] uint32_codec.rd_wr [of "ucast v" r]
      by (simp add: WriteVarInt_def ReadVarInt_def uint8_byte Let_def rbind_def [of "read_uint 4"])
  next
    case 4
    have "\<not> v < 0x100000000" using 4 by (simp add: word_le_nat_alt word_less_nat_alt)
    then show ?thesis
      using 4 uint64_codec.rd_wr [of v r]
      by (simp add: WriteVarInt_def ReadVarInt_def uint8_byte Let_def rbind_def [of "read_uint 8"])
  qed
qed

lemma varint_length:
  assumes "n \<le> k" and "k < 2 ^ 64"
  shows "unat (of_nat n :: u64) = n"
  using assms by (simp add: unat_of_nat)

lemma readScript_append:
  assumes "length s \<le> k" and "k < 2 ^ 64"
  shows "readScript k f (WriteVarBytes s @ r) = Inr (s, r)"
  using assms(1)
  by (simp add: readScript_def WriteVarBytes_def varint_codec.rd_step varint_length [OF assms]
      ReadFull_append not_less [symmetric])

text \<open>The transactions that fit the limits of the decoder.\<close>

definition wf_txin :: "TxIn \<Rightarrow> bool" where
  "wf_txin ti \<longleftrightarrow> length (op_Hash (ti_PreviousOutPoint ti)) = HashSize \<and>
     length (ti_SignatureScript ti) \<le> MaxMessagePayload"

definition wf_witness :: "u8 list list \<Rightarrow> bool" where
  "wf_witness w \<longleftrightarrow> length w \<le> maxWitnessItemsPerInput \<and> list_all (\<lambda>i. length i \<le> maxWitnessItemSize) w"

definition wf_txout :: "TxOut \<Rightarrow> bool" where
  "wf_txout to \<longleftrightarrow> length (to_PkScript to) \<le> MaxMessagePayload"

interpretation script_codec: wire_codec "readScript MaxMessagePayload f" WriteVarBytes "\<lambda>s. length s \<le> MaxMessagePayload" for f
  by unfold_locales (rule readScript_append, simp_all add: wire_limits)

interpretation item_codec: wire_codec "readScript maxWitnessItemSize f" WriteVarBytes "\<lambda>s. length s \<le> maxWitnessItemSize" for f
  by unfold_locales (rule readScript_append, simp_all add: wire_limits)

interpretation outpoint_codec: wire_codec readOutPoint writeOutPoint "\<lambda>op. length (op_Hash op) = HashSize"
  by unfold_locales (simp add: readOutPoint_def writeOutPoint_def rbind_def ReadFull_append uint32_codec.rd_wr)

interpretation txin_codec: wire_codec readTxIn writeTxIn "\<lambda>ti. wf_txin ti \<and> ti_Witness ti = []"
  by unfold_locales
    (simp add: readTxIn_def writeTxIn_def wf_txin_def outpoint_codec.rd_step script_codec.rd_step
      uint32_codec.rd_step)

interpretation txout_codec: wire_codec readTxOut WriteTxOut wf_txout
  by unfold_locales
    (simp add: readTxOut_def WriteTxOut_def wf_txout_def uint64_codec.rd_step script_codec.rd_step)

interpretation witness_codec: wire_codec readWitness writeTxWitness wf_witness
proof
  fix w r
  assume w: "wf_witness w"
  then have n: "unat (of_nat (length w) :: u64) = length w"
    by (intro varint_length [of _ maxWitnessItemsPerInput]) (simp_all add: wf_witness_def wire_limits)
  show "readWitness (writeTxWitness w @ r) = Inr (w, r)"
    using w by (simp add: readWitness_def writeTxWitness_def varint_codec.rd_step n wf_witness_def item_codec.many)
qed

definition strip_witness :: "TxIn \<Rightarrow> TxIn" where
  "strip_witness ti = ti\<lparr>ti_Witness := []\<rparr>"

lemma writeTxIn_strip: "writeTxIn (strip_witness ti) = writeTxIn ti"
  by (simp add: writeTxIn_def strip_witness_def)

lemma strip_witness_simps [simp]: "ti_Witness (strip_witness ti) = []" "wf_txin (strip_witness ti) = wf_txin ti"
  "ti_Witness ti = [] \<Longrightarrow> strip_witness ti = ti"
  by (simp_all add: strip_witness_def wf_txin_def)

lemma read_txins:
  assumes "list_all wf_txin tis"
  shows "read_many (length tis) readTxIn (concat (map writeTxIn tis) @ r) = Inr (map strip_witness tis, r)"
  using txin_codec.many [of "map strip_witness tis" r] assms
  by (simp add: comp_def writeTxIn_strip list_all_iff)

lemma read_witnesses:
  assumes "list_all (\<lambda>ti. wf_witness (ti_Witness ti)) tis"
  shows "readWitnesses (map strip_witness tis) (concat (map (\<lambda>ti. writeTxWitness (ti_Witness ti)) tis) @ r)
    = Inr (tis, r)"
  using assms
proof (induction tis arbitrary: r)
  case Nil
  then show ?case by simp
next
  case (Cons ti tis)
  then have w: "wf_witness (ti_Witness ti)" and ws: "list_all (\<lambda>ti. wf_witness (ti_Witness ti)) tis" by simp_all
  show ?case
    using Cons.IH [OF ws, of r]
    by (simp add: witness_codec.rd_step [OF w] rbind_def [of "readWitnesses _"]) (simp add: strip_witness_def)
qed

definition wf_tx :: "MsgTx \<Rightarrow> bool" where
  "wf_tx msg \<longleftrightarrow> list_all wf_txin (tx_TxIn msg) \<and> list_all (\<lambda>ti. wf_witness (ti_Witness ti)) (tx_TxIn msg)
     \<and> list_all wf_txout (tx_TxOut msg)
     \<and> tx_TxIn msg \<noteq> [] \<and> length (tx_TxIn msg) \<le> maxTxInPerMessage \<and> length (tx_TxOut msg) \<le> maxTxOutPerMessage"

text \<open>What the decoder returns: the base encoding drops the witnesses.\<close>

definition transmitted :: "encoding \<Rightarrow> MsgTx \<Rightarrow> MsgTx" where
  "transmitted enc msg = (if enc = WitnessEncoding then msg else msg\<lparr>tx_TxIn := map strip_witness (tx_TxIn msg)\<rparr>)"

lemma strip_no_witness: "\<not> HasWitness msg \<Longrightarrow> map strip_witness (tx_TxIn msg) = tx_TxIn msg"
  by (simp add: HasWitness_def list_ex_iff map_idI)

lemma read_count:
  assumes "tx_TxIn msg \<noteq> []" and "length (tx_TxIn msg) \<le> maxTxInPerMessage"
  shows "rbind (readTxInCount enc) f ((if enc = WitnessEncoding \<and> HasWitness msg then [0x00, 0x01] else [])
      @ WriteVarInt (of_nat (length (tx_TxIn msg))) @ r)
    = f (of_nat (length (tx_TxIn msg)), if enc = WitnessEncoding \<and> HasWitness msg then 1 else 0) r"
proof -
  have n: "unat (of_nat (length (tx_TxIn msg)) :: u64) = length (tx_TxIn msg)"
    using assms by (intro varint_length [of _ maxTxInPerMessage]) (simp_all add: wire_limits)
  then have nz: "(of_nat (length (tx_TxIn msg)) :: u64) \<noteq> 0" using assms(1) by auto
  have z: "WriteVarInt 0 = [0]" by (simp add: WriteVarInt_def)
  have marker: "rbind ReadVarInt f (0x00 # r) = f 0 r" for f :: "u64 \<Rightarrow> (u64 \<times> u8) reader" and r
    using varint_codec.rd_wr [of 0 r] by (simp add: z rbind_def)
  have "readTxInCount enc ((if enc = WitnessEncoding \<and> HasWitness msg then [0x00, 0x01] else [])
      @ WriteVarInt (of_nat (length (tx_TxIn msg))) @ r)
    = Inr ((of_nat (length (tx_TxIn msg)), if enc = WitnessEncoding \<and> HasWitness msg then 1 else 0), r)"
    using nz by (auto simp: readTxInCount_def varint_codec.rd_step marker uint8_byte)
  then show ?thesis by (simp add: rbind_def [of "readTxInCount _"])
qed

lemma BtcDecode_BtcEncode:
  assumes "wf_tx msg"
  shows "BtcDecode enc (BtcEncode enc msg @ r) = Inr (transmitted enc msg, r)"
proof -
  from assms have ins: "list_all wf_txin (tx_TxIn msg)" and wit: "list_all (\<lambda>ti. wf_witness (ti_Witness ti)) (tx_TxIn msg)"
    and outs: "list_all wf_txout (tx_TxOut msg)" and ne: "tx_TxIn msg \<noteq> []"
    and li: "length (tx_TxIn msg) \<le> maxTxInPerMessage" and lo: "length (tx_TxOut msg) \<le> maxTxOutPerMessage"
    unfolding wf_tx_def by blast+
  have ni: "unat (of_nat (length (tx_TxIn msg)) :: u64) = length (tx_TxIn msg)"
    using li by (intro varint_length [of _ maxTxInPerMessage]) (simp_all add: wire_limits)
  have no: "unat (of_nat (length (tx_TxOut msg)) :: u64) = length (tx_TxOut msg)"
    using lo by (intro varint_length [of _ maxTxOutPerMessage]) (simp_all add: wire_limits)
  note steps = uint32_codec.rd_step rbind_def [of "read_many _ readTxIn"]
    varint_codec.rd_step txout_codec.many_step [OF outs] read_txins [OF ins] ni no
  show ?thesis
  proof (cases "enc = WitnessEncoding \<and> HasWitness msg")
    case True
    have rc: "rbind (readTxInCount enc) f (0x00 # 0x01 # WriteVarInt (of_nat (length (tx_TxIn msg))) @ r)
        = f (of_nat (length (tx_TxIn msg)), 1) r" for f :: "u64 \<times> u8 \<Rightarrow> MsgTx reader" and r
      using read_count [OF ne li, of enc f r] True by simp
    show ?thesis
      using True li lo
      by (simp add: BtcDecode_def BtcEncode_def steps rc [unfolded conjunct1 [OF True]] rbind_def [of "readWitnesses _"] read_witnesses [OF wit]
          transmitted_def del: One_nat_def)
  next
    case False
    have rc: "rbind (readTxInCount enc) f (WriteVarInt (of_nat (length (tx_TxIn msg))) @ r)
        = f (of_nat (length (tx_TxIn msg)), 0) r" for f :: "u64 \<times> u8 \<Rightarrow> MsgTx reader" and r
      using read_count [OF ne li, of enc f r] by (simp only: if_not_P [OF False] append_Nil)
    show ?thesis
    proof (cases enc)
      case BaseEncoding
      show ?thesis
        using False li lo
        by (simp add: BaseEncoding BtcDecode_def BtcEncode_def steps rc [unfolded BaseEncoding]
            rbind_def [of "rret _"] transmitted_def)
    next
      case WitnessEncoding
      then have "\<not> HasWitness msg" using False by simp
      then show ?thesis
        using li lo strip_no_witness [of msg]
        by (simp add: WitnessEncoding BtcDecode_def BtcEncode_def steps rc [unfolded WitnessEncoding]
            rbind_def [of "rret _"] transmitted_def)
    qed
  qed
qed

section \<open>Properties\<close>

text \<open>
  C7: parsing a transaction undoes serialising it.  For every transaction with at least one input
  whose scripts and counts are within the limits of the decoder, in both encodings, decoding the
  encoded bytes returns the transaction (without its witnesses in the base encoding) and leaves
  the bytes that follow it unread.
\<close>

theorem transaction_roundtrip:
  assumes "wf_tx msg"
  shows "BtcDecode enc (BtcEncode enc msg @ rest) = Inr (transmitted enc msg, rest)"
  using assms by (rule BtcDecode_BtcEncode)

theorem transaction_roundtrip_witness:
  "let msg = \<lparr>tx_Version = 2,
       tx_TxIn = [\<lparr>ti_PreviousOutPoint = \<lparr>op_Hash = replicate 32 7, op_Index = 1\<rparr>,
         ti_SignatureScript = [1, 2], ti_Witness = [[3], []], ti_Sequence = 0xffffffff\<rparr>],
       tx_TxOut = [\<lparr>to_Value = 100000, to_PkScript = replicate 300 0x6a\<rparr>], tx_LockTime = 5\<rparr>
   in BtcDecode WitnessEncoding (BtcEncode WitnessEncoding msg @ [9]) = Inr (msg, [9])"
proof -
  let ?msg = "\<lparr>tx_Version = 2,
       tx_TxIn = [\<lparr>ti_PreviousOutPoint = \<lparr>op_Hash = replicate 32 7, op_Index = 1\<rparr>,
         ti_SignatureScript = [1, 2], ti_Witness = [[3], []], ti_Sequence = 0xffffffff\<rparr>],
       tx_TxOut = [\<lparr>to_Value = 100000, to_PkScript = replicate 300 0x6a\<rparr>], tx_LockTime = 5\<rparr>"
  have "wf_tx ?msg" by code_simp
  from transaction_roundtrip [OF this, of WitnessEncoding "[9]"] show ?thesis
    by (simp only: Let_def transmitted_def simp_thms if_True)
qed

end
