(* ===== verification/Accounter.thy ===== *)
theory Accounter
  imports Backend Wire
begin

text \<open>
  \<^verbatim>\<open>accounter/accounter.go\<close>: the accounter's state, the filter and the parse of
  \<^verbatim>\<open>processTransactions\<close>, the two passes of \<^verbatim>\<open>balance\<close>, and the bookkeeping steps of \<^verbatim>\<open>recvWork\<close>,
  \<^verbatim>\<open>sendWork\<close> and \<^verbatim>\<open>complete\<close>, which the theory \<open>Fetch\<close> composes into the concurrent program.
\<close>

section \<open>State\<close>

record acc_address =
  aa_path :: Address
  aa_txHashes :: "string list"

record vin =
  vi_prevHash :: string
  vi_index :: u32

text \<open>
  \<^verbatim>\<open>spentBy\<close> is a pointer.  The only pointer ever stored there is the address of the variable
  \<^verbatim>\<open>hash\<close> of the debit loop: in the language version of the module (\<^verbatim>\<open>go 1.12\<close>) a \<^verbatim>\<open>range\<close> loop has
  one variable for all its iterations, so the pointer reads what the variable holds when it is
  read, which \<open>deref\<close> takes as an argument.
\<close>

datatype string_ptr = AddressOfHash

fun deref :: "string \<Rightarrow> string_ptr \<Rightarrow> string" where
  "deref hash AddressOfHash = hash"

record vout =
  vo_value :: u64  \<comment> \<open>\<^verbatim>\<open>int64\<close>\<close>
  vo_address :: string
  vo_ours :: bool
  vo_spentBy :: "string_ptr option"

record transaction =
  at_height :: u64  \<comment> \<open>\<^verbatim>\<open>int64\<close>\<close>
  at_hex :: string
  at_vin :: "vin list"
  at_vout :: "vout list"

record accounter =
  ac_blockHeight :: u32
  ac_addresses :: "string \<rightharpoonup> acc_address"
  ac_transactions :: "string \<rightharpoonup> transaction"
  ac_deriver :: AddressDeriver
  ac_lookahead :: u32
  ac_lastAddresses :: "u32 list"  \<comment> \<open>an array of two\<close>
  ac_derivedAddrCount :: u32
  ac_processedAddrCount :: u32
  ac_seenTxCount :: u32
  ac_processedTxCount :: u32

definition New :: "AddressDeriver \<Rightarrow> u32 \<Rightarrow> u32 \<Rightarrow> accounter" where
  "New addressDeriver lookahead blockHeight =
     \<lparr>ac_blockHeight = blockHeight, ac_addresses = Map.empty, ac_transactions = Map.empty,
      ac_deriver = addressDeriver, ac_lookahead = lookahead, ac_lastAddresses = [lookahead, lookahead],
      ac_derivedAddrCount = 0, ac_processedAddrCount = 0, ac_seenTxCount = 0, ac_processedTxCount = 0\<rparr>"

section \<open>Filtering and parsing\<close>

definition filter_step :: "u32 \<Rightarrow> string \<Rightarrow> (string \<rightharpoonup> transaction) \<Rightarrow> (string \<rightharpoonup> transaction)" where
  "filter_step blockHeight hash txs =
     (case txs hash of
        None \<Rightarrow> txs
      | Some tx \<Rightarrow>
          let txs = (if sint (at_height tx) > uint blockHeight then txs(hash := None) else txs)
          in if sint (at_height tx) \<le> 0 then txs(hash := None) else txs)"

definition vin_of :: "TxIn \<Rightarrow> vin" where
  "vin_of txin = \<lparr>vi_prevHash = Hash_String (op_Hash (ti_PreviousOutPoint txin)),
     vi_index = op_Index (ti_PreviousOutPoint txin)\<rparr>"

definition vout_of :: "(string \<rightharpoonup> acc_address) \<Rightarrow> TxOut \<Rightarrow> vout" where
  "vout_of addresses txout =
     (let addr = hex_encode (to_PkScript txout) in
      \<lparr>vo_value = to_Value txout, vo_address = addr, vo_ours = (addresses addr \<noteq> None), vo_spentBy = None\<rparr>)"

text \<open>
  A transaction whose hex does not decode or whose bytes do not parse is reported on standard
  output and kept as it was.  An invalid character only ends the decoding: the bytes before it are
  still parsed.
\<close>

definition parse_transaction :: "(string \<rightharpoonup> acc_address) \<Rightarrow> transaction \<Rightarrow> transaction" where
  "parse_transaction addresses tx =
     (let (b, ok) = hex_decode (at_hex tx) in
      case NewTxFromBytes b of
        Inl err \<Rightarrow> tx
      | Inr parsedTx \<Rightarrow>
          tx\<lparr>at_vin := at_vin tx @ map vin_of (tx_TxIn parsedTx),
             at_vout := at_vout tx @ map (vout_of addresses) (tx_TxOut parsedTx)\<rparr>)"

definition parse_step ::
    "(string \<rightharpoonup> acc_address) \<Rightarrow> string \<Rightarrow> (string \<rightharpoonup> transaction) \<Rightarrow> (string \<rightharpoonup> transaction)" where
  "parse_step addresses hash txs =
     (case txs hash of None \<Rightarrow> txs | Some tx \<Rightarrow> txs(hash \<mapsto> parse_transaction addresses tx))"

text \<open>
  \<open>ks\<close> and \<open>ks'\<close> are the orders of the two loops; \<open>ks'\<close> lists what the first one left, so its length
  is \<^verbatim>\<open>len(a.transactions)\<close>.
\<close>

definition filterTransactions :: "string list \<Rightarrow> accounter \<Rightarrow> accounter" where
  "filterTransactions ks a =
     a\<lparr>ac_transactions := fold (filter_step (ac_blockHeight a)) ks (ac_transactions a)\<rparr>"

definition processTransactions ::
    "string list \<Rightarrow> string list \<Rightarrow> accounter \<times> reporter \<Rightarrow> accounter \<times> reporter" where
  "processTransactions ks ks' = (\<lambda>(a, rep).
     let a = filterTransactions ks a;
         rep = SetTxAfterFilter (of_nat (length ks')) rep
     in (a\<lparr>ac_transactions := fold (parse_step (ac_addresses a)) ks' (ac_transactions a)\<rparr>, rep))"

section \<open>The balance\<close>

definition credit_step :: "vout \<Rightarrow> u64 \<Rightarrow> u64" where
  "credit_step txout balance = (if vo_ours txout then balance + vo_value txout else balance)"

definition credits :: "string list \<Rightarrow> (string \<rightharpoonup> transaction) \<Rightarrow> u64" where
  "credits ks txs = fold (\<lambda>h balance. fold credit_step (at_vout (the (txs h))) balance) ks 0"

type_synonym debit_state = "u64 \<times> (string \<rightharpoonup> transaction)"

definition debit_input :: "string \<Rightarrow> vin \<Rightarrow> debit_state \<Rightarrow> debit_state result" where
  "debit_input hash txin = (\<lambda>(balance, txs).
     case txs (vi_prevHash txin) of
       None \<Rightarrow> Inr (balance, txs)
     | Some prev \<Rightarrow>
         if unat (vi_index txin) \<ge> length (at_vout prev) then Inl (Panic ''prev index > vouts'' [])
         else let out = at_vout prev ! unat (vi_index txin) in
           if vo_ours out then
             let balance = balance - vo_value out in
             case vo_spentBy out of
               Some p \<Rightarrow> Inl (Panic ''%s and %s, both spending %s''
                 [Str hash, Str (deref hash p), Str (vi_prevHash txin)])
             | None \<Rightarrow> Inr (balance, txs(vi_prevHash txin \<mapsto>
                 prev\<lparr>at_vout := (at_vout prev)[unat (vi_index txin) := out\<lparr>vo_spentBy := Some AddressOfHash\<rparr>]\<rparr>))
           else Inr (balance, txs))"

definition debit_transaction :: "string \<Rightarrow> debit_state \<Rightarrow> debit_state result" where
  "debit_transaction hash s = sfold (debit_input hash) (at_vin (the (snd s hash))) s"

definition balance :: "string list \<Rightarrow> string list \<Rightarrow> (string \<rightharpoonup> transaction) \<Rightarrow> u64 result" where
  "balance ks ks' txs =
     sbind (sfold debit_transaction ks' (credits ks txs, txs)) (\<lambda>(balance, _).
       if sint balance < 0 then Inl (Panic ''balance is negative'' []) else Inr balance)"

text \<open>What \<^verbatim>\<open>ComputeBalance\<close> does once everything is fetched.\<close>

definition tally ::
    "string list \<Rightarrow> string list \<Rightarrow> string list \<Rightarrow> string list \<Rightarrow> accounter \<times> reporter \<Rightarrow> u64 result" where
  "tally ks1 ks2 ks3 ks4 s = balance ks3 ks4 (ac_transactions (fst (processTransactions ks1 ks2 s)))"

section \<open>Bookkeeping while fetching\<close>

text \<open>
  \<^verbatim>\<open>sendWork\<close>: \<open>getLastAddress\<close> is the bound of its inner loop and \<open>count_derived\<close> the counter it
  increments before each request.
\<close>

definition getLastAddress :: "u32 \<Rightarrow> accounter \<Rightarrow> u32 result" where
  "getLastAddress change a = at_index (ac_lastAddresses a) (unat change)"

definition count_derived :: "accounter \<Rightarrow> accounter" where
  "count_derived a = a\<lparr>ac_derivedAddrCount := ac_derivedAddrCount a + 1\<rparr>"

text \<open>
  \<^verbatim>\<open>recvWork\<close> on a response for an address: the address is counted and filed under its script,
  then each transaction hash not known yet is requested and counted, and an address with
  transactions moves the last address to derive.
\<close>

definition file_address :: "('k, 'p) btc_lib \<Rightarrow> AddrResponse \<Rightarrow> accounter \<Rightarrow> accounter result" where
  "file_address lib resp a =
     (let a = a\<lparr>ac_processedAddrCount := ac_processedAddrCount a + 1\<rparr> in
      sbind (Address_Script lib (ar_Address resp)) (\<lambda>script.
        Inr (a\<lparr>ac_addresses := (ac_addresses a)(script \<mapsto>
                \<lparr>aa_path = ar_Address resp, aa_txHashes = ar_TxHashes resp\<rparr>)\<rparr>)))"

definition unseen :: "string \<Rightarrow> accounter \<Rightarrow> bool" where
  "unseen txHash a \<longleftrightarrow> ac_transactions a txHash = None"

definition count_seen :: "accounter \<Rightarrow> accounter" where
  "count_seen a = a\<lparr>ac_seenTxCount := ac_seenTxCount a + 1\<rparr>"

definition extend_lookahead :: "AddrResponse \<Rightarrow> accounter \<Rightarrow> accounter result" where
  "extend_lookahead resp a =
     (if HasTransactions resp then
        (let c = unat (Change (ar_Address resp)) in
         sbind (at_index (ac_lastAddresses a) c) (\<lambda>cur.
         sbind (set_index (ac_lastAddresses a) c (Max cur [Index (ar_Address resp) + ac_lookahead a])) (\<lambda>last.
         Inr (a\<lparr>ac_lastAddresses := last\<rparr>))))
      else Inr a)"

text \<open>\<^verbatim>\<open>recvWork\<close> on a response for a transaction.\<close>

definition file_transaction :: "TxResponse \<Rightarrow> accounter \<Rightarrow> accounter" where
  "file_transaction resp a =
     a\<lparr>ac_processedTxCount := ac_processedTxCount a + 1,
        ac_transactions := (ac_transactions a)(tr_Hash resp \<mapsto>
          \<lparr>at_height = tr_Height resp, at_hex = tr_Hex resp, at_vin = [], at_vout = []\<rparr>)\<rparr>"

definition complete :: "accounter \<Rightarrow> bool" where
  "complete a \<longleftrightarrow>
     (let indexes = ac_lastAddresses a ! 0 + ac_lastAddresses a ! 1;
          addrsDone = (ac_derivedAddrCount a = indexes \<and> ac_processedAddrCount a = indexes);
          txsDone = (ac_seenTxCount a = ac_processedTxCount a)
      in addrsDone \<and> txsDone)"

end
