(* ===== verification/Fixture.thy ===== *)
theory Fixture
  imports Backend
begin

text \<open>
  \<^verbatim>\<open>backend/fixture_backend.go\<close>: the backend that replays a recorded file.  The state holds the
  three indexes and the contents of the buffered channels; \<open>worker\<close> is the program counter of
  the goroutine \<^verbatim>\<open>processRequests\<close>, whose steps are the relation of that name.  The channels are
  never closed, so the two branches for a closed response channel are never taken.
\<close>

section \<open>State and construction\<close>

record fixture_backend =
  fb_addrIndex :: "string \<rightharpoonup> AddrResponse"
  fb_txIndex :: "string \<rightharpoonup> TxResponse"
  fb_blockIndex :: "u32 \<rightharpoonup> BlockResponse"
  fb_addrRequests :: "Address list"
  fb_addrResponses :: "AddrResponse list"
  fb_txRequests :: "string list"
  fb_txResponses :: "TxResponse list"
  fb_blockRequests :: "u32 list"
  fb_blockResponses :: "BlockResponse list"
  fb_transactions :: "string \<rightharpoonup> u64"
  fb_doneCh :: bool  \<comment> \<open>whether the channel has been closed\<close>
  fb_height :: u32

definition empty_fixture :: fixture_backend where
  "empty_fixture =
     \<lparr>fb_addrIndex = Map.empty, fb_txIndex = Map.empty, fb_blockIndex = Map.empty,
      fb_addrRequests = [], fb_addrResponses = [], fb_txRequests = [], fb_txResponses = [],
      fb_blockRequests = [], fb_blockResponses = [], fb_transactions = Map.empty,
      fb_doneCh = False, fb_height = 0\<rparr>"

definition load_address :: "json_address \<Rightarrow> fixture_backend \<Rightarrow> fixture_backend" where
  "load_address addr fb =
     (let a = \<lparr>ar_Address = NewAddress (j_Path addr) (j_Address addr) (j_Network addr) (j_Change addr)
                 (j_AddressIndex addr),
               ar_TxHashes = j_TxHashes addr\<rparr>
      in fb\<lparr>fb_addrIndex := (fb_addrIndex fb)(j_Address addr \<mapsto> a)\<rparr>)"

definition load_transaction :: "json_transaction \<Rightarrow> fixture_backend \<Rightarrow> fixture_backend" where
  "load_transaction tx fb =
     fb\<lparr>fb_txIndex := (fb_txIndex fb)(jt_Hash tx \<mapsto>
           \<lparr>tr_Hash = jt_Hash tx, tr_Height = jt_Height tx, tr_Hex = jt_Hex tx\<rparr>),
        fb_transactions := (fb_transactions fb)(jt_Hash tx \<mapsto> jt_Height tx)\<rparr>"

definition load_block :: "json_block \<Rightarrow> fixture_backend \<Rightarrow> fixture_backend" where
  "load_block b fb =
     fb\<lparr>fb_blockIndex := (fb_blockIndex fb)(jb_Height b \<mapsto>
           \<lparr>br_Height = jb_Height b, br_Timestamp = jb_Timestamp b\<rparr>)\<rparr>"

text \<open>\<^verbatim>\<open>cachedData\<close> is the outcome of reading the file and of \<^verbatim>\<open>json.Unmarshal\<close>.\<close>

definition loadFromFile :: "json_index fallible \<Rightarrow> fixture_backend \<Rightarrow> fixture_backend fallible" where
  "loadFromFile cachedData fb =
     sbind cachedData (\<lambda>d.
       let fb = fb\<lparr>fb_height := ji_Height d\<rparr>;
           fb = fold load_address (ji_Addresses d) fb;
           fb = fold load_transaction (ji_Transactions d) fb;
           fb = fold load_block (ji_Blocks d) fb
       in Inr fb)"

definition NewFixtureBackend ::
    "(string \<Rightarrow> unit fallible) \<Rightarrow> (string \<Rightarrow> json_index fallible) \<Rightarrow> string \<Rightarrow> fixture_backend fallible" where
  "NewFixtureBackend os_Open read_index filepath =
     (case os_Open filepath of
        Inl err \<Rightarrow> Inl (Wrapf err ''cannot open a fixture file'' [])
      | Inr _ \<Rightarrow>
          (case loadFromFile (read_index filepath) empty_fixture of
             Inl err \<Rightarrow> Inl (Wrapf err ''cannot load data from a fixture file'' [])
           | Inr cb \<Rightarrow> Inr cb))"

section \<open>The client side\<close>

text \<open>
  A send goes through when the buffer of the channel has room, a receive when it holds a value.
  Sending a request first counts it in the reporter.
\<close>

definition AddrRequest_report :: "reporter \<Rightarrow> reporter" where
  "AddrRequest_report = IncAddressesScheduled"

definition TxRequest_report :: "reporter \<Rightarrow> reporter" where
  "TxRequest_report = IncTxScheduled"

definition fixture_addr_send :: "Address \<Rightarrow> fixture_backend \<Rightarrow> fixture_backend option" where
  "fixture_addr_send addr fb =
     (if length (fb_addrRequests fb) < 10
      then Some (fb\<lparr>fb_addrRequests := fb_addrRequests fb @ [addr]\<rparr>) else None)"

definition fixture_tx_send :: "string \<Rightarrow> fixture_backend \<Rightarrow> fixture_backend option" where
  "fixture_tx_send txHash fb =
     (if length (fb_txRequests fb) < 1000
      then Some (fb\<lparr>fb_txRequests := fb_txRequests fb @ [txHash]\<rparr>) else None)"

definition fixture_block_send :: "u32 \<Rightarrow> fixture_backend \<Rightarrow> fixture_backend option" where
  "fixture_block_send height fb =
     (if length (fb_blockRequests fb) < 10
      then Some (fb\<lparr>fb_blockRequests := fb_blockRequests fb @ [height]\<rparr>) else None)"

definition fixture_addr_recv :: "fixture_backend \<Rightarrow> (AddrResponse \<times> fixture_backend) option" where
  "fixture_addr_recv fb =
     (case fb_addrResponses fb of [] \<Rightarrow> None | r # rs \<Rightarrow> Some (r, fb\<lparr>fb_addrResponses := rs\<rparr>))"

definition fixture_tx_recv :: "fixture_backend \<Rightarrow> (TxResponse \<times> fixture_backend) option" where
  "fixture_tx_recv fb =
     (case fb_txResponses fb of [] \<Rightarrow> None | r # rs \<Rightarrow> Some (r, fb\<lparr>fb_txResponses := rs\<rparr>))"

definition fixture_block_recv :: "fixture_backend \<Rightarrow> (BlockResponse \<times> fixture_backend) option" where
  "fixture_block_recv fb =
     (case fb_blockResponses fb of [] \<Rightarrow> None | r # rs \<Rightarrow> Some (r, fb\<lparr>fb_blockResponses := rs\<rparr>))"

definition fixture_Finish :: "fixture_backend \<Rightarrow> fixture_backend" where
  "fixture_Finish fb = fb\<lparr>fb_doneCh := True\<rparr>"

definition fixture_ChainHeight :: "fixture_backend \<Rightarrow> u32" where
  "fixture_ChainHeight fb = fb_height fb"

section \<open>The worker\<close>

text \<open>The handlers look the request up; the value is what they send to the response channel.\<close>

definition fixture_processAddrRequest :: "fixture_backend \<Rightarrow> Address \<Rightarrow> AddrResponse" where
  "fixture_processAddrRequest fb addr =
     (case fb_addrIndex fb (Address_String addr) of
        Some resp \<Rightarrow> resp
      | None \<Rightarrow> \<lparr>ar_Address = addr, ar_TxHashes = []\<rparr>)"

definition fixture_processTxRequest :: "fixture_backend \<Rightarrow> string \<Rightarrow> TxResponse option" where
  "fixture_processTxRequest fb txHash = fb_txIndex fb txHash"

definition fixture_processBlockRequest :: "fixture_backend \<Rightarrow> u32 \<Rightarrow> BlockResponse result" where
  "fixture_processBlockRequest fb height =
     (case fb_blockIndex fb height of
        Some resp \<Rightarrow> Inr resp
      | None \<Rightarrow> Inl (Panic ''fixture doesn't contain block %d'' [Num (uint height)]))"

datatype worker =
    Idle
  | SendAddr AddrResponse
  | SendTx TxResponse
  | SendBlock BlockResponse
  | Stopped
  | Crashed fault

inductive fixture_processRequests ::
    "fixture_backend \<times> worker \<Rightarrow> fixture_backend \<times> worker \<Rightarrow> bool" where
  take_addr: "fb_addrRequests fb = a # q \<Longrightarrow>
     fixture_processRequests (fb, Idle)
       (fb\<lparr>fb_addrRequests := q\<rparr>, SendAddr (fixture_processAddrRequest fb a))"
| take_tx: "fb_txRequests fb = h # q \<Longrightarrow>
     fixture_processRequests (fb, Idle)
       (fb\<lparr>fb_txRequests := q\<rparr>,
        case fixture_processTxRequest fb h of Some r \<Rightarrow> SendTx r | None \<Rightarrow> Idle)"
| cycle_addr: "fb_addrResponses fb = r # q \<Longrightarrow>
     fixture_processRequests (fb, Idle) (fb\<lparr>fb_addrResponses := q\<rparr>, SendAddr r)"
| cycle_tx: "fb_txResponses fb = r # q \<Longrightarrow>
     fixture_processRequests (fb, Idle) (fb\<lparr>fb_txResponses := q\<rparr>, SendTx r)"
| take_block: "fb_blockRequests fb = h # q \<Longrightarrow>
     fixture_processRequests (fb, Idle)
       (fb\<lparr>fb_blockRequests := q\<rparr>,
        case fixture_processBlockRequest fb h of Inr r \<Rightarrow> SendBlock r | Inl e \<Rightarrow> Crashed e)"
| stop: "fb_doneCh fb \<Longrightarrow> fixture_processRequests (fb, Idle) (fb, Stopped)"
| send_addr: "length (fb_addrResponses fb) < 10 \<Longrightarrow>
     fixture_processRequests (fb, SendAddr r) (fb\<lparr>fb_addrResponses := fb_addrResponses fb @ [r]\<rparr>, Idle)"
| send_tx: "length (fb_txResponses fb) < 1000 \<Longrightarrow>
     fixture_processRequests (fb, SendTx r) (fb\<lparr>fb_txResponses := fb_txResponses fb @ [r]\<rparr>, Idle)"
| send_block: "length (fb_blockResponses fb) < 10 \<Longrightarrow>
     fixture_processRequests (fb, SendBlock r) (fb\<lparr>fb_blockResponses := fb_blockResponses fb @ [r]\<rparr>, Idle)"

inductive_cases fixture_idleE: "fixture_processRequests (fb, Idle) s'"
inductive_cases fixture_sendAddrE: "fixture_processRequests (fb, SendAddr r) s'"
inductive_cases fixture_sendTxE: "fixture_processRequests (fb, SendTx r) s'"
inductive_cases fixture_sendBlockE: "fixture_processRequests (fb, SendBlock r) s'"
inductive_cases fixture_stoppedE [elim!]: "fixture_processRequests (fb, Stopped) s'"
inductive_cases fixture_crashedE [elim!]: "fixture_processRequests (fb, Crashed e) s'"

section \<open>What a loaded fixture holds\<close>

definition fixture_of :: "json_index \<Rightarrow> fixture_backend" where
  "fixture_of d = fold load_block (ji_Blocks d) (fold load_transaction (ji_Transactions d)
     (fold load_address (ji_Addresses d) (empty_fixture\<lparr>fb_height := ji_Height d\<rparr>)))"

lemma loadFromFile_Inr: "loadFromFile (Inr d) empty_fixture = Inr (fixture_of d)"
  by (simp add: loadFromFile_def fixture_of_def Let_def)

lemma NewFixtureBackend_Inr_iff:
  "NewFixtureBackend os_Open read_index filepath = Inr fb \<longleftrightarrow>
     (\<exists>d. os_Open filepath = Inr () \<and> read_index filepath = Inr d \<and> fb = fixture_of d)"
  by (auto simp: NewFixtureBackend_def loadFromFile_def fixture_of_def Let_def sbind_def split: sum.splits)

abbreviation address_entry :: "json_address \<Rightarrow> AddrResponse" where
  "address_entry a \<equiv>
     \<lparr>ar_Address = NewAddress (j_Path a) (j_Address a) (j_Network a) (j_Change a) (j_AddressIndex a),
      ar_TxHashes = j_TxHashes a\<rparr>"

abbreviation transaction_entry :: "json_transaction \<Rightarrow> TxResponse" where
  "transaction_entry t \<equiv> \<lparr>tr_Hash = jt_Hash t, tr_Height = jt_Height t, tr_Hex = jt_Hex t\<rparr>"

abbreviation block_entry :: "json_block \<Rightarrow> BlockResponse" where
  "block_entry b \<equiv> \<lparr>br_Height = jb_Height b, br_Timestamp = jb_Timestamp b\<rparr>"

lemma fold_load_address:
  "fold load_address xs fb =
     fb\<lparr>fb_addrIndex := fold (\<lambda>x m. m(j_Address x \<mapsto> address_entry x)) xs (fb_addrIndex fb)\<rparr>"
  by (induction xs arbitrary: fb) (simp_all add: load_address_def)

lemma fold_load_transaction:
  "fold load_transaction xs fb =
     fb\<lparr>fb_txIndex := fold (\<lambda>x m. m(jt_Hash x \<mapsto> transaction_entry x)) xs (fb_txIndex fb),
        fb_transactions := fold (\<lambda>x m. m(jt_Hash x \<mapsto> jt_Height x)) xs (fb_transactions fb)\<rparr>"
  by (induction xs arbitrary: fb) (simp_all add: load_transaction_def)

lemma fold_load_block:
  "fold load_block xs fb =
     fb\<lparr>fb_blockIndex := fold (\<lambda>x m. m(jb_Height x \<mapsto> block_entry x)) xs (fb_blockIndex fb)\<rparr>"
  by (induction xs arbitrary: fb) (simp_all add: load_block_def)

lemmas fold_loads = fold_load_address fold_load_transaction fold_load_block

lemma fixture_of_simps:
  "fb_addrIndex (fixture_of d) = fold (\<lambda>x m. m(j_Address x \<mapsto> address_entry x)) (ji_Addresses d) Map.empty"
  "fb_txIndex (fixture_of d) = fold (\<lambda>x m. m(jt_Hash x \<mapsto> transaction_entry x)) (ji_Transactions d) Map.empty"
  "fb_blockIndex (fixture_of d) = fold (\<lambda>x m. m(jb_Height x \<mapsto> block_entry x)) (ji_Blocks d) Map.empty"
  "fb_height (fixture_of d) = ji_Height d"
  "fb_addrRequests (fixture_of d) = []" "fb_addrResponses (fixture_of d) = []"
  "fb_txRequests (fixture_of d) = []" "fb_txResponses (fixture_of d) = []"
  "fb_blockRequests (fixture_of d) = []" "fb_blockResponses (fixture_of d) = []"
  by (simp_all add: fixture_of_def fold_loads empty_fixture_def)

lemma fixture_tx_hash: "fb_txIndex (fixture_of d) h = Some r \<Longrightarrow> tr_Hash r = h"
  by (auto simp: fixture_of_simps fold_upd_map_of dest!: map_of_SomeD)

lemma fixture_addr_string:
  "Address_String (ar_Address (fixture_processAddrRequest (fixture_of d) a)) = Address_String a"
  by (auto simp: fixture_processAddrRequest_def fixture_of_simps fold_upd_map_of go_simps
      split: option.splits dest!: map_of_SomeD)

section \<open>A fixture backend keeps the contract\<close>

text \<open>
  The requests still in the buffer, the response the worker holds and the responses in the buffer
  are the answers owed.
\<close>

fun held_addr :: "worker \<Rightarrow> AddrResponse multiset" where
  "held_addr (SendAddr r) = {#r#}"
| "held_addr _ = {#}"

fun held_tx :: "worker \<Rightarrow> TxResponse multiset" where
  "held_tx (SendTx r) = {#r#}"
| "held_tx _ = {#}"

definition fixture_addr_owed :: "fixture_backend \<times> worker \<Rightarrow> AddrResponse multiset" where
  "fixture_addr_owed s =
     image_mset (fixture_processAddrRequest (fst s)) (mset (fb_addrRequests (fst s)))
       + held_addr (snd s) + mset (fb_addrResponses (fst s))"

definition fixture_tx_owed :: "fixture_backend \<times> worker \<Rightarrow> TxResponse multiset" where
  "fixture_tx_owed s =
     mset (List.map_filter (fixture_processTxRequest (fst s)) (fb_txRequests (fst s)))
       + held_tx (snd s) + mset (fb_txResponses (fst s))"

definition fixture_loaded :: "json_index \<Rightarrow> fixture_backend \<times> worker \<Rightarrow> bool" where
  "fixture_loaded d s \<longleftrightarrow>
     fb_addrIndex (fst s) = fb_addrIndex (fixture_of d) \<and> fb_txIndex (fst s) = fb_txIndex (fixture_of d)"

abbreviation fx_addr_send :: "Address \<Rightarrow> fixture_backend \<times> worker \<Rightarrow> fixture_backend \<times> worker \<Rightarrow> bool" where
  "fx_addr_send a s s' \<equiv> fixture_addr_send a (fst s) = Some (fst s') \<and> snd s' = snd s"

abbreviation fx_addr_recv :: "fixture_backend \<times> worker \<Rightarrow> AddrResponse \<Rightarrow> fixture_backend \<times> worker \<Rightarrow> bool" where
  "fx_addr_recv s r s' \<equiv> fixture_addr_recv (fst s) = Some (r, fst s') \<and> snd s' = snd s"

abbreviation fx_tx_send :: "string \<Rightarrow> fixture_backend \<times> worker \<Rightarrow> fixture_backend \<times> worker \<Rightarrow> bool" where
  "fx_tx_send h s s' \<equiv> fixture_tx_send h (fst s) = Some (fst s') \<and> snd s' = snd s"

abbreviation fx_tx_recv :: "fixture_backend \<times> worker \<Rightarrow> TxResponse \<Rightarrow> fixture_backend \<times> worker \<Rightarrow> bool" where
  "fx_tx_recv s t s' \<equiv> fixture_tx_recv (fst s) = Some (t, fst s') \<and> snd s' = snd s"

lemmas owed_defs = fixture_addr_owed_def fixture_tx_owed_def fixture_loaded_def

text \<open>The handlers read the indexes only, so channel operations do not change the answers.\<close>

lemma process_frame:
  "fb_addrIndex fb = fb_addrIndex fb' \<Longrightarrow> fixture_processAddrRequest fb = fixture_processAddrRequest fb'"
  "fb_txIndex fb = fb_txIndex fb' \<Longrightarrow> fixture_processTxRequest fb = fixture_processTxRequest fb'"
  by (simp_all add: fixture_processAddrRequest_def fixture_processTxRequest_def fun_eq_iff)

lemma process_channels [simp]:
  "fixture_processAddrRequest (fb\<lparr>fb_addrRequests := aq\<rparr>) = fixture_processAddrRequest fb"
  "fixture_processAddrRequest (fb\<lparr>fb_addrResponses := ar\<rparr>) = fixture_processAddrRequest fb"
  "fixture_processAddrRequest (fb\<lparr>fb_txRequests := tq\<rparr>) = fixture_processAddrRequest fb"
  "fixture_processAddrRequest (fb\<lparr>fb_txResponses := tr\<rparr>) = fixture_processAddrRequest fb"
  "fixture_processAddrRequest (fb\<lparr>fb_blockRequests := bq\<rparr>) = fixture_processAddrRequest fb"
  "fixture_processAddrRequest (fb\<lparr>fb_blockResponses := br\<rparr>) = fixture_processAddrRequest fb"
  "fixture_processTxRequest (fb\<lparr>fb_addrRequests := aq\<rparr>) = fixture_processTxRequest fb"
  "fixture_processTxRequest (fb\<lparr>fb_addrResponses := ar\<rparr>) = fixture_processTxRequest fb"
  "fixture_processTxRequest (fb\<lparr>fb_txRequests := tq\<rparr>) = fixture_processTxRequest fb"
  "fixture_processTxRequest (fb\<lparr>fb_txResponses := tr\<rparr>) = fixture_processTxRequest fb"
  "fixture_processTxRequest (fb\<lparr>fb_blockRequests := bq\<rparr>) = fixture_processTxRequest fb"
  "fixture_processTxRequest (fb\<lparr>fb_blockResponses := br\<rparr>) = fixture_processTxRequest fb"
  by (rule process_frame; simp)+

lemma loaded_answers:
  "fixture_loaded d (fb, w) \<Longrightarrow> fixture_processAddrRequest (fixture_of d) = fixture_processAddrRequest fb"
  "fixture_loaded d (fb, w) \<Longrightarrow> fixture_processTxRequest (fixture_of d) = fixture_processTxRequest fb"
  by (rule process_frame; simp add: fixture_loaded_def)+

lemma fixture_work_owed:
  assumes "fixture_processRequests s s'"
  shows "fixture_loaded d s \<Longrightarrow> fixture_loaded d s'" "fixture_addr_owed s' = fixture_addr_owed s"
    "fixture_tx_owed s' = fixture_tx_owed s"
  using assms
  by (induction rule: fixture_processRequests.induct)
    (auto simp: owed_defs List.map_filter_simps split: option.splits sum.splits)

interpretation fx: backend_contract fixture_processRequests fx_addr_send fx_addr_recv fx_tx_send fx_tx_recv
    fixture_addr_owed fixture_tx_owed "fixture_processAddrRequest (fixture_of d)"
    "fixture_processTxRequest (fixture_of d)" "fixture_loaded d"
  for d
proof (unfold_locales, goal_cases)
  case (1 b b')
  then show ?case by (simp add: fixture_work_owed)
next
  case (2 b a b')
  then show ?case
    by (cases b; cases b')
      (auto simp: fixture_addr_send_def loaded_answers, auto simp: owed_defs split: if_splits)
next
  case (3 b r b')
  then show ?case
    by (cases b; cases b') (auto simp: fixture_addr_recv_def owed_defs split: list.splits)
next
  case (4 b h b')
  then show ?case
    by (cases b; cases b')
      (auto simp: fixture_tx_send_def loaded_answers,
        auto simp: owed_defs List.map_filter_def split: if_splits option.splits)
next
  case (5 b t b')
  then show ?case
    by (cases b; cases b') (auto simp: fixture_tx_recv_def owed_defs split: list.splits)
next
  case (6 h t)
  then show ?case by (simp add: fixture_processTxRequest_def fixture_tx_hash)
qed

end
