(* ===== verification/Recorder.thy ===== *)
theory Recorder
  imports Fixture
begin

text \<open>
  \<^verbatim>\<open>backend/recorder_backend.go\<close>: a backend that passes the requests on to another one, keeps the
  responses that come back and writes them to a fixture file.  The state is that of the wrapped
  backend, of type \<open>'b\<close>, the recorder's own record and the program counter of its goroutine.  The
  text encoding of the file (\<^verbatim>\<open>json.MarshalIndent\<close>) is not modelled: \<open>writeToFile\<close> returns the
  index value that is encoded.
\<close>

section \<open>State and operations\<close>

record recorder_backend =
  rb_addrIndex :: "string \<rightharpoonup> AddrResponse"
  rb_txIndex :: "string \<rightharpoonup> TxResponse"
  rb_blockIndex :: "u32 \<rightharpoonup> BlockResponse"
  rb_addrResponses :: "AddrResponse list"
  rb_txResponses :: "TxResponse list"
  rb_blockResponses :: "BlockResponse list"
  rb_doneCh :: bool
  rb_outputFilepath :: string

definition NewRecorderBackend :: "string \<Rightarrow> recorder_backend" where
  "NewRecorderBackend filepath =
     \<lparr>rb_addrIndex = Map.empty, rb_txIndex = Map.empty, rb_blockIndex = Map.empty,
      rb_addrResponses = [], rb_txResponses = [], rb_blockResponses = [],
      rb_doneCh = False, rb_outputFilepath = filepath\<rparr>"

definition record_addr :: "AddrResponse \<Rightarrow> recorder_backend \<Rightarrow> recorder_backend" where
  "record_addr addrResp rb =
     rb\<lparr>rb_addrIndex := (rb_addrIndex rb)(Address_String (ar_Address addrResp) \<mapsto> addrResp)\<rparr>"

definition record_tx :: "TxResponse \<Rightarrow> recorder_backend \<Rightarrow> recorder_backend" where
  "record_tx txResp rb = rb\<lparr>rb_txIndex := (rb_txIndex rb)(tr_Hash txResp \<mapsto> txResp)\<rparr>"

definition record_block :: "BlockResponse \<Rightarrow> recorder_backend \<Rightarrow> recorder_backend" where
  "record_block block rb = rb\<lparr>rb_blockIndex := (rb_blockIndex rb)(br_Height block \<mapsto> block)\<rparr>"

lemmas record_defs = record_addr_def record_tx_def record_block_def

definition recorder_addr_recv :: "recorder_backend \<Rightarrow> (AddrResponse \<times> recorder_backend) option" where
  "recorder_addr_recv rb =
     (case rb_addrResponses rb of [] \<Rightarrow> None | r # rs \<Rightarrow> Some (r, rb\<lparr>rb_addrResponses := rs\<rparr>))"

definition recorder_tx_recv :: "recorder_backend \<Rightarrow> (TxResponse \<times> recorder_backend) option" where
  "recorder_tx_recv rb =
     (case rb_txResponses rb of [] \<Rightarrow> None | r # rs \<Rightarrow> Some (r, rb\<lparr>rb_txResponses := rs\<rparr>))"

text \<open>
  The goroutine: receive from the wrapped backend, store, pass on.  The arguments are the receive
  operations of the wrapped backend.
\<close>

inductive recorder_processRequests ::
    "('b \<Rightarrow> AddrResponse \<Rightarrow> 'b \<Rightarrow> bool) \<Rightarrow> ('b \<Rightarrow> TxResponse \<Rightarrow> 'b \<Rightarrow> bool) \<Rightarrow> ('b \<Rightarrow> BlockResponse \<Rightarrow> 'b \<Rightarrow> bool)
      \<Rightarrow> 'b \<times> recorder_backend \<times> worker \<Rightarrow> 'b \<times> recorder_backend \<times> worker \<Rightarrow> bool"
  for addr_recv tx_recv block_recv where
  recv_addr: "addr_recv b r b' \<Longrightarrow>
     recorder_processRequests addr_recv tx_recv block_recv (b, rb, Idle) (b', record_addr r rb, SendAddr r)"
| recv_tx: "tx_recv b t b' \<Longrightarrow>
     recorder_processRequests addr_recv tx_recv block_recv (b, rb, Idle) (b', record_tx t rb, SendTx t)"
| recv_block: "block_recv b k b' \<Longrightarrow>
     recorder_processRequests addr_recv tx_recv block_recv (b, rb, Idle) (b', record_block k rb, SendBlock k)"
| stop: "rb_doneCh rb \<Longrightarrow>
     recorder_processRequests addr_recv tx_recv block_recv (b, rb, Idle) (b, rb, Stopped)"
| send_addr: "length (rb_addrResponses rb) < 100 \<Longrightarrow>
     recorder_processRequests addr_recv tx_recv block_recv (b, rb, SendAddr r)
       (b, rb\<lparr>rb_addrResponses := rb_addrResponses rb @ [r]\<rparr>, Idle)"
| send_tx: "length (rb_txResponses rb) < 2 * 1000 \<Longrightarrow>
     recorder_processRequests addr_recv tx_recv block_recv (b, rb, SendTx t)
       (b, rb\<lparr>rb_txResponses := rb_txResponses rb @ [t]\<rparr>, Idle)"
| send_block: "length (rb_blockResponses rb) < 100 \<Longrightarrow>
     recorder_processRequests addr_recv tx_recv block_recv (b, rb, SendBlock k)
       (b, rb\<lparr>rb_blockResponses := rb_blockResponses rb @ [k]\<rparr>, Idle)"

section \<open>Writing the fixture file\<close>

definition to_json_address :: "string \<Rightarrow> AddrResponse \<Rightarrow> json_address" where
  "to_json_address addr addrResp =
     \<lparr>j_Address = addr, j_Path = Path (ar_Address addrResp), j_Network = Network (ar_Address addrResp),
      j_Change = Change (ar_Address addrResp), j_AddressIndex = Index (ar_Address addrResp),
      j_TxHashes = ar_TxHashes addrResp\<rparr>"

definition to_json_transaction :: "TxResponse \<Rightarrow> json_transaction" where
  "to_json_transaction txResp =
     \<lparr>jt_Hash = tr_Hash txResp, jt_Height = tr_Height txResp, jt_Hex = tr_Hex txResp\<rparr>"

definition to_json_block :: "BlockResponse \<Rightarrow> json_block" where
  "to_json_block b = \<lparr>jb_Height = br_Height b, jb_Timestamp = br_Timestamp b\<rparr>"

text \<open>
  The three key lists are the orders in which the runtime ranges over the maps; \<open>chainHeight\<close> is
  the answer of the wrapped backend.
\<close>

definition writeToFile ::
    "u32 \<Rightarrow> string list \<Rightarrow> string list \<Rightarrow> u32 list \<Rightarrow> recorder_backend \<Rightarrow> json_index" where
  "writeToFile chainHeight addrs hashes heights rb =
     \<lparr>ji_Height = chainHeight,
      ji_Addresses = go_sort byAddress_Less
        (map (\<lambda>addr. to_json_address addr (the (rb_addrIndex rb addr))) addrs),
      ji_Transactions = go_sort byTransactionID_Less
        (map (\<lambda>h. to_json_transaction (the (rb_txIndex rb h))) hashes),
      ji_Blocks = map (\<lambda>h. to_json_block (the (rb_blockIndex rb h))) heights\<rparr>"

text \<open>\<^verbatim>\<open>Finish\<close> finishes the wrapped backend, closes the channel and writes the file.\<close>

definition recorder_Finish ::
    "('b \<Rightarrow> 'b) \<Rightarrow> u32 \<Rightarrow> string list \<Rightarrow> string list \<Rightarrow> u32 list \<Rightarrow> 'b \<times> recorder_backend \<Rightarrow>
     ('b \<times> recorder_backend) \<times> json_index" where
  "recorder_Finish finish chainHeight addrs hashes heights s =
     (case s of (b, rb) \<Rightarrow>
        let b = finish b; rb = rb\<lparr>rb_doneCh := True\<rparr>
        in ((b, rb), writeToFile chainHeight addrs hashes heights rb))"

section \<open>Every entry is filed under its own key\<close>

definition recorder_keys :: "recorder_backend \<Rightarrow> bool" where
  "recorder_keys rb \<longleftrightarrow>
     (\<forall>k r. rb_addrIndex rb k = Some r \<longrightarrow> Address_String (ar_Address r) = k) \<and>
     (\<forall>k t. rb_txIndex rb k = Some t \<longrightarrow> tr_Hash t = k) \<and>
     (\<forall>k b. rb_blockIndex rb k = Some b \<longrightarrow> br_Height b = k)"

lemma recorder_keys_new: "recorder_keys (NewRecorderBackend f)"
  by (simp add: recorder_keys_def NewRecorderBackend_def)

lemma recorder_keys_step:
  "recorder_processRequests ar tr br s s' \<Longrightarrow> recorder_keys (fst (snd s)) \<Longrightarrow> recorder_keys (fst (snd s'))"
  by (induction rule: recorder_processRequests.induct) (auto simp: recorder_keys_def record_defs)

lemma recorder_keysD:
  assumes "recorder_keys rb"
  shows "rb_addrIndex rb k = Some r \<Longrightarrow> Address_String (ar_Address r) = k"
    "rb_txIndex rb k' = Some t \<Longrightarrow> tr_Hash t = k'" "rb_blockIndex rb k'' = Some b \<Longrightarrow> br_Height b = k''"
  using assms by (auto simp: recorder_keys_def)

lemma entry_of_json:
  "Address_String (ar_Address r) = k \<Longrightarrow> address_entry (to_json_address k r) = r"
  "transaction_entry (to_json_transaction t) = t"
  "block_entry (to_json_block b) = b"
  by (simp_all add: to_json_address_def to_json_transaction_def to_json_block_def go_simps)

text \<open>Reading back one section of the file that was written, in any order, gives the map back.\<close>

lemma read_back:
  assumes "enumerates ks m"
    and "mset ys = mset (map f ks)"
    and "\<And>k v. m k = Some v \<Longrightarrow> key (f k) = k \<and> entry (f k) = v"
  shows "fold (\<lambda>x m. m(key x \<mapsto> entry x)) ys Map.empty = m"
proof -
  have key: "key (f k) = k" if "k \<in> set ks" for k
    using assms(1,3) that by (auto dest: enumerates_Some)
  then have keys: "map key (map f ks) = ks" by (simp add: map_idI)
  then have dist: "distinct (map key (map f ks))" using assms(1) by auto
  have "fold (\<lambda>x m. m(key x \<mapsto> entry x)) ys Map.empty = map_of (map (\<lambda>x. (key x, entry x)) (map f ks))"
    unfolding fold_upd_mset [OF dist assms(2)] by (rule fold_upd_distinct [OF dist])
  also have "map (\<lambda>x. (key x, entry x)) (map f ks) = map (\<lambda>k. (k, entry (f k))) ks"
    using key by simp
  also have "map_of \<dots> = m"
    by (rule map_of_enumerates [OF assms(1)]) (simp add: assms(3))
  finally show ?thesis .
qed

text \<open>A fixture that is loaded from the file.\<close>

lemma recorded_file:
  assumes "recorder_keys rb"
    and "enumerates addrs (rb_addrIndex rb)" and "enumerates hashes (rb_txIndex rb)"
    and "enumerates heights (rb_blockIndex rb)"
  shows "let fb = fixture_of (writeToFile chainHeight addrs hashes heights rb) in
    fb_addrIndex fb = rb_addrIndex rb \<and> fb_txIndex fb = rb_txIndex rb \<and>
    fb_blockIndex fb = rb_blockIndex rb \<and> fixture_ChainHeight fb = chainHeight"
proof -
  have a: "fold (\<lambda>x m. m(j_Address x \<mapsto> address_entry x))
      (go_sort byAddress_Less (map (\<lambda>k. to_json_address k (the (rb_addrIndex rb k))) addrs)) Map.empty
      = rb_addrIndex rb"
    by (rule read_back [OF assms(2) address_sort.go_sort_mset])
      (simp add: entry_of_json recorder_keysD [OF assms(1)], simp add: to_json_address_def)
  have t: "fold (\<lambda>x m. m(jt_Hash x \<mapsto> transaction_entry x))
      (go_sort byTransactionID_Less (map (\<lambda>k. to_json_transaction (the (rb_txIndex rb k))) hashes)) Map.empty
      = rb_txIndex rb"
    by (rule read_back [OF assms(3) transaction_sort.go_sort_mset])
      (simp add: entry_of_json, simp add: to_json_transaction_def recorder_keysD [OF assms(1)])
  have b: "fold (\<lambda>x m. m(jb_Height x \<mapsto> block_entry x))
      (map (\<lambda>k. to_json_block (the (rb_blockIndex rb k))) heights) Map.empty = rb_blockIndex rb"
    by (rule read_back [OF assms(4) refl])
      (simp add: entry_of_json, simp add: to_json_block_def recorder_keysD [OF assms(1)])
  show ?thesis
    by (simp add: fixture_of_simps writeToFile_def fixture_ChainHeight_def a t b)
qed

section \<open>A recorder keeps the contract of the backend it wraps\<close>

inductive recorder_work ::
    "('b \<Rightarrow> 'b \<Rightarrow> bool) \<Rightarrow> ('b \<Rightarrow> AddrResponse \<Rightarrow> 'b \<Rightarrow> bool) \<Rightarrow> ('b \<Rightarrow> TxResponse \<Rightarrow> 'b \<Rightarrow> bool)
      \<Rightarrow> ('b \<Rightarrow> BlockResponse \<Rightarrow> 'b \<Rightarrow> bool)
      \<Rightarrow> 'b \<times> recorder_backend \<times> worker \<Rightarrow> 'b \<times> recorder_backend \<times> worker \<Rightarrow> bool"
  for work addr_recv tx_recv block_recv where
  wrapped: "work b b' \<Longrightarrow> recorder_work work addr_recv tx_recv block_recv (b, rb, w) (b', rb, w)"
| own: "recorder_processRequests addr_recv tx_recv block_recv s s' \<Longrightarrow>
     recorder_work work addr_recv tx_recv block_recv s s'"

definition recorder_addr_owed ::
    "('b \<Rightarrow> AddrResponse multiset) \<Rightarrow> 'b \<times> recorder_backend \<times> worker \<Rightarrow> AddrResponse multiset" where
  "recorder_addr_owed owed s = (case s of (b, rb, w) \<Rightarrow> owed b + held_addr w + mset (rb_addrResponses rb))"

definition recorder_tx_owed ::
    "('b \<Rightarrow> TxResponse multiset) \<Rightarrow> 'b \<times> recorder_backend \<times> worker \<Rightarrow> TxResponse multiset" where
  "recorder_tx_owed owed s = (case s of (b, rb, w) \<Rightarrow> owed b + held_tx w + mset (rb_txResponses rb))"

text \<open>A new recorder owes nothing of its own.\<close>

lemma recorder_idle:
  "recorder_addr_owed owed (s, NewRecorderBackend file, Idle) = owed s"
  "recorder_tx_owed owed' (s, NewRecorderBackend file, Idle) = owed' s"
  by (simp_all add: recorder_addr_owed_def recorder_tx_owed_def NewRecorderBackend_def)

abbreviation rc_send :: "('b \<Rightarrow> 'b \<Rightarrow> bool) \<Rightarrow> 'b \<times> recorder_backend \<times> worker \<Rightarrow> 'b \<times> recorder_backend \<times> worker \<Rightarrow> bool" where
  "rc_send send s s' \<equiv> send (fst s) (fst s') \<and> snd s' = snd s"

abbreviation rc_addr_recv ::
    "'b \<times> recorder_backend \<times> worker \<Rightarrow> AddrResponse \<Rightarrow> 'b \<times> recorder_backend \<times> worker \<Rightarrow> bool" where
  "rc_addr_recv s r s' \<equiv>
     recorder_addr_recv (fst (snd s)) = Some (r, fst (snd s')) \<and> fst s' = fst s \<and> snd (snd s') = snd (snd s)"

abbreviation rc_tx_recv ::
    "'b \<times> recorder_backend \<times> worker \<Rightarrow> TxResponse \<Rightarrow> 'b \<times> recorder_backend \<times> worker \<Rightarrow> bool" where
  "rc_tx_recv s t s' \<equiv>
     recorder_tx_recv (fst (snd s)) = Some (t, fst (snd s')) \<and> fst s' = fst s \<and> snd (snd s') = snd (snd s)"

lemma record_channels [simp]:
  "rb_addrResponses (record_addr r rb) = rb_addrResponses rb"
  "rb_addrResponses (record_tx t rb) = rb_addrResponses rb"
  "rb_addrResponses (record_block k rb) = rb_addrResponses rb"
  "rb_txResponses (record_addr r rb) = rb_txResponses rb"
  "rb_txResponses (record_tx t rb) = rb_txResponses rb"
  "rb_txResponses (record_block k rb) = rb_txResponses rb"
  by (simp_all add: record_defs)

context backend_contract
begin

lemma recorder_step_owed:
  assumes "recorder_processRequests addr_recv tx_recv block_recv s s'"
    and block: "\<And>b k b'. binv b \<Longrightarrow> block_recv b k b' \<Longrightarrow>
        binv b' \<and> addr_owed b' = addr_owed b \<and> tx_owed b' = tx_owed b"
    and "binv (fst s)"
  shows "binv (fst s') \<and> recorder_addr_owed addr_owed s' = recorder_addr_owed addr_owed s \<and>
    recorder_tx_owed tx_owed s' = recorder_tx_owed tx_owed s"
  using assms(1,3)
proof (induction rule: recorder_processRequests.induct)
  case (recv_addr b r b' rb)
  then show ?case
    using addr_recv_owed [of b r b'] by (simp add: recorder_addr_owed_def recorder_tx_owed_def)
next
  case (recv_tx b t b' rb)
  then show ?case
    using tx_recv_owed [of b t b'] by (simp add: recorder_addr_owed_def recorder_tx_owed_def)
next
  case (recv_block b k b' rb)
  then show ?case
    using block [of b k b'] by (simp add: recorder_addr_owed_def recorder_tx_owed_def)
qed (simp_all add: recorder_addr_owed_def recorder_tx_owed_def)

lemma recorder_contract:
  assumes block: "\<And>b k b'. binv b \<Longrightarrow> block_recv b k b' \<Longrightarrow>
        binv b' \<and> addr_owed b' = addr_owed b \<and> tx_owed b' = tx_owed b"
  shows "backend_contract (recorder_work work addr_recv tx_recv block_recv)
    (\<lambda>a. rc_send (addr_send a)) rc_addr_recv (\<lambda>h. rc_send (tx_send h)) rc_tx_recv
    (recorder_addr_owed addr_owed) (recorder_tx_owed tx_owed) addr_answer tx_answer (\<lambda>s. binv (fst s))"
proof (unfold_locales, goal_cases)
  case (1 s s')
  from 1(2,1) show ?case
  proof (induction rule: recorder_work.induct)
    case (wrapped b b' rb w)
    then show ?case
      using work_owed [of b b'] by (simp add: recorder_addr_owed_def recorder_tx_owed_def)
  next
    case (own s s')
    then show ?case using recorder_step_owed [OF own(1) block] by simp
  qed
next
  case (2 s a s')
  then show ?case
    using addr_send_owed [of "fst s" a "fst s'"]
    by (auto simp: recorder_addr_owed_def recorder_tx_owed_def split: prod.splits)
next
  case (3 s r s')
  then show ?case
    by (auto simp: recorder_addr_recv_def recorder_addr_owed_def recorder_tx_owed_def
        split: prod.splits list.splits)
next
  case (4 s h s')
  then show ?case
    using tx_send_owed [of "fst s" h "fst s'"]
    by (auto simp: recorder_addr_owed_def recorder_tx_owed_def split: prod.splits option.splits)
next
  case (5 s t s')
  then show ?case
    by (auto simp: recorder_tx_recv_def recorder_addr_owed_def recorder_tx_owed_def
        split: prod.splits list.splits)
next
  case (6 h t)
  then show ?case by (rule tx_answer_hash)
qed

end

abbreviation fx_block_recv :: "fixture_backend \<times> worker \<Rightarrow> BlockResponse \<Rightarrow> fixture_backend \<times> worker \<Rightarrow> bool" where
  "fx_block_recv s k s' \<equiv> fixture_block_recv (fst s) = Some (k, fst s') \<and> snd s' = snd s"

interpretation rfx: backend_contract
    "recorder_work fixture_processRequests fx_addr_recv fx_tx_recv fx_block_recv"
    "\<lambda>a. rc_send (fx_addr_send a)" rc_addr_recv "\<lambda>h. rc_send (fx_tx_send h)" rc_tx_recv
    "recorder_addr_owed fixture_addr_owed" "recorder_tx_owed fixture_tx_owed"
    "fixture_processAddrRequest (fixture_of d)" "fixture_processTxRequest (fixture_of d)"
    "\<lambda>s. fixture_loaded d (fst s)"
  for d
proof (rule fx.recorder_contract)
  fix b k b'
  assume "fixture_loaded d b" and "fx_block_recv b k b'"
  then show "fixture_loaded d b' \<and> fixture_addr_owed b' = fixture_addr_owed b \<and> fixture_tx_owed b' = fixture_tx_owed b"
    by (cases b; cases b') (auto simp: fixture_block_recv_def owed_defs split: list.splits)
qed

section \<open>Properties\<close>

text \<open>
  C8: replaying a recording gives back what was recorded.  A fixture backend loaded from the index
  a recorder writes has the recorder's address, transaction and block indexes and the chain height
  it was written with, in whatever order the runtime ranged over the recorder's maps.
\<close>

theorem recording_roundtrip:
  assumes "recorder_keys rb"
    and "enumerates addrs (rb_addrIndex rb)" and "enumerates hashes (rb_txIndex rb)"
    and "enumerates heights (rb_blockIndex rb)"
  shows "let fb = fixture_of (writeToFile chainHeight addrs hashes heights rb) in
    fb_addrIndex fb = rb_addrIndex rb \<and> fb_txIndex fb = rb_txIndex rb \<and>
    fb_blockIndex fb = rb_blockIndex rb \<and> fixture_ChainHeight fb = chainHeight"
  by (rule recorded_file [OF assms])

theorem recording_roundtrip_witness:
  "let rb = record_tx \<lparr>tr_Hash = ''aa'', tr_Height = 7, tr_Hex = ''00''\<rparr>
        (record_addr \<lparr>ar_Address = NewAddress ''m/.../0/0'' ''mzoe'' Testnet 0 0, ar_TxHashes = [''aa'']\<rparr>
          (NewRecorderBackend ''f.json'')) in
   fb_addrIndex (fixture_of (writeToFile 42 [''mzoe''] [''aa''] [] rb)) = rb_addrIndex rb"
proof -
  let ?rb = "record_tx \<lparr>tr_Hash = ''aa'', tr_Height = 7, tr_Hex = ''00''\<rparr>
        (record_addr \<lparr>ar_Address = NewAddress ''m/.../0/0'' ''mzoe'' Testnet 0 0, ar_TxHashes = [''aa'']\<rparr>
          (NewRecorderBackend ''f.json''))"
  have "recorder_keys ?rb"
    by (simp add: recorder_keys_def record_defs NewRecorderBackend_def go_simps)
  moreover have "enumerates [''mzoe''] (rb_addrIndex ?rb)" "enumerates [''aa''] (rb_txIndex ?rb)"
    "enumerates [] (rb_blockIndex ?rb)"
    by (simp_all add: enumerates_def record_defs NewRecorderBackend_def go_simps)
  ultimately show ?thesis
    using recording_roundtrip [of ?rb "[''mzoe'']" "[''aa'']" "[]" 42] by (simp add: Let_def)
qed

text \<open>
  The file a recorder writes does not depend on the order in which the runtime ranges over the
  address and transaction maps, because both sections are sorted by their keys; the blocks are
  written in the order the map is ranged over, so they agree up to a permutation.
\<close>

theorem recording_deterministic:
  assumes "recorder_keys rb"
    and "enumerates addrs (rb_addrIndex rb)" and "enumerates addrs' (rb_addrIndex rb)"
    and "enumerates hashes (rb_txIndex rb)" and "enumerates hashes' (rb_txIndex rb)"
    and "enumerates heights (rb_blockIndex rb)" and "enumerates heights' (rb_blockIndex rb)"
  shows "let i = writeToFile h addrs hashes heights rb; i' = writeToFile h addrs' hashes' heights' rb in
    ji_Addresses i = ji_Addresses i' \<and> ji_Transactions i = ji_Transactions i' \<and>
    mset (ji_Blocks i) = mset (ji_Blocks i') \<and> ji_Height i = ji_Height i' \<and>
    sorted (map j_Address (ji_Addresses i)) \<and> sorted (map jt_Hash (ji_Transactions i))"
proof -
  have tx: "jt_Hash (to_json_transaction (the (rb_txIndex rb k))) = k" if "k \<in> set hashes'" for k
    using that assms(5) recorder_keysD(2) [OF assms(1)]
    by (auto simp: to_json_transaction_def dest: enumerates_Some)
  have "go_sort byAddress_Less (map (\<lambda>k. to_json_address k (the (rb_addrIndex rb k))) addrs)
      = go_sort byAddress_Less (map (\<lambda>k. to_json_address k (the (rb_addrIndex rb k))) addrs')"
    by (rule address_sort.go_sort_perm)
      (simp add: enumerates_mset [OF assms(2,3)], auto simp: inj_on_def to_json_address_def)
  moreover have "go_sort byTransactionID_Less (map (\<lambda>k. to_json_transaction (the (rb_txIndex rb k))) hashes)
      = go_sort byTransactionID_Less (map (\<lambda>k. to_json_transaction (the (rb_txIndex rb k))) hashes')"
    by (rule transaction_sort.go_sort_perm)
      (simp add: enumerates_mset [OF assms(4,5)], auto intro!: inj_onI simp: tx)
  ultimately show ?thesis
    by (simp add: writeToFile_def address_sort.go_sort_sorted transaction_sort.go_sort_sorted
        enumerates_mset [OF assms(6,7)])
qed

theorem recording_deterministic_witness:
  "let rb = record_block \<lparr>br_Height = 2, br_Timestamp = 20\<rparr> (record_block \<lparr>br_Height = 1, br_Timestamp = 10\<rparr>
       (record_tx \<lparr>tr_Hash = ''aa'', tr_Height = 7, tr_Hex = ''00''\<rparr>
         (record_tx \<lparr>tr_Hash = ''bb'', tr_Height = 7, tr_Hex = ''00''\<rparr> (NewRecorderBackend ''f.json'')))) in
   ji_Transactions (writeToFile 42 [] [''aa'', ''bb''] [1, 2] rb)
     = ji_Transactions (writeToFile 42 [] [''bb'', ''aa''] [2, 1] rb)"
proof -
  let ?rb = "record_block \<lparr>br_Height = 2, br_Timestamp = 20\<rparr> (record_block \<lparr>br_Height = 1, br_Timestamp = 10\<rparr>
       (record_tx \<lparr>tr_Hash = ''aa'', tr_Height = 7, tr_Hex = ''00''\<rparr>
         (record_tx \<lparr>tr_Hash = ''bb'', tr_Height = 7, tr_Hex = ''00''\<rparr> (NewRecorderBackend ''f.json''))))"
  have "recorder_keys ?rb"
    by (simp add: recorder_keys_def record_defs NewRecorderBackend_def)
  moreover have "enumerates [] (rb_addrIndex ?rb)"
    "enumerates [''aa'', ''bb''] (rb_txIndex ?rb)" "enumerates [''bb'', ''aa''] (rb_txIndex ?rb)"
    "enumerates [1, 2] (rb_blockIndex ?rb)" "enumerates [2, 1] (rb_blockIndex ?rb)"
    by (auto simp: enumerates_def record_defs NewRecorderBackend_def)
  ultimately show ?thesis
    using recording_deterministic [of ?rb "[]" "[]" "[''aa'', ''bb'']" "[''bb'', ''aa'']" "[1, 2]" "[2, 1]" 42]
    by (simp add: Let_def)
qed

end
