(* ===== verification/Fetch.thy ===== *)
theory Fetch
  imports Accounter Recorder
begin

text \<open>
  \<^verbatim>\<open>fetchTransactions\<close> of \<^verbatim>\<open>accounter/accounter.go\<close>: the goroutines \<^verbatim>\<open>sendWork\<close> and \<^verbatim>\<open>recvWork\<close> and a
  backend as one step relation.  \<open>sender\<close> and \<open>receiver\<close> are their program counters with the local
  variables that are live there.  A critical section of \<^verbatim>\<open>countMu\<close> is one step, except the loop that
  requests transactions, which holds the mutex while \<^verbatim>\<open>TxRequest\<close> blocks: the sender's critical
  sections are not enabled then.
\<close>

section \<open>The two goroutines\<close>

datatype sender =
    ReadBound u32                       \<comment> \<open>about to call \<^verbatim>\<open>getLastAddress(change)\<close>\<close>
  | Deriving u32 u32                    \<comment> \<open>at the test of the inner loop: \<^verbatim>\<open>change\<close>, \<^verbatim>\<open>lastAddr\<close>\<close>
  | Requesting u32 u32 Address          \<comment> \<open>in \<^verbatim>\<open>AddrRequest(addr)\<close>\<close>
  | SenderPanic fault

datatype receiver =
    Selecting
  | SeeTxs AddrResponse "string list"   \<comment> \<open>in the loop over the hashes not visited yet, with the mutex held\<close>
  | Extending AddrResponse
  | Returned
  | ReceiverPanic fault

record 'b fetch =
  f_acc :: accounter
  f_rep :: reporter
  f_backend :: 'b
  f_indexes :: "u32 list"
  f_sender :: sender
  f_receiver :: receiver

fun holds_lock :: "receiver \<Rightarrow> bool" where
  "holds_lock (SeeTxs _ _) = True"
| "holds_lock _ = False"

definition fetch_start :: "accounter \<Rightarrow> reporter \<Rightarrow> 'b \<Rightarrow> 'b fetch" where
  "fetch_start a rep b = \<lparr>f_acc = a, f_rep = rep, f_backend = b, f_indexes = [0, 0],
     f_sender = ReadBound 0, f_receiver = Selecting\<rparr>"

inductive sendWork ::
    "('k, 'p) btc_lib \<Rightarrow> (Address \<Rightarrow> 'b \<Rightarrow> 'b \<Rightarrow> bool) \<Rightarrow> 'b fetch \<Rightarrow> 'b fetch \<Rightarrow> bool"
  for lib addr_send where
  read_bound: "f_sender s = ReadBound change \<Longrightarrow> \<not> holds_lock (f_receiver s) \<Longrightarrow>
     getLastAddress change (f_acc s) = Inr lastAddr \<Longrightarrow>
     sendWork lib addr_send s (s\<lparr>f_sender := Deriving change lastAddr\<rparr>)"
| derive: "f_sender s = Deriving change lastAddr \<Longrightarrow> \<not> holds_lock (f_receiver s) \<Longrightarrow>
     f_indexes s ! unat change < lastAddr \<Longrightarrow>
     Derive lib (ac_deriver (f_acc s)) change (f_indexes s ! unat change) = Inr addr \<Longrightarrow>
     sendWork lib addr_send s (s\<lparr>f_sender := Requesting change lastAddr addr, f_acc := count_derived (f_acc s)\<rparr>)"
| derive_panic: "f_sender s = Deriving change lastAddr \<Longrightarrow>
     f_indexes s ! unat change < lastAddr \<Longrightarrow>
     Derive lib (ac_deriver (f_acc s)) change (f_indexes s ! unat change) = Inl e \<Longrightarrow>
     sendWork lib addr_send s (s\<lparr>f_sender := SenderPanic e\<rparr>)"
| request: "f_sender s = Requesting change lastAddr addr \<Longrightarrow> addr_send addr (f_backend s) b' \<Longrightarrow>
     sendWork lib addr_send s
       (s\<lparr>f_sender := Deriving change lastAddr, f_backend := b', f_rep := AddrRequest_report (f_rep s),
          f_indexes := (f_indexes s)[unat change := f_indexes s ! unat change + 1]\<rparr>)"
| next_change: "f_sender s = Deriving change lastAddr \<Longrightarrow> \<not> f_indexes s ! unat change < lastAddr \<Longrightarrow>
     sendWork lib addr_send s (s\<lparr>f_sender := ReadBound (if change = 0 then 1 else 0)\<rparr>)"

inductive recvWork ::
    "('k, 'p) btc_lib \<Rightarrow> ('b \<Rightarrow> AddrResponse \<Rightarrow> 'b \<Rightarrow> bool) \<Rightarrow> (string \<Rightarrow> 'b \<Rightarrow> 'b \<Rightarrow> bool)
      \<Rightarrow> ('b \<Rightarrow> TxResponse \<Rightarrow> 'b \<Rightarrow> bool) \<Rightarrow> 'b fetch \<Rightarrow> 'b fetch \<Rightarrow> bool"
  for lib addr_recv tx_send tx_recv where
  address: "f_receiver s = Selecting \<Longrightarrow> addr_recv (f_backend s) resp b' \<Longrightarrow>
     file_address lib resp (f_acc s) = Inr a' \<Longrightarrow>
     recvWork lib addr_recv tx_send tx_recv s
       (s\<lparr>f_receiver := SeeTxs resp (ar_TxHashes resp), f_backend := b', f_acc := a',
          f_rep := IncAddressesFetched (f_rep s)\<rparr>)"
| address_panic: "f_receiver s = Selecting \<Longrightarrow> addr_recv (f_backend s) resp b' \<Longrightarrow>
     file_address lib resp (f_acc s) = Inl e \<Longrightarrow>
     recvWork lib addr_recv tx_send tx_recv s (s\<lparr>f_receiver := ReceiverPanic e, f_backend := b'\<rparr>)"
| known: "f_receiver s = SeeTxs resp (h # hs) \<Longrightarrow> \<not> unseen h (f_acc s) \<Longrightarrow>
     recvWork lib addr_recv tx_send tx_recv s (s\<lparr>f_receiver := SeeTxs resp hs\<rparr>)"
| unknown: "f_receiver s = SeeTxs resp (h # hs) \<Longrightarrow> unseen h (f_acc s) \<Longrightarrow> tx_send h (f_backend s) b' \<Longrightarrow>
     recvWork lib addr_recv tx_send tx_recv s
       (s\<lparr>f_receiver := SeeTxs resp hs, f_backend := b', f_acc := count_seen (f_acc s),
          f_rep := TxRequest_report (f_rep s)\<rparr>)"
| unlock: "f_receiver s = SeeTxs resp [] \<Longrightarrow>
     recvWork lib addr_recv tx_send tx_recv s (s\<lparr>f_receiver := Extending resp\<rparr>)"
| extend: "f_receiver s = Extending resp \<Longrightarrow> extend_lookahead resp (f_acc s) = Inr a' \<Longrightarrow>
     recvWork lib addr_recv tx_send tx_recv s (s\<lparr>f_receiver := Selecting, f_acc := a'\<rparr>)"
| extend_panic: "f_receiver s = Extending resp \<Longrightarrow> extend_lookahead resp (f_acc s) = Inl e \<Longrightarrow>
     recvWork lib addr_recv tx_send tx_recv s (s\<lparr>f_receiver := ReceiverPanic e\<rparr>)"
| transaction: "f_receiver s = Selecting \<Longrightarrow> tx_recv (f_backend s) resp b' \<Longrightarrow>
     recvWork lib addr_recv tx_send tx_recv s
       (s\<lparr>f_backend := b', f_acc := file_transaction resp (f_acc s), f_rep := IncTxFetched (f_rep s)\<rparr>)"
| tick: "f_receiver s = Selecting \<Longrightarrow> complete (f_acc s) \<Longrightarrow>
     recvWork lib addr_recv tx_send tx_recv s (s\<lparr>f_receiver := Returned\<rparr>)"

text \<open>A step of the program: of the sender, of the receiver or of the backend; a panic ends it.\<close>

fun panicked :: "'b fetch \<Rightarrow> bool" where
  "panicked s \<longleftrightarrow> (\<exists>e. f_sender s = SenderPanic e) \<or> (\<exists>e. f_receiver s = ReceiverPanic e)"

declare panicked.simps [code del]

lemma panicked_code [code]:
  "panicked s \<longleftrightarrow> (case f_sender s of SenderPanic _ \<Rightarrow> True | _ \<Rightarrow> False) \<or>
     (case f_receiver s of ReceiverPanic _ \<Rightarrow> True | _ \<Rightarrow> False)"
  by (simp split: sender.splits receiver.splits)

inductive fetch_step ::
    "('k, 'p) btc_lib \<Rightarrow> ('b \<Rightarrow> 'b \<Rightarrow> bool) \<Rightarrow> (Address \<Rightarrow> 'b \<Rightarrow> 'b \<Rightarrow> bool)
      \<Rightarrow> ('b \<Rightarrow> AddrResponse \<Rightarrow> 'b \<Rightarrow> bool) \<Rightarrow> (string \<Rightarrow> 'b \<Rightarrow> 'b \<Rightarrow> bool)
      \<Rightarrow> ('b \<Rightarrow> TxResponse \<Rightarrow> 'b \<Rightarrow> bool) \<Rightarrow> 'b fetch \<Rightarrow> 'b fetch \<Rightarrow> bool"
  for lib work addr_send addr_recv tx_send tx_recv where
  send: "\<not> panicked s \<Longrightarrow> sendWork lib addr_send s s' \<Longrightarrow>
     fetch_step lib work addr_send addr_recv tx_send tx_recv s s'"
| recv: "\<not> panicked s \<Longrightarrow> recvWork lib addr_recv tx_send tx_recv s s' \<Longrightarrow>
     fetch_step lib work addr_send addr_recv tx_send tx_recv s s'"
| backend: "\<not> panicked s \<Longrightarrow> work (f_backend s) b' \<Longrightarrow>
     fetch_step lib work addr_send addr_recv tx_send tx_recv s (s\<lparr>f_backend := b'\<rparr>)"

section \<open>What holds while fetching\<close>

text \<open>The addresses requested so far, when the goroutine's two indexes are \<open>idx\<close>.\<close>

definition addr_of :: "('k, 'p) btc_lib \<Rightarrow> AddressDeriver \<Rightarrow> u32 \<Rightarrow> u32 \<Rightarrow> Address" where
  "addr_of lib d c i = projr (Derive lib d c i)"

definition asked_change :: "('k, 'p) btc_lib \<Rightarrow> AddressDeriver \<Rightarrow> u32 \<Rightarrow> u32 \<Rightarrow> Address list" where
  "asked_change lib d c n = map (\<lambda>k. addr_of lib d c (of_nat k)) [0..<unat n]"

definition asked :: "('k, 'p) btc_lib \<Rightarrow> AddressDeriver \<Rightarrow> u32 list \<Rightarrow> Address multiset" where
  "asked lib d idx = mset (asked_change lib d 0 (idx ! 0)) + mset (asked_change lib d 1 (idx ! 1))"

lemma asked_change_inc:
  "n < m \<Longrightarrow> asked_change lib d c (n + 1) = asked_change lib d c n @ [addr_of lib d c n]"
  by (simp add: asked_change_def unat_inc_no_wrap)

definition pending :: "sender \<Rightarrow> nat" where
  "pending p = (case p of Requesting _ _ _ \<Rightarrow> 1 | _ \<Rightarrow> 0)"

definition sender_ok :: "('k, 'p) btc_lib \<Rightarrow> AddressDeriver \<Rightarrow> u32 list \<Rightarrow> u32 list \<Rightarrow> sender \<Rightarrow> bool" where
  "sender_ok lib d lasts idx p =
     (case p of
        ReadBound c \<Rightarrow> c = 0 \<or> c = 1
      | Deriving c l \<Rightarrow> (c = 0 \<or> c = 1) \<and> l \<le> lasts ! unat c
      | Requesting c l addr \<Rightarrow> (c = 0 \<or> c = 1) \<and> l \<le> lasts ! unat c \<and> idx ! unat c < l \<and>
          Derive lib d c (idx ! unat c) = Inr addr
      | SenderPanic _ \<Rightarrow> True)"

definition sender_inv :: "('k, 'p) btc_lib \<Rightarrow> 'b fetch \<Rightarrow> bool" where
  "sender_inv lib s \<longleftrightarrow>
     length (f_indexes s) = 2 \<and> length (ac_lastAddresses (f_acc s)) = 2 \<and>
     f_indexes s ! 0 \<le> ac_lastAddresses (f_acc s) ! 0 \<and> f_indexes s ! 1 \<le> ac_lastAddresses (f_acc s) ! 1 \<and>
     ac_derivedAddrCount (f_acc s)
       = of_nat (unat (f_indexes s ! 0) + unat (f_indexes s ! 1) + pending (f_sender s)) \<and>
     sender_ok lib (ac_deriver (f_acc s)) (ac_lastAddresses (f_acc s)) (f_indexes s) (f_sender s)"

lemma two_cases: "unat (c :: u32) < 2 \<Longrightarrow> c = 0 \<or> c = 1"
  by (auto simp: word_unat_eq_iff less_2_cases_iff)

lemma inc_le: "(i :: u32) < l \<Longrightarrow> i + 1 \<le> l"
  by (simp add: inc_le)

lemma sendWork_sender_inv:
  assumes "sendWork lib addr_send s s'" and "sender_inv lib s"
  shows "sender_inv lib s'"
  using assms
proof (induction rule: sendWork.induct)
  case (read_bound s change lastAddr)
  then show ?case
    by (auto simp: sender_inv_def sender_ok_def pending_def getLastAddress_def at_index_Inr_iff)
next
  case (derive s change lastAddr addr)
  then show ?case
    by (auto simp: sender_inv_def sender_ok_def pending_def count_derived_def)
next
  case (derive_panic s change lastAddr e)
  then show ?case by (auto simp: sender_inv_def sender_ok_def pending_def)
next
  case (request s change lastAddr addr b')
  then have lt: "f_indexes s ! unat change < lastAddr" and c: "change = 0 \<or> change = 1"
    by (auto simp: sender_inv_def sender_ok_def)
  have "unat (f_indexes s ! unat change + 1) = unat (f_indexes s ! unat change) + 1"
    using lt by (simp add: unat_inc_no_wrap)
  moreover have "f_indexes s ! unat change + 1 \<le> ac_lastAddresses (f_acc s) ! unat change"
    using request inc_le [OF lt] by (auto simp: sender_inv_def sender_ok_def)
  ultimately show ?case
    using request c by (auto simp: sender_inv_def sender_ok_def pending_def)
next
  case (next_change s change lastAddr)
  then show ?case by (auto simp: sender_inv_def sender_ok_def pending_def)
qed

text \<open>The bound of each chain as the answers processed so far moved it.\<close>

definition move_bound :: "u32 \<Rightarrow> AddrResponse \<Rightarrow> u32 list \<Rightarrow> u32 list" where
  "move_bound lookahead r lasts =
     (if HasTransactions r then lasts[unat (Change (ar_Address r)) :=
        max (lasts ! unat (Change (ar_Address r))) (Index (ar_Address r) + lookahead)] else lasts)"

lemma extend_lookahead_eq:
  "extend_lookahead r a = Inr a' \<Longrightarrow>
     a' = a\<lparr>ac_lastAddresses := move_bound (ac_lookahead a) r (ac_lastAddresses a)\<rparr> \<and>
     (HasTransactions r \<longrightarrow> unat (Change (ar_Address r)) < length (ac_lastAddresses a))"
  by (auto simp: extend_lookahead_def move_bound_def Let_def sbind_Inr_iff at_index_Inr_iff
      set_index_Inr_iff Max_pair split: if_splits)

lemma move_bound_mono: "c < length lasts \<Longrightarrow> lasts ! c \<le> move_bound la r lasts ! c"
  by (cases "unat (Change (ar_Address r)) = c") (auto simp: move_bound_def)

lemma length_move_bound [simp]: "length (move_bound la r lasts) = length lasts"
  by (simp add: move_bound_def)

fun current :: "receiver \<Rightarrow> AddrResponse list" where
  "current (SeeTxs r _) = [r]"
| "current (Extending r) = [r]"
| "current _ = []"

definition bound_inv :: "'b fetch \<Rightarrow> AddrResponse list \<Rightarrow> bool" where
  "bound_inv s fin \<longleftrightarrow>
     ac_lastAddresses (f_acc s)
       = fold (move_bound (ac_lookahead (f_acc s))) fin [ac_lookahead (f_acc s), ac_lookahead (f_acc s)] \<and>
     (\<forall>r\<in>set fin. HasTransactions r \<longrightarrow> unat (Change (ar_Address r)) < 2)"

definition addr_inv ::
    "('k, 'p) btc_lib \<Rightarrow> (Address \<Rightarrow> AddrResponse) \<Rightarrow> ('b \<Rightarrow> AddrResponse multiset) \<Rightarrow> 'b fetch
      \<Rightarrow> AddrResponse list \<Rightarrow> bool" where
  "addr_inv lib addr_answer addr_owed s fin \<longleftrightarrow>
     image_mset addr_answer (asked lib (ac_deriver (f_acc s)) (f_indexes s))
       = mset (fin @ current (f_receiver s)) + addr_owed (f_backend s) \<and>
     ac_processedAddrCount (f_acc s) = of_nat (length (fin @ current (f_receiver s))) \<and>
     dom (ac_addresses (f_acc s))
       = {sc. \<exists>r\<in>set (fin @ current (f_receiver s)). Address_Script lib (ar_Address r) = Inr sc}"

definition filed_tx :: "TxResponse \<Rightarrow> transaction" where
  "filed_tx t = \<lparr>at_height = tr_Height t, at_hex = tr_Hex t, at_vin = [], at_vout = []\<rparr>"

fun todo :: "receiver \<Rightarrow> string list" where
  "todo (SeeTxs _ hs) = hs"
| "todo _ = []"

definition tx_inv ::
    "(string \<Rightarrow> TxResponse option) \<Rightarrow> ('b \<Rightarrow> TxResponse multiset) \<Rightarrow> 'b fetch
      \<Rightarrow> AddrResponse list \<Rightarrow> TxResponse list \<Rightarrow> string list \<Rightarrow> bool" where
  "tx_inv tx_answer tx_owed s fin files reqs \<longleftrightarrow>
     mset files + tx_owed (f_backend s) = mset (map (the \<circ> tx_answer) (filter (\<lambda>h. tx_answer h \<noteq> None) reqs)) \<and>
     ac_seenTxCount (f_acc s) = of_nat (length reqs) \<and>
     ac_processedTxCount (f_acc s) = of_nat (length files) \<and>
     ac_transactions (f_acc s)
       = (\<lambda>h. if h \<in> tr_Hash ` set files then map_option filed_tx (tx_answer h) else None) \<and>
     (\<forall>r\<in>set fin. set (ar_TxHashes r) \<subseteq> set reqs) \<and>
     (\<forall>r\<in>set (current (f_receiver s)). set (ar_TxHashes r) \<subseteq> set reqs \<union> set (todo (f_receiver s)) \<and>
        set (todo (f_receiver s)) \<subseteq> set (ar_TxHashes r)) \<and>
     set reqs \<subseteq> (\<Union>r\<in>set (fin @ current (f_receiver s)). set (ar_TxHashes r)) \<and>
     length reqs + length (todo (f_receiver s))
       \<le> sum_list (map (length \<circ> ar_TxHashes) (fin @ current (f_receiver s)))"

lemma file_address_eq:
  "file_address lib r a = Inr a' \<Longrightarrow> \<exists>sc. Address_Script lib (ar_Address r) = Inr sc \<and>
     a' = a\<lparr>ac_processedAddrCount := ac_processedAddrCount a + 1, ac_addresses := (ac_addresses a)(sc \<mapsto>
       \<lparr>aa_path = ar_Address r, aa_txHashes = ar_TxHashes r\<rparr>)\<rparr>"
  by (auto simp: file_address_def Let_def sbind_Inr_iff)

lemma recvWork_sender_inv:
  assumes "recvWork lib addr_recv tx_send tx_recv s s'" and "sender_inv lib s"
  shows "sender_inv lib s'"
  using assms
proof (induction rule: recvWork.induct)
  case (address s resp b' a')
  then show ?case by (auto simp: sender_inv_def dest!: file_address_eq)
next
  case (extend s resp a')
  let ?l = "ac_lastAddresses (f_acc s)" and ?l' = "ac_lastAddresses a'"
  have a': "a' = (f_acc s)\<lparr>ac_lastAddresses := move_bound (ac_lookahead (f_acc s)) resp ?l\<rparr>"
    using extend_lookahead_eq [OF extend(2)] by simp
  have len: "length ?l = 2" using extend by (simp add: sender_inv_def)
  then have m: "?l ! 0 \<le> ?l' ! 0" "?l ! Suc 0 \<le> ?l' ! Suc 0"
    by (simp_all add: a' move_bound_mono)
  have "sender_ok lib (ac_deriver (f_acc s)) ?l' (f_indexes s) (f_sender s)"
    using extend m by (auto simp: sender_inv_def sender_ok_def split: sender.splits)
  then show ?case
    using extend m len order.trans by (fastforce simp: sender_inv_def a')
qed (auto simp: sender_inv_def count_seen_def file_transaction_def)

context backend_contract
begin

definition fetch_inv :: "('k, 'p) btc_lib \<Rightarrow> 'b fetch \<Rightarrow> AddrResponse list \<Rightarrow> TxResponse list \<Rightarrow> string list \<Rightarrow> bool" where
  "fetch_inv lib s fin files reqs \<longleftrightarrow>
     binv (f_backend s) \<and> sender_inv lib s \<and> bound_inv s fin \<and>
     addr_inv lib addr_answer addr_owed s fin \<and> tx_inv tx_answer tx_owed s fin files reqs"

lemma sendWork_inv:
  assumes "sendWork lib addr_send s s'" and "fetch_inv lib s fin files reqs"
  shows "fetch_inv lib s' fin files reqs"
proof -
  have si: "sender_inv lib s'" and inv: "binv (f_backend s)" "bound_inv s fin"
    "addr_inv lib addr_answer addr_owed s fin" "tx_inv tx_answer tx_owed s fin files reqs" "sender_inv lib s"
    using assms sendWork_sender_inv by (auto simp: fetch_inv_def)
  from assms(1) inv have "binv (f_backend s') \<and> bound_inv s' fin \<and>
      addr_inv lib addr_answer addr_owed s' fin \<and> tx_inv tx_answer tx_owed s' fin files reqs"
  proof (induction rule: sendWork.induct)
    case (request s change lastAddr addr b')
    have lt: "f_indexes s ! unat change < lastAddr" and c: "change = 0 \<or> change = 1"
      and addr: "addr = addr_of lib (ac_deriver (f_acc s)) change (f_indexes s ! unat change)"
      using request by (auto simp: sender_inv_def sender_ok_def addr_of_def)
    have "asked lib (ac_deriver (f_acc s)) ((f_indexes s)[unat change := f_indexes s ! unat change + 1])
        = add_mset addr (asked lib (ac_deriver (f_acc s)) (f_indexes s))"
      using c request(7) lt by (auto simp: asked_def addr asked_change_inc sender_inv_def)
    then show ?case
      using request addr_send_owed [OF request(3,2)]
      by (simp add: bound_inv_def addr_inv_def tx_inv_def)
  qed (auto simp: bound_inv_def addr_inv_def tx_inv_def count_derived_def)
  then show ?thesis using si by (simp add: fetch_inv_def)
qed

lemma tx_answers:
  assumes "tx_inv tx_answer tx_owed s fin files reqs" and "t \<in># mset files + tx_owed (f_backend s)"
  shows "tx_answer (tr_Hash t) = Some t \<and> tr_Hash t \<in> set reqs"
proof -
  have "mset files + tx_owed (f_backend s) = mset (map (the \<circ> tx_answer) (filter (\<lambda>h. tx_answer h \<noteq> None) reqs))"
    using assms(1) by (simp add: tx_inv_def)
  then have "t \<in># mset (map (the \<circ> tx_answer) (filter (\<lambda>h. tx_answer h \<noteq> None) reqs))"
    using assms(2) by simp
  then obtain h where "h \<in> set reqs" "tx_answer h = Some t" by auto
  then show ?thesis using tx_answer_hash by auto
qed

lemma recvWork_inv:
  assumes "recvWork lib addr_recv tx_send tx_recv s s'" and "fetch_inv lib s fin files reqs"
    and "\<not> panicked s'"
  shows "\<exists>fin files reqs. fetch_inv lib s' fin files reqs"
proof -
  have si: "sender_inv lib s'" and inv: "binv (f_backend s)" "bound_inv s fin"
    "addr_inv lib addr_answer addr_owed s fin" "tx_inv tx_answer tx_owed s fin files reqs"
    using assms recvWork_sender_inv by (auto simp: fetch_inv_def)
  from assms(1) inv assms(3) have "\<exists>fin files reqs. binv (f_backend s') \<and> bound_inv s' fin \<and>
      addr_inv lib addr_answer addr_owed s' fin \<and> tx_inv tx_answer tx_owed s' fin files reqs"
  proof (induction rule: recvWork.induct)
    case (address s resp b' a')
    obtain sc where "Address_Script lib (ar_Address resp) = Inr sc"
      and "a' = (f_acc s)\<lparr>ac_processedAddrCount := ac_processedAddrCount (f_acc s) + 1,
        ac_addresses := (ac_addresses (f_acc s))(sc \<mapsto> \<lparr>aa_path = ar_Address resp, aa_txHashes = ar_TxHashes resp\<rparr>)\<rparr>"
      using file_address_eq [OF address(3)] by blast
    then show ?case
      using address addr_recv_owed [OF address(4,2)]
      by (intro exI [of _ fin] exI [of _ files] exI [of _ reqs])
        (auto simp: bound_inv_def addr_inv_def tx_inv_def)
  next
    case (known s resp h hs)
    have "h \<in> tr_Hash ` set files"
      using known(2,6) by (auto simp: unseen_def tx_inv_def split: if_splits)
    then have "h \<in> set reqs" using tx_answers [OF known(6)] by auto
    then show ?case
      using known
      by (intro exI [of _ fin] exI [of _ files] exI [of _ reqs])
        (auto simp: bound_inv_def addr_inv_def tx_inv_def)
  next
    case (unknown s resp h hs b')
    have "binv b' \<and> addr_owed b' = addr_owed (f_backend s) \<and> tx_owed b' =
        tx_owed (f_backend s) + mset (map (the \<circ> tx_answer) (filter (\<lambda>h. tx_answer h \<noteq> None) [h]))"
      using tx_send_owed [OF unknown(4,3)] by (auto split: option.splits)
    then show ?case
      using unknown
      by (intro exI [of _ fin] exI [of _ files] exI [of _ "reqs @ [h]"])
        (auto simp: bound_inv_def addr_inv_def tx_inv_def count_seen_def)
  next
    case (unlock s resp)
    then show ?case
      by (intro exI [of _ fin] exI [of _ files] exI [of _ reqs])
        (auto simp: bound_inv_def addr_inv_def tx_inv_def)
  next
    case (extend s resp a')
    have a': "a' = (f_acc s)\<lparr>ac_lastAddresses :=
        move_bound (ac_lookahead (f_acc s)) resp (ac_lastAddresses (f_acc s))\<rparr>"
      and c: "HasTransactions resp \<Longrightarrow> unat (Change (ar_Address resp)) < length (ac_lastAddresses (f_acc s))"
      using extend_lookahead_eq [OF extend(2)] by auto
    have len: "length (fold (move_bound la) rs l) = length l" for la rs and l :: "u32 list"
      by (induction rs arbitrary: l) auto
    show ?case
      using extend c
      by (intro exI [of _ "fin @ [resp]"] exI [of _ files] exI [of _ reqs])
        (auto simp: bound_inv_def addr_inv_def tx_inv_def a' len)
  next
    case (transaction s t b')
    have o: "binv b' \<and> addr_owed b' = addr_owed (f_backend s) \<and> tx_owed (f_backend s) = add_mset t (tx_owed b')"
      using tx_recv_owed [OF transaction(3,2)] .
    then have t: "tx_answer (tr_Hash t) = Some t"
      using tx_answers [OF transaction(6), of t] by simp
    then have "(ac_transactions (f_acc s))(tr_Hash t \<mapsto> filed_tx t)
        = (\<lambda>h. if h \<in> tr_Hash ` set (files @ [t]) then map_option filed_tx (tx_answer h) else None)"
      using transaction(6) by (auto simp: tx_inv_def fun_eq_iff)
    then show ?case
      using transaction o
      by (intro exI [of _ fin] exI [of _ "files @ [t]"] exI [of _ reqs])
        (auto simp: bound_inv_def addr_inv_def tx_inv_def file_transaction_def filed_tx_def)
  next
    case (tick s)
    then show ?case
      by (intro exI [of _ fin] exI [of _ files] exI [of _ reqs])
        (auto simp: bound_inv_def addr_inv_def tx_inv_def)
  qed auto
  then show ?thesis using si by (simp add: fetch_inv_def)
qed

end

text \<open>
  What the accounter holds when fetching is over, for the final bounds \<open>lasts\<close>: every address below
  the bounds was answered and filed under its script, exactly the transactions the answers list
  are held, with the content of their own answers, and each bound is the least it can be given
  the answers.
\<close>

definition answers ::
    "('k, 'p) btc_lib \<Rightarrow> AddressDeriver \<Rightarrow> (Address \<Rightarrow> AddrResponse) \<Rightarrow> u32 list \<Rightarrow> AddrResponse multiset" where
  "answers lib d addr_answer lasts = image_mset addr_answer (asked lib d lasts)"

definition listed ::
    "('k, 'p) btc_lib \<Rightarrow> AddressDeriver \<Rightarrow> (Address \<Rightarrow> AddrResponse) \<Rightarrow> u32 list \<Rightarrow> string set" where
  "listed lib d addr_answer lasts = (\<Union>r\<in>set_mset (answers lib d addr_answer lasts). set (ar_TxHashes r))"

definition closed_bounds ::
    "('k, 'p) btc_lib \<Rightarrow> AddressDeriver \<Rightarrow> u32 \<Rightarrow> (Address \<Rightarrow> AddrResponse) \<Rightarrow> u32 list \<Rightarrow> bool" where
  "closed_bounds lib d lookahead addr_answer K \<longleftrightarrow>
     length K = 2 \<and> lookahead \<le> K ! 0 \<and> lookahead \<le> K ! 1 \<and>
     (\<forall>r\<in>#answers lib d addr_answer K. HasTransactions r \<longrightarrow> unat (Change (ar_Address r)) < 2 \<longrightarrow>
        Index (ar_Address r) + lookahead \<le> K ! unat (Change (ar_Address r)))"

definition fetched ::
    "('k, 'p) btc_lib \<Rightarrow> AddressDeriver \<Rightarrow> u32 \<Rightarrow> (Address \<Rightarrow> AddrResponse) \<Rightarrow> (string \<Rightarrow> TxResponse option)
      \<Rightarrow> accounter \<Rightarrow> bool" where
  "fetched lib d lookahead addr_answer tx_answer a \<longleftrightarrow>
     closed_bounds lib d lookahead addr_answer (ac_lastAddresses a) \<and>
     (\<forall>h\<in>listed lib d addr_answer (ac_lastAddresses a). tx_answer h \<noteq> None) \<and>
     ac_transactions a
       = (\<lambda>h. if h \<in> listed lib d addr_answer (ac_lastAddresses a) then map_option filed_tx (tx_answer h) else None) \<and>
     dom (ac_addresses a)
       = {sc. \<exists>r\<in>#answers lib d addr_answer (ac_lastAddresses a). Address_Script lib (ar_Address r) = Inr sc}"

text \<open>The counters do not wrap around: fewer than 2^32 addresses and transaction requests.\<close>

definition counts_fit ::
    "('k, 'p) btc_lib \<Rightarrow> AddressDeriver \<Rightarrow> (Address \<Rightarrow> AddrResponse) \<Rightarrow> u32 list \<Rightarrow> bool" where
  "counts_fit lib d addr_answer lasts \<longleftrightarrow>
     unat (lasts ! 0) + unat (lasts ! 1) < 2 ^ 32 \<and>
     (\<Sum>r\<in>#answers lib d addr_answer lasts. length (ar_TxHashes r)) < 2 ^ 32"

lemma of_nat_inj: "(of_nat m :: u32) = of_nat n \<Longrightarrow> m < 2 ^ 32 \<Longrightarrow> n < 2 ^ 32 \<Longrightarrow> m = n"
  by (drule arg_cong [of _ _ unat]) (simp add: unat_of_nat)

lemma size_asked: "size (asked lib d idx) = unat (idx ! 0) + unat (idx ! 1)"
  by (simp add: asked_def asked_change_def)

lemma length_move_bounds [simp]: "length (fold (move_bound la) rs lasts) = length lasts"
  by (induction rs arbitrary: lasts) auto

lemma move_bounds_mono: "c < length lasts \<Longrightarrow> lasts ! c \<le> fold (move_bound la) rs lasts ! c"
proof (induction rs arbitrary: lasts)
  case (Cons r rs)
  have "lasts ! c \<le> move_bound la r lasts ! c" using Cons.prems by (rule move_bound_mono)
  also have "\<dots> \<le> fold (move_bound la) rs (move_bound la r lasts) ! c" using Cons by simp
  finally show ?case by simp
qed simp

lemma move_bounds_above:
  "r \<in> set rs \<Longrightarrow> HasTransactions r \<Longrightarrow> unat (Change (ar_Address r)) < length lasts \<Longrightarrow>
    Index (ar_Address r) + la \<le> fold (move_bound la) rs lasts ! unat (Change (ar_Address r))"
proof (induction rs arbitrary: lasts)
  case (Cons r' rs)
  let ?c = "unat (Change (ar_Address r))"
  show ?case
  proof (cases "r = r'")
    case True
    have "Index (ar_Address r) + la \<le> move_bound la r' lasts ! ?c"
      using Cons.prems True by (simp add: move_bound_def)
    also have "\<dots> \<le> fold (move_bound la) rs (move_bound la r' lasts) ! ?c"
      using Cons.prems by (intro move_bounds_mono) simp
    finally show ?thesis by simp
  next
    case False
    then show ?thesis using Cons by simp
  qed
qed simp

lemma move_bound_below:
  assumes "c < length lasts" and "lasts ! c \<le> k"
    and "HasTransactions r \<Longrightarrow> unat (Change (ar_Address r)) = c \<Longrightarrow> Index (ar_Address r) + la \<le> k"
  shows "move_bound la r lasts ! c \<le> k"
  using assms by (cases "unat (Change (ar_Address r)) = c") (auto simp: move_bound_def)

lemma complete_counts:
  assumes "sender_inv lib s" and "addr_inv lib addr_answer addr_owed s fin"
    and "f_receiver s = Selecting" and "complete (f_acc s)"
    and "unat (ac_lastAddresses (f_acc s) ! 0) + unat (ac_lastAddresses (f_acc s) ! 1) < 2 ^ 32"
  shows "f_indexes s = ac_lastAddresses (f_acc s) \<and> addr_owed (f_backend s) = {#}"
proof -
  let ?i = "f_indexes s" and ?l = "ac_lastAddresses (f_acc s)"
  have le: "unat (?i ! 0) \<le> unat (?l ! 0)" "unat (?i ! 1) \<le> unat (?l ! 1)"
    using assms(1) by (simp_all add: sender_inv_def word_le_nat_alt)
  have "size (asked lib (ac_deriver (f_acc s)) ?i) = length fin + size (addr_owed (f_backend s))"
    using arg_cong [of _ _ size, OF conjunct1 [OF assms(2) [unfolded addr_inv_def]]] assms(3) by simp
  then have fin: "length fin + size (addr_owed (f_backend s)) = unat (?i ! 0) + unat (?i ! 1)"
    by (simp add: size_asked)
  have "(of_nat (length fin) :: u32) = ?l ! 0 + ?l ! 1"
    using assms(2,3,4) by (auto simp: addr_inv_def complete_def Let_def)
  then have "(of_nat (length fin) :: u32) = of_nat (unat (?l ! 0) + unat (?l ! 1))" by simp
  then have "length fin = unat (?l ! 0) + unat (?l ! 1)"
    by (rule of_nat_inj) (use fin le assms(5) in linarith)+
  then have "unat (?i ! 0) = unat (?l ! 0)" "unat (?i ! 1) = unat (?l ! 1)"
    and owed: "size (addr_owed (f_backend s)) = 0" using fin le by linarith+
  then have "?i ! 0 = ?l ! 0" "?i ! 1 = ?l ! 1" by (simp_all add: word_unat_eq_iff)
  moreover have "length ?i = 2" "length ?l = 2" using assms(1) by (simp_all add: sender_inv_def)
  ultimately have "?i = ?l" by (intro nth_equalityI) (auto simp: less_2_cases_iff)
  then show ?thesis using owed by simp
qed

lemma asked_mono:
  assumes "idx ! 0 \<le> K ! 0" and "idx ! 1 \<le> K ! 1"
  shows "set_mset (asked lib d idx) \<subseteq> set_mset (asked lib d K)"
proof -
  have "set (asked_change lib d c n) \<subseteq> set (asked_change lib d c m)" if "n \<le> m" for c n m
    using that by (auto simp: asked_change_def word_le_nat_alt)
  then show ?thesis using assms by (auto simp: asked_def)
qed

definition within :: "'b fetch \<Rightarrow> u32 list \<Rightarrow> bool" where
  "within s K \<longleftrightarrow> ac_lastAddresses (f_acc s) ! 0 \<le> K ! 0 \<and> ac_lastAddresses (f_acc s) ! 1 \<le> K ! 1"

text \<open>The parameters of the accounter.\<close>

definition params :: "accounter \<Rightarrow> AddressDeriver \<times> u32 \<times> u32" where
  "params a = (ac_deriver a, ac_lookahead a, ac_blockHeight a)"

lemma sendWork_params:
  "sendWork lib addr_send s s' \<Longrightarrow> params (f_acc s') = params (f_acc s) \<and>
     ac_transactions (f_acc s') = ac_transactions (f_acc s) \<and> ac_addresses (f_acc s') = ac_addresses (f_acc s) \<and>
     ac_lastAddresses (f_acc s') = ac_lastAddresses (f_acc s) \<and> f_receiver s' = f_receiver s"
  by (induction rule: sendWork.induct) (auto simp: params_def count_derived_def)

lemma recvWork_params: "recvWork lib addr_recv tx_send tx_recv s s' \<Longrightarrow> params (f_acc s') = params (f_acc s)"
  by (induction rule: recvWork.induct)
    (auto simp: params_def count_seen_def file_transaction_def dest!: file_address_eq extend_lookahead_eq)

lemma recvWork_from_returned: "recvWork lib addr_recv tx_send tx_recv s s' \<Longrightarrow> f_receiver s \<noteq> Returned"
  by (induction rule: recvWork.induct) auto

lemma recvWork_returns:
  "recvWork lib addr_recv tx_send tx_recv s s' \<Longrightarrow> f_receiver s' = Returned \<Longrightarrow>
     f_receiver s = Selecting \<and> complete (f_acc s) \<and> s' = s\<lparr>f_receiver := Returned\<rparr>"
  by (induction rule: recvWork.induct) auto

context backend_contract
begin

lemma within_step:
  assumes "recvWork lib addr_recv tx_send tx_recv s s'" and "fetch_inv lib s fin files reqs"
    and "within s K" and "closed_bounds lib (ac_deriver (f_acc s)) (ac_lookahead (f_acc s)) addr_answer K"
  shows "within s' K"
  using assms
proof (induction rule: recvWork.induct)
  case (extend s resp a')
  let ?l = "ac_lastAddresses (f_acc s)" and ?d = "ac_deriver (f_acc s)"
  have a': "a' = (f_acc s)\<lparr>ac_lastAddresses := move_bound (ac_lookahead (f_acc s)) resp ?l\<rparr>"
    and c: "HasTransactions resp \<Longrightarrow> unat (Change (ar_Address resp)) < length ?l"
    using extend_lookahead_eq [OF extend(2)] by auto
  have inv: "sender_inv lib s" "addr_inv lib addr_answer addr_owed s fin"
    using extend(3) by (auto simp: fetch_inv_def)
  then have len: "length ?l = 2" by (simp add: sender_inv_def)
  have "resp \<in># image_mset addr_answer (asked lib ?d (f_indexes s))"
    using inv(2) extend(1) by (simp add: addr_inv_def)
  moreover have "set_mset (asked lib ?d (f_indexes s)) \<subseteq> set_mset (asked lib ?d K)"
    using inv(1) extend(4) by (intro asked_mono) (auto simp: sender_inv_def within_def)
  ultimately have "resp \<in># answers lib ?d addr_answer K" by (auto simp: answers_def)
  then have "HasTransactions resp \<Longrightarrow>
      Index (ar_Address resp) + ac_lookahead (f_acc s) \<le> K ! unat (Change (ar_Address resp))"
    using extend(5) c len by (auto simp: closed_bounds_def)
  then show ?case
    using extend(4) len by (auto simp: within_def a' intro!: move_bound_below)
qed (auto simp: within_def count_seen_def file_transaction_def dest!: file_address_eq)

lemma complete_fetched:
  assumes inv: "fetch_inv lib s fin files reqs" and sel: "f_receiver s = Selecting" "complete (f_acc s)"
    and fit: "counts_fit lib (ac_deriver (f_acc s)) addr_answer (ac_lastAddresses (f_acc s))"
  shows "fetched lib (ac_deriver (f_acc s)) (ac_lookahead (f_acc s)) addr_answer tx_answer (f_acc s)"
proof -
  let ?d = "ac_deriver (f_acc s)" and ?l = "ac_lastAddresses (f_acc s)" and ?la = "ac_lookahead (f_acc s)"
  have si: "sender_inv lib s" and ai: "addr_inv lib addr_answer addr_owed s fin"
    and ti: "tx_inv tx_answer tx_owed s fin files reqs" and bi: "bound_inv s fin"
    using inv by (auto simp: fetch_inv_def)
  have idx: "f_indexes s = ?l" and owed: "addr_owed (f_backend s) = {#}"
    using complete_counts [OF si ai sel] fit by (simp_all add: counts_fit_def)
  have ans: "answers lib ?d addr_answer ?l = mset fin"
    using ai sel(1) idx owed by (simp add: addr_inv_def answers_def)
  have reqs: "set reqs = listed lib ?d addr_answer ?l"
    using ti sel(1) by (fastforce simp: tx_inv_def listed_def ans)
  have "length reqs \<le> sum_list (map (length \<circ> ar_TxHashes) fin)"
    using ti sel(1) by (simp add: tx_inv_def)
  also have "\<dots> < 2 ^ 32"
    using fit by (simp add: counts_fit_def ans comp_def sum_mset_sum_list flip: mset_map)
  finally have small: "length reqs < 2 ^ 32" .
  let ?some = "filter (\<lambda>h. tx_answer h \<noteq> None) reqs"
  have split: "mset files + tx_owed (f_backend s) = mset (map (the \<circ> tx_answer) ?some)"
    and cnt: "(of_nat (length reqs) :: u32) = of_nat (length files)"
    using ti sel(2) by (auto simp: tx_inv_def complete_def Let_def)
  have "length files + size (tx_owed (f_backend s)) = length ?some"
    using arg_cong [OF split, of size] by (simp only: size_union size_mset length_map)
  moreover have some: "length ?some \<le> length reqs" by simp
  moreover have "length reqs = length files"
    by (rule of_nat_inj [OF cnt small]) (use calculation small in linarith)
  ultimately have "length ?some = length reqs" and "size (tx_owed (f_backend s)) = 0" by linarith+
  then have "length ?some = length reqs" and none: "tx_owed (f_backend s) = {#}" by simp_all
  then have all: "tx_answer h \<noteq> None" if "h \<in> set reqs" for h
    using length_filter_less [OF that, of "\<lambda>h. tx_answer h \<noteq> None"] \<open>length ?some = length reqs\<close>
    by (cases "tx_answer h") (simp_all only: not_None_eq, simp_all)
  have "tr_Hash ` set files = set reqs"
  proof -
    have "set files = (the \<circ> tx_answer) ` set reqs"
      using arg_cong [OF split, of set_mset] none all by auto
    moreover have "tr_Hash (the (tx_answer h)) = h" if "h \<in> set reqs" for h
      using all [OF that] tx_answer_hash by auto
    ultimately show ?thesis by (force simp: image_iff)
  qed
  then have txs: "ac_transactions (f_acc s)
      = (\<lambda>h. if h \<in> listed lib ?d addr_answer ?l then map_option filed_tx (tx_answer h) else None)"
    using ti reqs by (simp add: tx_inv_def)
  have "closed_bounds lib ?d ?la addr_answer ?l"
    unfolding closed_bounds_def ans
    using bi move_bounds_mono [of 0 "[?la, ?la]" ?la fin] move_bounds_mono [of 1 "[?la, ?la]" ?la fin]
      move_bounds_above [of _ fin "[?la, ?la]" ?la]
    by (auto simp: bound_inv_def)
  moreover have "dom (ac_addresses (f_acc s)) = {sc. \<exists>r\<in>#mset fin. Address_Script lib (ar_Address r) = Inr sc}"
    using ai sel(1) by (simp add: addr_inv_def)
  ultimately show ?thesis
    using txs all reqs by (simp add: fetched_def ans)
qed

lemma fetch_inv_start:
  assumes "binv b" and "addr_owed b = {#}" and "tx_owed b = {#}"
  shows "fetch_inv lib (fetch_start (New d la bh) rep b) [] [] []"
  using assms
  by (simp add: fetch_inv_def fetch_start_def New_def sender_inv_def sender_ok_def pending_def bound_inv_def
      addr_inv_def asked_def asked_change_def tx_inv_def)

definition reached :: "('k, 'p) btc_lib \<Rightarrow> AddressDeriver \<Rightarrow> u32 \<Rightarrow> u32 \<Rightarrow> 'b fetch \<Rightarrow> bool" where
  "reached lib d la bh s \<longleftrightarrow>
     params (f_acc s) = (d, la, bh) \<and>
     (\<forall>K. closed_bounds lib d la addr_answer K \<longrightarrow> within s K) \<and>
     (\<exists>fin files reqs. fetch_inv lib s fin files reqs) \<and>
     (f_receiver s = Returned \<longrightarrow> counts_fit lib d addr_answer (ac_lastAddresses (f_acc s)) \<longrightarrow>
        fetched lib d la addr_answer tx_answer (f_acc s))"

lemma reached_step:
  assumes "fetch_step lib work addr_send addr_recv tx_send tx_recv s s'" and "reached lib d la bh s"
    and "\<not> panicked s'"
  shows "reached lib d la bh s'"
  using assms
proof (induction rule: fetch_step.induct)
  case (send s s')
  then obtain fin files reqs where "fetch_inv lib s fin files reqs" by (auto simp: reached_def)
  then have "fetch_inv lib s' fin files reqs" by (rule sendWork_inv [OF send(2)])
  then show ?case
    using send(3) sendWork_params [OF send(2)] by (auto simp: reached_def within_def fetched_def)
next
  case (recv s s')
  then obtain fin files reqs where inv: "fetch_inv lib s fin files reqs" by (auto simp: reached_def)
  have p: "ac_deriver (f_acc s) = d" "ac_lookahead (f_acc s) = la" using recv(3) by (auto simp: reached_def params_def)
  have "within s' K" if "closed_bounds lib d la addr_answer K" for K
    using within_step [OF recv(2) inv] recv(3) that by (simp add: p reached_def)
  moreover have "fetched lib d la addr_answer tx_answer (f_acc s')"
    if "f_receiver s' = Returned" "counts_fit lib d addr_answer (ac_lastAddresses (f_acc s'))"
    using complete_fetched [OF inv] recvWork_returns [OF recv(2) that(1)] that(2) by (auto simp: p)
  ultimately show ?case
    using recv(3) recvWork_params [OF recv(2)] recvWork_inv [OF recv(2) inv recv(4)]
    by (auto simp: reached_def)
next
  case (backend s b')
  then have "binv (f_backend s)" by (auto simp: reached_def fetch_inv_def)
  then show ?case
    using backend(3) work_owed [OF _ backend(2)]
    by (simp add: reached_def within_def fetch_inv_def sender_inv_def bound_inv_def addr_inv_def tx_inv_def)
qed

lemma panicked_stays:
  "fetch_step lib work addr_send addr_recv tx_send tx_recv s s' \<Longrightarrow> \<not> panicked s"
  by (induction rule: fetch_step.induct) auto

lemma fetch_reached:
  assumes "(fetch_step lib work addr_send addr_recv tx_send tx_recv)\<^sup>*\<^sup>* (fetch_start (New d la bh) rep b) s"
    and "binv b" and "addr_owed b = {#}" and "tx_owed b = {#}" and "\<not> panicked s"
  shows "reached lib d la bh s"
  using assms(1,5)
proof (induction rule: rtranclp_induct)
  case base
  have "fetch_inv lib (fetch_start (New d la bh) rep b) [] [] []"
    using assms(2-4) by (rule fetch_inv_start)
  then show ?case
    by (auto simp: reached_def params_def within_def fetch_start_def New_def closed_bounds_def)
next
  case (step s s')
  then show ?case using reached_step panicked_stays by blast
qed

text \<open>A completed fetch: what it holds, and its bounds are the least ones.\<close>

lemma fetch_completed:
  assumes "(fetch_step lib work addr_send addr_recv tx_send tx_recv)\<^sup>*\<^sup>* (fetch_start (New d la bh) rep b) s"
    and "binv b" and "addr_owed b = {#}" and "tx_owed b = {#}" and "\<not> panicked s"
    and "f_receiver s = Returned" and "counts_fit lib d addr_answer (ac_lastAddresses (f_acc s))"
  shows "fetched lib d la addr_answer tx_answer (f_acc s) \<and> ac_blockHeight (f_acc s) = bh \<and>
    (\<forall>K. closed_bounds lib d la addr_answer K \<longrightarrow> within s K)"
  using fetch_reached [OF assms(1-5)] assms(6,7) by (auto simp: reached_def params_def)

end

section \<open>Fetching without panics\<close>

text \<open>
  Parameters for which nothing panics: every index below the bounds derives, and every answer has a
  script and, when it has transactions, one of the two chains.
\<close>

definition servable :: "('k, 'p) btc_lib \<Rightarrow> AddressDeriver \<Rightarrow> (Address \<Rightarrow> AddrResponse) \<Rightarrow> u32 list \<Rightarrow> bool" where
  "servable lib d addr_answer K \<longleftrightarrow>
     (\<forall>c i. (c = 0 \<or> c = 1) \<longrightarrow> i < K ! unat c \<longrightarrow> \<not> isl (Derive lib d c i)) \<and>
     (\<forall>r\<in>#answers lib d addr_answer K. \<not> isl (Address_Script lib (ar_Address r)) \<and>
        (HasTransactions r \<longrightarrow> unat (Change (ar_Address r)) < 2))"

definition least_bounds ::
    "('k, 'p) btc_lib \<Rightarrow> AddressDeriver \<Rightarrow> u32 \<Rightarrow> (Address \<Rightarrow> AddrResponse) \<Rightarrow> u32 list \<Rightarrow> bool" where
  "least_bounds lib d lookahead addr_answer K \<longleftrightarrow>
     closed_bounds lib d lookahead addr_answer K \<and>
     (\<forall>K'. closed_bounds lib d lookahead addr_answer K' \<longrightarrow> K ! 0 \<le> K' ! 0 \<and> K ! 1 \<le> K' ! 1)"

lemma asked_subset:
  assumes "l ! 0 \<le> K ! 0" and "l ! 1 \<le> K ! 1"
  shows "asked lib d l \<subseteq># asked lib d K"
proof -
  have "mset (asked_change lib d c n) \<subseteq># mset (asked_change lib d c m)" if "n \<le> m" for c n m
  proof -
    have "[0..<unat m] = [0..<unat n] @ [unat n..<unat m]"
      using that upt_add_eq_append [of 0 "unat n" "unat m - unat n"] by (simp add: word_le_nat_alt)
    then show ?thesis by (simp add: asked_change_def)
  qed
  then show ?thesis
    using assms by (auto simp: asked_def intro: subset_mset.add_mono)
qed

lemma counts_fit_antimono:
  assumes "counts_fit lib d ans K" and "l ! 0 \<le> K ! 0" and "l ! 1 \<le> K ! 1"
  shows "counts_fit lib d ans l"
proof -
  have "asked lib d l \<subseteq># asked lib d K" by (rule asked_subset [OF assms(2,3)])
  then obtain M where "asked lib d K = asked lib d l + M" by (auto simp: mset_subset_eq_exists_conv)
  then show ?thesis
    using assms by (auto simp: counts_fit_def answers_def word_le_nat_alt)
qed

lemma extend_lookahead_Inl: "length (ac_lastAddresses a) = 2 \<Longrightarrow>
    extend_lookahead r a = Inl e \<Longrightarrow> HasTransactions r \<and> \<not> unat (Change (ar_Address r)) < 2"
  by (cases "unat (Change (ar_Address r)) < 2")
    (auto simp: extend_lookahead_def Let_def at_index_def set_index_def split: if_splits)

context backend_contract
begin

lemma sender_no_panic:
  assumes "sendWork lib addr_send s s'" and "\<not> panicked s" and "fetch_inv lib s fin files reqs"
    and "within s K" and "servable lib (ac_deriver (f_acc s)) addr_answer K"
  shows "\<not> panicked s'"
  using assms
proof (induction rule: sendWork.induct)
  case (derive_panic s change lastAddr e)
  have "change = 0 \<or> change = 1" and "lastAddr \<le> ac_lastAddresses (f_acc s) ! unat change"
    using derive_panic by (auto simp: fetch_inv_def sender_inv_def sender_ok_def)
  moreover have "f_indexes s ! unat change < lastAddr" by fact
  ultimately have "f_indexes s ! unat change < K ! unat change"
    using derive_panic(6) by (auto simp: within_def)
  then show ?case
    using derive_panic(3,7) \<open>change = 0 \<or> change = 1\<close> unfolding servable_def by force
qed auto

lemma owed_answers:
  assumes "fetch_inv lib s fin files reqs" and "within s K"
    and "r \<in> set (current (f_receiver s)) \<or> r \<in># addr_owed (f_backend s)"
  shows "r \<in># answers lib (ac_deriver (f_acc s)) addr_answer K"
proof -
  have "image_mset addr_answer (asked lib (ac_deriver (f_acc s)) (f_indexes s))
       = mset (fin @ current (f_receiver s)) + addr_owed (f_backend s)"
    using assms(1) by (simp add: fetch_inv_def addr_inv_def)
  then have "r \<in># image_mset addr_answer (asked lib (ac_deriver (f_acc s)) (f_indexes s))"
    using assms(3) by auto
  moreover have "set_mset (asked lib (ac_deriver (f_acc s)) (f_indexes s)) \<subseteq> set_mset (asked lib (ac_deriver (f_acc s)) K)"
    using assms(1,2) by (intro asked_mono) (auto simp: fetch_inv_def sender_inv_def within_def)
  ultimately show ?thesis by (auto simp: answers_def)
qed

lemma receiver_no_panic:
  assumes "recvWork lib addr_recv tx_send tx_recv s s'" and "\<not> panicked s" and "fetch_inv lib s fin files reqs"
    and "within s K" and "servable lib (ac_deriver (f_acc s)) addr_answer K"
  shows "\<not> panicked s'"
  using assms
proof (induction rule: recvWork.induct)
  case (address_panic s resp b' e)
  have "resp \<in># addr_owed (f_backend s)"
    using addr_recv_owed [OF _ address_panic(2)] address_panic(5) by (simp add: fetch_inv_def)
  then have "\<not> isl (Address_Script lib (ar_Address resp))"
    using owed_answers [OF address_panic(5,6)] address_panic(7) by (auto simp: servable_def)
  then show ?case
    using address_panic(3) by (cases "Address_Script lib (ar_Address resp)") (auto simp: file_address_def Let_def)
next
  case (extend_panic s resp e)
  have "length (ac_lastAddresses (f_acc s)) = 2"
    using extend_panic(4) by (simp add: fetch_inv_def sender_inv_def)
  then have "HasTransactions resp \<and> \<not> unat (Change (ar_Address resp)) < 2"
    using extend_panic(2) by (rule extend_lookahead_Inl)
  then show ?case
    using owed_answers [OF extend_panic(4,5), of resp] extend_panic(1,6) by (auto simp: servable_def)
qed auto

lemma never_panics:
  assumes "(fetch_step lib work addr_send addr_recv tx_send tx_recv)\<^sup>*\<^sup>* (fetch_start (New d la bh) rep b) s"
    and "binv b" and "addr_owed b = {#}" and "tx_owed b = {#}"
    and "closed_bounds lib d la addr_answer K" and "servable lib d addr_answer K"
  shows "\<not> panicked s"
  using assms(1)
proof (induction rule: rtranclp_induct)
  case base
  show ?case by (simp add: fetch_start_def)
next
  case (step s s')
  have r: "reached lib d la bh s" by (rule fetch_reached [OF step(1) assms(2-4) step(3)])
  then obtain fin files reqs where i: "fetch_inv lib s fin files reqs" by (auto simp: reached_def)
  have d: "ac_deriver (f_acc s) = d" and w: "within s K" using r assms(5) by (auto simp: reached_def params_def)
  note v = assms(6) [folded d]
  from step(2) show ?case
  proof cases
    case send
    then show ?thesis using sender_no_panic [OF _ _ i w v] by simp
  next
    case recv
    then show ?thesis using receiver_no_panic [OF _ _ i w v] by simp
  next
    case (backend b')
    then show ?thesis by simp
  qed
qed

text \<open>A fetch whose answers leave no room for a panic ends, if it ends, at the least bounds.\<close>

lemma fetch_least:
  assumes "(fetch_step lib work addr_send addr_recv tx_send tx_recv)\<^sup>*\<^sup>* (fetch_start (New d la bh) rep b) s"
    and "binv b" and "addr_owed b = {#}" and "tx_owed b = {#}" and "f_receiver s = Returned"
    and K: "least_bounds lib d la addr_answer K" "servable lib d addr_answer K" "counts_fit lib d addr_answer K"
  shows "ac_lastAddresses (f_acc s) = K \<and> fetched lib d la addr_answer tx_answer (f_acc s) \<and>
    ac_blockHeight (f_acc s) = bh"
proof -
  let ?l = "ac_lastAddresses (f_acc s)"
  have np: "\<not> panicked s" using never_panics [OF assms(1-4)] K by (auto simp: least_bounds_def)
  have r: "reached lib d la bh s" by (rule fetch_reached [OF assms(1-4) np])
  then have le: "?l ! 0 \<le> K ! 0" "?l ! 1 \<le> K ! 1"
    using K(1) by (auto simp: reached_def least_bounds_def within_def)
  have f: "fetched lib d la addr_answer tx_answer (f_acc s) \<and> ac_blockHeight (f_acc s) = bh"
    using fetch_completed [OF assms(1-4) np assms(5) counts_fit_antimono [OF K(3) le]] by blast
  then have c: "closed_bounds lib d la addr_answer ?l" by (simp add: fetched_def)
  then have "?l ! 0 = K ! 0" "?l ! 1 = K ! 1" using K(1) le by (auto simp: least_bounds_def)
  moreover have "length ?l = 2" "length K = 2" using c K(1) by (auto simp: closed_bounds_def least_bounds_def)
  ultimately have "?l = K" by (intro nth_equalityI) (auto simp: less_2_cases_iff)
  then show ?thesis using f by simp
qed

end

text \<open>Two accounters that hold the same, up to the paths stored for a script.\<close>

definition same_result :: "accounter \<Rightarrow> accounter \<Rightarrow> bool" where
  "same_result a a' \<longleftrightarrow> ac_lastAddresses a = ac_lastAddresses a' \<and> ac_transactions a = ac_transactions a' \<and>
     dom (ac_addresses a) = dom (ac_addresses a') \<and> ac_blockHeight a = ac_blockHeight a'"

lemma fetched_unique:
  assumes "fetched lib d la addr_answer tx_answer (f_acc s)" and "fetched lib d la addr_answer tx_answer (f_acc t)"
    and "\<forall>K. closed_bounds lib d la addr_answer K \<longrightarrow> within s K"
    and "\<forall>K. closed_bounds lib d la addr_answer K \<longrightarrow> within t K"
    and "ac_blockHeight (f_acc s) = ac_blockHeight (f_acc t)"
  shows "same_result (f_acc s) (f_acc t)"
proof -
  let ?l = "ac_lastAddresses (f_acc s)" and ?m = "ac_lastAddresses (f_acc t)"
  have "closed_bounds lib d la addr_answer ?l" "closed_bounds lib d la addr_answer ?m"
    using assms(1,2) by (simp_all add: fetched_def)
  then have "?l ! 0 \<le> ?m ! 0 \<and> ?l ! 1 \<le> ?m ! 1" "?m ! 0 \<le> ?l ! 0 \<and> ?m ! 1 \<le> ?l ! 1"
    and len: "length ?l = 2" "length ?m = 2"
    using assms(3,4) by (auto simp: within_def closed_bounds_def)
  then have "?l ! 0 = ?m ! 0" "?l ! 1 = ?m ! 1" by auto
  then have "?l = ?m" using len by (intro nth_equalityI) (auto simp: less_2_cases_iff)
  then show ?thesis using assms(1,2,5) by (simp add: same_result_def fetched_def)
qed

end
