(* ===== verification/Balance.thy ===== *)
theory Balance
  imports Accounter
begin

text \<open>
  What \<^verbatim>\<open>balance\<close> of \<^verbatim>\<open>accounter/accounter.go\<close> computes: the two passes are related to a
  specification without an order (which outputs are ours, how often each is spent), for the
  parsed transactions first and then for the ledger of decoded transactions they came from.
\<close>

section \<open>Outputs, inputs and the debit pass\<close>

type_synonym outpoint = "string \<times> nat"

definition outpoint_of :: "vin \<Rightarrow> outpoint" where
  "outpoint_of v = (vi_prevHash v, unat (vi_index v))"

definition output_at :: "(string \<rightharpoonup> transaction) \<Rightarrow> outpoint \<Rightarrow> vout option" where
  "output_at txs op =
     (case txs (fst op) of
        Some tx \<Rightarrow> if snd op < length (at_vout tx) then Some (at_vout tx ! snd op) else None
      | None \<Rightarrow> None)"

definition dangling :: "(string \<rightharpoonup> transaction) \<Rightarrow> outpoint \<Rightarrow> bool" where
  "dangling txs op = (case txs (fst op) of Some tx \<Rightarrow> length (at_vout tx) \<le> snd op | None \<Rightarrow> False)"

definition ours_at :: "(string \<rightharpoonup> transaction) \<Rightarrow> outpoint \<Rightarrow> bool" where
  "ours_at txs op = (case output_at txs op of Some out \<Rightarrow> vo_ours out | None \<Rightarrow> False)"

definition value_at :: "(string \<rightharpoonup> transaction) \<Rightarrow> outpoint \<Rightarrow> u64" where
  "value_at txs op = vo_value (the (output_at txs op))"

definition marked :: "(string \<rightharpoonup> transaction) \<Rightarrow> outpoint \<Rightarrow> bool" where
  "marked txs op = (case output_at txs op of Some out \<Rightarrow> vo_spentBy out \<noteq> None | None \<Rightarrow> False)"

definition mark :: "outpoint \<Rightarrow> (string \<rightharpoonup> transaction) \<Rightarrow> (string \<rightharpoonup> transaction)" where
  "mark op txs =
     txs(fst op := map_option (\<lambda>tx. tx\<lparr>at_vout := (at_vout tx)[snd op :=
        (at_vout tx ! snd op)\<lparr>vo_spentBy := Some AddressOfHash\<rparr>]\<rparr>) (txs (fst op)))"

definition vins :: "(string \<rightharpoonup> transaction) \<Rightarrow> (string \<rightharpoonup> vin list)" where
  "vins txs h = map_option at_vin (txs h)"

lemma vins_dom: "vins txs = vins txs' \<Longrightarrow> dom txs = dom txs'"
  by (auto simp: vins_def fun_eq_iff dom_def) (metis not_Some_eq option.map_disc_iff)+

lemma vins_the: "h \<in> dom txs \<Longrightarrow> at_vin (the (txs h)) = the (vins txs h)"
  by (auto simp: vins_def)

lemma debit_input_cases:
  "debit_input hash txin (bal, txs) =
     (let op = outpoint_of txin in
      if dangling txs op then Inl (Panic ''prev index > vouts'' [])
      else if ours_at txs op then
        if marked txs op then Inl (Panic ''%s and %s, both spending %s''
          [Str hash, Str hash, Str (vi_prevHash txin)])
        else Inr (bal - value_at txs op, mark op txs)
      else Inr (bal, txs))"
proof -
  have "deref hash p = hash" for p by (cases p) simp
  then show ?thesis
    by (auto simp: debit_input_def outpoint_of_def dangling_def ours_at_def output_at_def marked_def
        value_at_def mark_def Let_def fun_upd_def split: option.splits)
qed

lemma output_at_mark:
  "output_at (mark op txs) op' =
     (if op' = op then map_option (vo_spentBy_update (\<lambda>_. Some AddressOfHash)) (output_at txs op)
      else output_at txs op')"
  by (cases op; cases op') (auto simp: output_at_def mark_def nth_list_update split: option.splits)

lemma mark_at:
  "mark op txs h = (if h = fst op then map_option (\<lambda>tx. tx\<lparr>at_vout := (at_vout tx)[snd op :=
        (at_vout tx ! snd op)\<lparr>vo_spentBy := Some AddressOfHash\<rparr>]\<rparr>) (txs h) else txs h)"
  by (simp add: mark_def)

lemma mark_preserves [simp]:
  shows "dangling (mark op txs) = dangling txs"
    and "ours_at (mark op txs) = ours_at txs"
    and "value_at (mark op txs) = value_at txs"
    and "vins (mark op txs) = vins txs"
proof -
  show "dangling (mark op txs) = dangling txs"
    by (auto simp: dangling_def mark_at fun_eq_iff split: option.splits)
  show "ours_at (mark op txs) = ours_at txs"
    by (auto simp: ours_at_def output_at_mark fun_eq_iff split: option.splits if_splits)
  show "value_at (mark op txs) = value_at txs"
    by (cases "output_at txs op") (simp_all add: value_at_def output_at_mark fun_eq_iff)
  show "vins (mark op txs) = vins txs"
    by (auto simp: vins_def mark_at fun_eq_iff option.map_comp comp_def)
qed

lemma marked_mark: "ours_at txs op \<Longrightarrow> marked (mark op txs) op' \<longleftrightarrow> op' = op \<or> marked txs op'"
  by (auto simp: marked_def output_at_mark ours_at_def split: option.splits)

text \<open>Both loops of the debit pass at once: the inputs with the hash of their transaction.\<close>

definition inputs :: "string list \<Rightarrow> (string \<rightharpoonup> transaction) \<Rightarrow> (string \<times> vin) list" where
  "inputs ks txs = concat (map (\<lambda>h. map (Pair h) (at_vin (the (txs h)))) ks)"

definition debit_pass :: "(string \<times> vin) list \<Rightarrow> debit_state \<Rightarrow> debit_state result" where
  "debit_pass = sfold (\<lambda>(h, v). debit_input h v)"

lemma debit_pass_Cons:
  "debit_pass ((h, v) # xs) s = sbind (debit_input h v s) (debit_pass xs)"
  by (simp add: debit_pass_def)

lemma debit_input_vins: "debit_input h v s = Inr s' \<Longrightarrow> vins (snd s') = vins (snd s)"
  by (cases s) (auto simp: debit_input_cases Let_def split: if_splits)

lemma inputs_vins:
  "vins txs' = vins txs \<Longrightarrow> set ks \<subseteq> dom txs \<Longrightarrow> inputs ks txs' = inputs ks txs"
  using vins_dom [of txs txs']
  by (auto simp: inputs_def vins_the subset_iff intro!: arg_cong [of _ _ concat])

lemma sfold_debit_input: "sfold (debit_input h) vs = debit_pass (map (Pair h) vs)"
proof
  fix s
  show "sfold (debit_input h) vs s = debit_pass (map (Pair h) vs) s"
    by (induction vs arbitrary: s) (simp_all add: debit_pass_def sbind_def split: sum.splits)
qed

lemma sfold_debit_transaction:
  assumes "set ks \<subseteq> dom (snd s)"
  shows "sfold debit_transaction ks s = debit_pass (inputs ks (snd s)) s"
  using assms
proof (induction ks arbitrary: s)
  case Nil
  then show ?case by (simp add: inputs_def debit_pass_def)
next
  case (Cons h ks)
  let ?vs = "at_vin (the (snd s h))"
  have step: "sfold debit_transaction ks s' = debit_pass (inputs ks (snd s)) s'"
    if "debit_transaction h s = Inr s'" for s'
  proof -
    have inv: "vins (snd s') = vins (snd s)"
      by (rule sfold_invariant [OF that [unfolded debit_transaction_def]]) (auto dest: debit_input_vins)
    then show ?thesis
      using Cons.IH [of s'] Cons.prems inputs_vins [OF inv] vins_dom [OF inv] by simp
  qed
  have "debit_pass (inputs (h # ks) (snd s)) s
      = sbind (debit_transaction h s) (debit_pass (inputs ks (snd s)))"
    by (simp add: inputs_def debit_pass_def sfold_append debit_transaction_def
        sfold_debit_input [unfolded debit_pass_def])
  also have "\<dots> = sbind (debit_transaction h s) (sfold debit_transaction ks)"
    by (rule sbind_cong) (simp_all add: step)
  finally show ?case by simp
qed

text \<open>The outputs of ours an input list spends, and when the pass over it succeeds.\<close>

definition claimed :: "(string \<rightharpoonup> transaction) \<Rightarrow> (string \<times> vin) list \<Rightarrow> outpoint list" where
  "claimed txs xs = filter (ours_at txs) (map (outpoint_of \<circ> snd) xs)"

lemma claimed_simps [simp]:
  "claimed txs [] = []"
  "claimed txs ((h, v) # xs) =
     (if ours_at txs (outpoint_of v) then outpoint_of v # claimed txs xs else claimed txs xs)"
  "claimed (mark op txs) xs = claimed txs xs"
  by (simp_all add: claimed_def)

lemma claimed_ours: "op \<in> set (claimed txs xs) \<Longrightarrow> ours_at txs op"
  by (auto simp: claimed_def)

lemma debit_pass_spec:
  "debit_pass xs (bal, txs) = Inr (bal', txs') \<longleftrightarrow>
     (\<forall>x\<in>set xs. \<not> dangling txs (outpoint_of (snd x))) \<and> distinct (claimed txs xs) \<and>
     (\<forall>op\<in>set (claimed txs xs). \<not> marked txs op) \<and>
     bal' = bal - sum_list (map (value_at txs) (claimed txs xs)) \<and>
     txs' = fold mark (claimed txs xs) txs"
proof (induction xs arbitrary: bal txs)
  case Nil
  then show ?case by (auto simp: debit_pass_def)
next
  case (Cons x xs)
  obtain h v where x: "x = (h, v)" by fastforce
  let ?op = "outpoint_of v"
  consider "dangling txs ?op" | "\<not> dangling txs ?op" "\<not> ours_at txs ?op"
    | "\<not> dangling txs ?op" "ours_at txs ?op" by blast
  then show ?case
  proof cases
    case 1
    then show ?thesis by (simp add: x debit_pass_Cons debit_input_cases)
  next
    case 2
    then show ?thesis by (simp add: x debit_pass_Cons debit_input_cases Cons.IH)
  next
    case 3
    then show ?thesis
    proof (cases "marked txs ?op")
      case True
      then show ?thesis using 3 by (simp add: x debit_pass_Cons debit_input_cases)
    next
      case False
      then show ?thesis
        using 3 by (auto simp: x debit_pass_Cons debit_input_cases Let_def Cons.IH marked_mark diff_diff_eq)
    qed
  qed
qed


text \<open>
  The specification of the balance, without an order: how often an output is spent, what is
  unspent, and when the history is consistent.
\<close>

definition spend_count :: "(string \<rightharpoonup> transaction) \<Rightarrow> outpoint \<Rightarrow> nat" where
  "spend_count txs op =
     (\<Sum>h\<in>dom txs. length (filter (\<lambda>v. outpoint_of v = op) (at_vin (the (txs h)))))"

definition unspent :: "(string \<rightharpoonup> transaction) \<Rightarrow> outpoint set" where
  "unspent txs = {op. ours_at txs op \<and> spend_count txs op = 0}"

definition consistent :: "(string \<rightharpoonup> transaction) \<Rightarrow> bool" where
  "consistent txs \<longleftrightarrow>
     (\<forall>h tx v. txs h = Some tx \<longrightarrow> v \<in> set (at_vin tx) \<longrightarrow> \<not> dangling txs (outpoint_of v)) \<and>
     (\<forall>op. ours_at txs op \<longrightarrow> spend_count txs op \<le> 1)"

definition fresh :: "(string \<rightharpoonup> transaction) \<Rightarrow> bool" where
  "fresh txs \<longleftrightarrow> (\<forall>h tx. txs h = Some tx \<longrightarrow> list_all (\<lambda>out. vo_spentBy out = None) (at_vout tx))"

lemma fresh_marked: "fresh txs \<Longrightarrow> \<not> marked txs op"
  by (auto simp: fresh_def marked_def output_at_def list_all_length split: option.splits if_splits)

lemma set_inputs:
  "enumerates ks txs \<Longrightarrow> (h, v) \<in> set (inputs ks txs) \<longleftrightarrow> (\<exists>tx. txs h = Some tx \<and> v \<in> set (at_vin tx))"
  by (fastforce simp: inputs_def enumerates_def)

lemma count_filter: "count (mset (map f xs)) y = length (filter (\<lambda>x. f x = y) xs)"
  by (induction xs) auto

lemma count_concat: "count (mset (concat xss)) y = sum_list (map (\<lambda>xs. count (mset xs) y) xss)"
  by (induction xss) auto

lemma count_spends:
  "enumerates ks txs \<Longrightarrow> count (mset (map (outpoint_of \<circ> snd) (inputs ks txs))) op = spend_count txs op"
  by (simp add: inputs_def map_concat count_concat comp_def spend_count_def count_filter
      flip: sum_list_enumerates mset_map)

lemma count_claimed:
  "enumerates ks txs \<Longrightarrow>
    count (mset (claimed txs (inputs ks txs))) op = (if ours_at txs op then spend_count txs op else 0)"
  by (simp add: claimed_def count_spends [symmetric])

lemma distinct_count_le_1: "distinct xs \<longleftrightarrow> (\<forall>x. count (mset xs) x \<le> 1)"
proof (induction xs)
  case Nil
  then show ?case by simp
next
  case (Cons y ys)
  have "(\<forall>x. count (mset (y # ys)) x \<le> 1) \<longleftrightarrow> count (mset ys) y = 0 \<and> (\<forall>x. count (mset ys) x \<le> 1)"
    by (auto simp: le_Suc_eq)
  then show ?case using Cons by (simp add: count_eq_zero_iff)
qed

lemma distinct_claimed:
  assumes "enumerates ks txs"
  shows "distinct (claimed txs (inputs ks txs)) \<longleftrightarrow> (\<forall>op. ours_at txs op \<longrightarrow> spend_count txs op \<le> 1)"
  by (simp add: distinct_count_le_1 count_claimed [OF assms])

lemma set_claimed:
  assumes "enumerates ks txs"
  shows "set (claimed txs (inputs ks txs)) = {op. ours_at txs op \<and> spend_count txs op \<noteq> 0}"
proof -
  have "op \<in> set (claimed txs (inputs ks txs)) \<longleftrightarrow> count (mset (claimed txs (inputs ks txs))) op \<noteq> 0" for op
    by simp
  then show ?thesis unfolding count_claimed [OF assms] by (auto split: if_splits)
qed

lemma finite_ours: "finite (dom txs) \<Longrightarrow> finite {op. ours_at txs op}"
proof -
  assume "finite (dom txs)"
  then have "finite (SIGMA h : dom txs. {..<length (at_vout (the (txs h)))})" by simp
  moreover have "{op. ours_at txs op} \<subseteq> (SIGMA h : dom txs. {..<length (at_vout (the (txs h)))})"
  proof
    fix op
    assume "op \<in> {op. ours_at txs op}"
    then obtain tx where "txs (fst op) = Some tx" "snd op < length (at_vout tx)"
      unfolding ours_at_def output_at_def mem_Collect_eq by (simp split: option.splits if_splits)
    then show "op \<in> (SIGMA h : dom txs. {..<length (at_vout (the (txs h)))})" by (cases op) (simp add: domI)
  qed
  ultimately show ?thesis by (rule finite_subset [rotated])
qed

lemma fold_credit_step:
  "fold credit_step outs b = b + (\<Sum>i | i < length outs \<and> vo_ours (outs ! i). vo_value (outs ! i))"
proof (induction outs rule: rev_induct)
  case Nil
  then show ?case by simp
next
  case (snoc out outs)
  have "{i. i < length (outs @ [out]) \<and> vo_ours ((outs @ [out]) ! i)}
      = {i. i < length outs \<and> vo_ours (outs ! i)} \<union> (if vo_ours out then {length outs} else {})"
    by (auto simp: nth_append less_Suc_eq split: if_splits)
  moreover have "(\<Sum>i | i < length outs \<and> vo_ours (outs ! i). vo_value ((outs @ [out]) ! i))
      = (\<Sum>i | i < length outs \<and> vo_ours (outs ! i). vo_value (outs ! i))"
    by (rule sum.cong) (auto simp: nth_append)
  ultimately show ?case
    using snoc by (simp add: credit_step_def sum.union_disjoint add.assoc)
qed

lemma ours_at_pair:
  "ours_at txs (h, i) \<longleftrightarrow>
     h \<in> dom txs \<and> i < length (at_vout (the (txs h))) \<and> vo_ours (at_vout (the (txs h)) ! i)"
  by (cases "txs h") (simp_all add: ours_at_def output_at_def domIff)

lemma value_at_pair: "ours_at txs (h, i) \<Longrightarrow> value_at txs (h, i) = vo_value (at_vout (the (txs h)) ! i)"
  by (cases "txs h") (simp_all add: ours_at_pair value_at_def output_at_def domIff)

lemma credits_sum:
  assumes "enumerates ks txs"
  shows "credits ks txs = (\<Sum>op | ours_at txs op. value_at txs op)"
proof -
  let ?I = "\<lambda>h. {i. i < length (at_vout (the (txs h))) \<and> vo_ours (at_vout (the (txs h)) ! i)}"
  let ?g = "\<lambda>h. \<Sum>i\<in>?I h. vo_value (at_vout (the (txs h)) ! i)"
  have "fold (\<lambda>h b. b + ?g h) xs b = b + sum_list (map ?g xs)" for xs b
    by (induction xs arbitrary: b) (simp_all add: add.assoc)
  then have "credits ks txs = (\<Sum>h\<in>dom txs. ?g h)"
    by (simp add: credits_def fold_credit_step sum_list_enumerates [OF assms])
  also have "\<dots> = (\<Sum>(h, i)\<in>(SIGMA h : dom txs. ?I h). vo_value (at_vout (the (txs h)) ! i))"
    using assms by (intro sum.Sigma) (simp_all flip: enumerates_set)
  also have "(SIGMA h : dom txs. ?I h) = {op. ours_at txs op}"
    by (rule set_eqI) (simp add: split_paired_all ours_at_pair)
  also have "(\<Sum>(h, i)\<in>{op. ours_at txs op}. vo_value (at_vout (the (txs h)) ! i))
      = (\<Sum>op | ours_at txs op. value_at txs op)"
    by (rule sum.cong) (auto simp: value_at_pair)
  finally show ?thesis .
qed

lemma enumerates_finite: "enumerates ks m \<Longrightarrow> finite (dom m)"
  by (metis List.finite_set enumerates_set)

lemma debits_spec:
  assumes "enumerates ks txs" and "fresh txs"
  shows "sfold debit_transaction ks (bal, txs) = Inr (bal', txs') \<longleftrightarrow>
     consistent txs \<and> bal' = bal - (\<Sum>op | ours_at txs op \<and> spend_count txs op \<noteq> 0. value_at txs op) \<and>
     txs' = fold mark (claimed txs (inputs ks txs)) txs"
proof -
  have "sfold debit_transaction ks (bal, txs) = debit_pass (inputs ks txs) (bal, txs)"
    using sfold_debit_transaction [of ks "(bal, txs)"] assms(1) by (simp add: enumerates_set)
  moreover have "(\<forall>x\<in>set (inputs ks txs). \<not> dangling txs (outpoint_of (snd x))) \<longleftrightarrow>
      (\<forall>h tx v. txs h = Some tx \<longrightarrow> v \<in> set (at_vin tx) \<longrightarrow> \<not> dangling txs (outpoint_of v))"
    using set_inputs [OF assms(1)] by fastforce
  moreover have "distinct (claimed txs (inputs ks txs)) \<Longrightarrow>
      sum_list (map (value_at txs) (claimed txs (inputs ks txs)))
      = (\<Sum>op | ours_at txs op \<and> spend_count txs op \<noteq> 0. value_at txs op)"
    by (simp add: sum_list_distinct_conv_sum_set set_claimed [OF assms(1)])
  ultimately show ?thesis
    using fresh_marked [OF assms(2)]
    by (auto simp: debit_pass_spec consistent_def distinct_claimed [OF assms(1)])
qed

lemma balance_Inr_iff:
  assumes "enumerates ks txs" and "enumerates ks' txs" and "fresh txs"
  shows "balance ks ks' txs = Inr b \<longleftrightarrow>
     consistent txs \<and> b = (\<Sum>op\<in>unspent txs. value_at txs op) \<and> 0 \<le> sint b"
proof -
  let ?spent = "{op. ours_at txs op \<and> spend_count txs op \<noteq> 0}"
  have "finite {op. ours_at txs op}" using assms(1) by (intro finite_ours enumerates_finite)
  then have "credits ks txs = (\<Sum>op\<in>?spent. value_at txs op) + (\<Sum>op\<in>unspent txs. value_at txs op)"
    unfolding credits_sum [OF assms(1)]
    by (subst sum.union_disjoint [symmetric])
      (auto simp: unspent_def intro!: sum.cong elim: finite_subset [rotated])
  then show ?thesis
    by (auto simp: balance_def sbind_Inr_iff debits_spec [OF assms(2,3)] split: if_splits)
qed

section \<open>Filtering and parsing, key by key\<close>

definition mined :: "u32 \<Rightarrow> transaction \<Rightarrow> bool" where
  "mined blockHeight tx \<longleftrightarrow> 0 < sint (at_height tx) \<and> sint (at_height tx) \<le> uint blockHeight"

definition keep_mined :: "u32 \<Rightarrow> transaction option \<Rightarrow> transaction option" where
  "keep_mined blockHeight = (\<lambda>t. Option.bind t (\<lambda>tx. if mined blockHeight tx then Some tx else None))"

lemma filter_step_eq: "filter_step bh h txs = txs(h := keep_mined bh (txs h))"
  by (auto simp: filter_step_def keep_mined_def mined_def Let_def fun_eq_iff split: option.splits)

lemma parse_step_eq: "parse_step addresses h txs = txs(h := map_option (parse_transaction addresses) (txs h))"
  by (auto simp: parse_step_def fun_eq_iff split: option.splits)

lemma fold_filter_step:
  "distinct ks \<Longrightarrow> fold (filter_step bh) ks m h = (if h \<in> set ks then keep_mined bh (m h) else m h)"
  by (rule fold_pointwise) (rule filter_step_eq)

lemma fold_parse_step:
  "distinct ks \<Longrightarrow> fold (parse_step addresses) ks m h =
     (if h \<in> set ks then map_option (parse_transaction addresses) (m h) else m h)"
  by (rule fold_pointwise) (rule parse_step_eq)

lemma keep_mined_simps [simp]:
  "keep_mined bh None = None"
  "keep_mined bh (Some tx) = (if mined bh tx then Some tx else None)"
  by (simp_all add: keep_mined_def)

lemma filterTransactions_at:
  "enumerates ks (ac_transactions a) \<Longrightarrow>
    ac_transactions (filterTransactions ks a) h = keep_mined (ac_blockHeight a) (ac_transactions a h)"
  by (auto simp: filterTransactions_def fold_filter_step enumerates_def domIff)

lemma processTransactions_at:
  assumes "enumerates ks (ac_transactions a)" and "enumerates ks' (ac_transactions (filterTransactions ks a))"
  shows "ac_transactions (fst (processTransactions ks ks' (a, rep))) h =
    map_option (parse_transaction (ac_addresses a)) (keep_mined (ac_blockHeight a) (ac_transactions a h))"
proof -
  have "ac_addresses (filterTransactions ks a) = ac_addresses a" by (simp add: filterTransactions_def)
  then show ?thesis
    using assms(2)
    by (auto simp: processTransactions_def Let_def fold_parse_step enumerates_def domIff
        filterTransactions_at [OF assms(1)])
qed

section \<open>The ledger behind the responses\<close>

text \<open>
  A ledger gives the height and the decoded transaction of each hash.  An accounter holds it when
  the responses it filed are the hex serialisations of the ledger's transactions.
\<close>

type_synonym ledger = "string \<rightharpoonup> u64 \<times> MsgTx"

definition filed :: "u64 \<times> MsgTx \<Rightarrow> transaction" where
  "filed = (\<lambda>(height, msg). \<lparr>at_height = height, at_hex = hex_encode (BtcEncode WitnessEncoding msg),
     at_vin = [], at_vout = []\<rparr>)"

definition holds_ledger :: "ledger \<Rightarrow> accounter \<Rightarrow> bool" where
  "holds_ledger L a \<longleftrightarrow>
     ac_transactions a = (\<lambda>h. map_option filed (L h)) \<and> (\<forall>h t. L h = Some t \<longrightarrow> wf_tx (snd t))"

definition confirmed :: "u32 \<Rightarrow> ledger \<Rightarrow> (string \<rightharpoonup> MsgTx)" where
  "confirmed blockHeight L h =
     (case L h of
        Some (height, msg) \<Rightarrow> if 0 < sint height \<and> sint height \<le> uint blockHeight then Some msg else None
      | None \<Rightarrow> None)"

definition refers :: "TxIn \<Rightarrow> outpoint" where
  "refers txin = (Hash_String (op_Hash (ti_PreviousOutPoint txin)), unat (op_Index (ti_PreviousOutPoint txin)))"

definition coin :: "string set \<Rightarrow> (string \<rightharpoonup> MsgTx) \<Rightarrow> outpoint \<Rightarrow> bool" where
  "coin scripts C op =
     (case C (fst op) of
        Some msg \<Rightarrow> snd op < length (tx_TxOut msg) \<and> hex_encode (to_PkScript (tx_TxOut msg ! snd op)) \<in> scripts
      | None \<Rightarrow> False)"

definition amount :: "(string \<rightharpoonup> MsgTx) \<Rightarrow> outpoint \<Rightarrow> int" where
  "amount C op = sint (to_Value (tx_TxOut (the (C (fst op))) ! snd op))"

definition times_spent :: "(string \<rightharpoonup> MsgTx) \<Rightarrow> outpoint \<Rightarrow> nat" where
  "times_spent C op = (\<Sum>h\<in>dom C. length (filter (\<lambda>txin. refers txin = op) (tx_TxIn (the (C h)))))"

definition unspent_coins :: "string set \<Rightarrow> (string \<rightharpoonup> MsgTx) \<Rightarrow> outpoint set" where
  "unspent_coins scripts C = {op. coin scripts C op \<and> times_spent C op = 0}"

text \<open>What the rules of the network guarantee of the confirmed transactions.\<close>

definition valid_history :: "string set \<Rightarrow> (string \<rightharpoonup> MsgTx) \<Rightarrow> bool" where
  "valid_history scripts C \<longleftrightarrow>
     (\<forall>h msg txin msg'. C h = Some msg \<longrightarrow> txin \<in> set (tx_TxIn msg) \<longrightarrow> C (fst (refers txin)) = Some msg' \<longrightarrow>
        snd (refers txin) < length (tx_TxOut msg')) \<and>
     (\<forall>op. coin scripts C op \<longrightarrow> times_spent C op \<le> 1)"

definition amounts_ok :: "string set \<Rightarrow> (string \<rightharpoonup> MsgTx) \<Rightarrow> bool" where
  "amounts_ok scripts C \<longleftrightarrow> (\<forall>op. coin scripts C op \<longrightarrow> 0 \<le> amount C op) \<and>
     (\<Sum>op | coin scripts C op. amount C op) < 2 ^ 63"

definition parsed :: "(string \<rightharpoonup> acc_address) \<Rightarrow> u64 \<times> MsgTx \<Rightarrow> transaction" where
  "parsed addresses t = (filed t)\<lparr>at_vin := map vin_of (tx_TxIn (snd t)),
     at_vout := map (vout_of addresses) (tx_TxOut (snd t))\<rparr>"

lemma parse_filed: "wf_tx (snd t) \<Longrightarrow> parse_transaction addresses (filed t) = parsed addresses t"
proof (cases t)
  case (Pair height msg)
  assume "wf_tx (snd t)"
  then have "NewTxFromBytes (BtcEncode WitnessEncoding msg) = Inr msg"
    using BtcDecode_BtcEncode [of msg WitnessEncoding "[]"] by (simp add: Pair NewTxFromBytes_def transmitted_def)
  then show ?thesis by (simp add: Pair parse_transaction_def filed_def parsed_def)
qed

lemma processed_ledger:
  assumes "holds_ledger L a"
    and "enumerates ks (ac_transactions a)" and "enumerates ks' (ac_transactions (filterTransactions ks a))"
  shows "ac_transactions (fst (processTransactions ks ks' (a, rep))) h =
    map_option (parsed (ac_addresses a))
      (Option.bind (L h) (\<lambda>t. if mined (ac_blockHeight a) (filed t) then Some t else None))"
  using assms(1) by (cases "L h")
    (auto simp: processTransactions_at [OF assms(2,3)] holds_ledger_def parse_filed)

text \<open>The parsed transactions reflect the confirmed part of the ledger.\<close>

definition reflects :: "(string \<rightharpoonup> acc_address) \<Rightarrow> (string \<rightharpoonup> MsgTx) \<Rightarrow> (string \<rightharpoonup> transaction) \<Rightarrow> bool" where
  "reflects addresses C txs \<longleftrightarrow>
     (\<forall>h. rel_option (\<lambda>msg tx. at_vin tx = map vin_of (tx_TxIn msg) \<and>
        at_vout tx = map (vout_of addresses) (tx_TxOut msg)) (C h) (txs h))"

lemma processed_reflects:
  assumes "holds_ledger L a"
    and "enumerates ks (ac_transactions a)" and "enumerates ks' (ac_transactions (filterTransactions ks a))"
  shows "reflects (ac_addresses a) (confirmed (ac_blockHeight a) L)
    (ac_transactions (fst (processTransactions ks ks' (a, rep))))"
  unfolding reflects_def
proof
  fix h
  show "rel_option (\<lambda>msg tx. at_vin tx = map vin_of (tx_TxIn msg) \<and>
        at_vout tx = map (vout_of (ac_addresses a)) (tx_TxOut msg))
      (confirmed (ac_blockHeight a) L h) (ac_transactions (fst (processTransactions ks ks' (a, rep))) h)"
    by (cases "L h")
      (auto simp: processed_ledger [OF assms] confirmed_def mined_def filed_def parsed_def)
qed

lemma reflects_cases:
  assumes "reflects A C P"
  obtains "C h = None" and "P h = None"
  | msg tx where "C h = Some msg" and "P h = Some tx"
    and "at_vin tx = map vin_of (tx_TxIn msg)" and "at_vout tx = map (vout_of A) (tx_TxOut msg)"
proof -
  have r: "rel_option (\<lambda>msg tx. at_vin tx = map vin_of (tx_TxIn msg) \<and>
        at_vout tx = map (vout_of A) (tx_TxOut msg)) (C h) (P h)"
    using assms by (simp add: reflects_def)
  show thesis using r that by (cases "C h"; cases "P h") auto
qed

lemma reflects_dom: "reflects A C P \<Longrightarrow> dom P = dom C"
  by (auto simp: dom_def elim: reflects_cases) (metis option.distinct(1) reflects_cases)+

lemma outpoint_of_vin: "outpoint_of (vin_of txin) = refers txin"
  by (simp add: outpoint_of_def vin_of_def refers_def)

lemma vout_of_simps [simp]:
  "vo_value (vout_of A out) = to_Value out" "vo_spentBy (vout_of A out) = None"
  "vo_ours (vout_of A out) \<longleftrightarrow> hex_encode (to_PkScript out) \<in> dom A"
  by (auto simp: vout_of_def Let_def)

lemma reflects_coin: "reflects A C P \<Longrightarrow> ours_at P op = coin (dom A) C op"
  by (erule reflects_cases [of A C P "fst op"]) (auto simp: ours_at_def output_at_def coin_def)

lemma reflects_amount: "reflects A C P \<Longrightarrow> coin (dom A) C op \<Longrightarrow> sint (value_at P op) = amount C op"
  by (erule reflects_cases [of A C P "fst op"]) (auto simp: value_at_def output_at_def coin_def amount_def)

lemma reflects_spends:
  assumes "reflects A C P"
  shows "spend_count P op = times_spent C op"
  unfolding spend_count_def times_spent_def reflects_dom [OF assms]
proof (rule sum.cong)
  fix h
  assume "h \<in> dom C"
  then show "length (filter (\<lambda>v. outpoint_of v = op) (at_vin (the (P h))))
      = length (filter (\<lambda>txin. refers txin = op) (tx_TxIn (the (C h))))"
    by (cases rule: reflects_cases [OF assms, of h]) (auto simp: filter_map comp_def outpoint_of_vin)
qed simp

lemma reflects_dangling:
  "reflects A C P \<Longrightarrow> dangling P op \<longleftrightarrow> (\<exists>msg. C (fst op) = Some msg \<and> length (tx_TxOut msg) \<le> snd op)"
  by (erule reflects_cases [of A C P "fst op"]) (auto simp: dangling_def)

lemma reflects_fresh: "reflects A C P \<Longrightarrow> fresh P"
  unfolding fresh_def
proof (intro allI impI)
  fix h tx
  assume "reflects A C P" and "P h = Some tx"
  then show "list_all (\<lambda>out. vo_spentBy out = None) (at_vout tx)"
    by (cases rule: reflects_cases [of A C P h]) (auto simp: list_all_iff)
qed

lemma reflects_inputs:
  assumes "reflects A C P"
  shows "(\<forall>h tx v. P h = Some tx \<longrightarrow> v \<in> set (at_vin tx) \<longrightarrow> Q (outpoint_of v)) \<longleftrightarrow>
     (\<forall>h msg txin. C h = Some msg \<longrightarrow> txin \<in> set (tx_TxIn msg) \<longrightarrow> Q (refers txin))"
proof -
  have "(\<forall>tx v. P h = Some tx \<longrightarrow> v \<in> set (at_vin tx) \<longrightarrow> Q (outpoint_of v)) \<longleftrightarrow>
     (\<forall>msg txin. C h = Some msg \<longrightarrow> txin \<in> set (tx_TxIn msg) \<longrightarrow> Q (refers txin))" for h
    by (cases rule: reflects_cases [OF assms, of h]) (auto simp: outpoint_of_vin)
  then show ?thesis by simp
qed

lemma reflects_consistent:
  assumes "reflects A C P"
  shows "consistent P \<longleftrightarrow> valid_history (dom A) C"
proof -
  have "(\<forall>h tx v. P h = Some tx \<longrightarrow> v \<in> set (at_vin tx) \<longrightarrow> \<not> dangling P (outpoint_of v)) \<longleftrightarrow>
     (\<forall>h msg txin. C h = Some msg \<longrightarrow> txin \<in> set (tx_TxIn msg) \<longrightarrow> \<not> dangling P (refers txin))"
    by (rule reflects_inputs [OF assms])
  then show ?thesis
    by (simp add: consistent_def valid_history_def reflects_dangling [OF assms] reflects_coin [OF assms]
        reflects_spends [OF assms] not_le)
qed

lemma word_of_int_small:
  assumes "0 \<le> s" and "s < 2 ^ 63"
  shows "uint (word_of_int s :: u64) = s" and "sint (word_of_int s :: u64) = s"
  using assms by (simp_all add: uint_word_of_int_eq take_bit_int_eq_self sint_sbintrunc' signed_take_bit_int_eq_self)

lemma sint_of_int_sum:
  fixes f :: "'a \<Rightarrow> u64"
  assumes "\<And>x. x \<in> S \<Longrightarrow> 0 \<le> sint (f x)" and "(\<Sum>x\<in>S. sint (f x)) < 2 ^ 63"
  shows "uint (\<Sum>x\<in>S. f x) = (\<Sum>x\<in>S. sint (f x)) \<and> 0 \<le> sint (\<Sum>x\<in>S. f x)"
proof -
  let ?s = "\<Sum>x\<in>S. sint (f x)"
  have nonneg: "0 \<le> ?s" using assms(1) by (rule sum_nonneg)
  have "(\<Sum>x\<in>S. f x) = word_of_int ?s" by (simp add: of_int_sum)
  then show ?thesis
    using word_of_int_small [OF nonneg assms(2)] nonneg by (simp only: simp_thms)
qed

lemma tally_correct:
  assumes L: "holds_ledger L a"
    and ks: "enumerates ks1 (ac_transactions a)" "enumerates ks2 (ac_transactions (filterTransactions ks1 a))"
      "enumerates ks3 (ac_transactions (fst (processTransactions ks1 ks2 (a, rep))))"
      "enumerates ks4 (ac_transactions (fst (processTransactions ks1 ks2 (a, rep))))"
    and ok: "amounts_ok (dom (ac_addresses a)) (confirmed (ac_blockHeight a) L)"
  shows "if valid_history (dom (ac_addresses a)) (confirmed (ac_blockHeight a) L)
     then \<exists>b. tally ks1 ks2 ks3 ks4 (a, rep) = Inr b \<and>
       uint b = (\<Sum>op\<in>unspent_coins (dom (ac_addresses a)) (confirmed (ac_blockHeight a) L).
          amount (confirmed (ac_blockHeight a) L) op)
     else isl (tally ks1 ks2 ks3 ks4 (a, rep))"
proof -
  let ?C = "confirmed (ac_blockHeight a) L" and ?A = "ac_addresses a"
  let ?P = "ac_transactions (fst (processTransactions ks1 ks2 (a, rep)))"
  have r: "reflects ?A ?C ?P" using processed_reflects [OF L ks(1,2)] .
  have U: "unspent ?P = unspent_coins (dom ?A) ?C"
    by (simp add: unspent_def unspent_coins_def reflects_coin [OF r] reflects_spends [OF r])
  have am: "sint (value_at ?P op) = amount ?C op" if "op \<in> unspent_coins (dom ?A) ?C" for op
    using that reflects_amount [OF r] by (simp add: unspent_coins_def)
  have fin: "finite {op. coin (dom ?A) ?C op}"
    using finite_ours [OF enumerates_finite [OF ks(3)]] by (simp add: reflects_coin [OF r])
  have nonneg: "0 \<le> amount ?C op" if "coin (dom ?A) ?C op" for op
    using ok that unfolding amounts_ok_def by blast
  have "(\<Sum>op\<in>unspent_coins (dom ?A) ?C. amount ?C op) \<le> (\<Sum>op | coin (dom ?A) ?C op. amount ?C op)"
    using nonneg by (intro sum_mono2 [OF fin]) (auto simp: unspent_coins_def)
  then have "(\<Sum>op\<in>unspent_coins (dom ?A) ?C. sint (value_at ?P op)) < 2 ^ 63"
    using ok by (simp add: am amounts_ok_def)
  moreover have "0 \<le> sint (value_at ?P op)" if "op \<in> unspent_coins (dom ?A) ?C" for op
    using that by (simp add: am) (simp add: unspent_coins_def nonneg)
  ultimately have s: "uint (\<Sum>op\<in>unspent_coins (dom ?A) ?C. value_at ?P op)
      = (\<Sum>op\<in>unspent_coins (dom ?A) ?C. amount ?C op)
      \<and> 0 \<le> sint (\<Sum>op\<in>unspent_coins (dom ?A) ?C. value_at ?P op)"
    using sint_of_int_sum [of "unspent_coins (dom ?A) ?C" "value_at ?P"] by (simp add: am)
  have "tally ks1 ks2 ks3 ks4 (a, rep) = Inr b \<longleftrightarrow>
      valid_history (dom ?A) ?C \<and> b = (\<Sum>op\<in>unspent_coins (dom ?A) ?C. value_at ?P op) \<and> 0 \<le> sint b" for b
    unfolding tally_def
    by (simp add: balance_Inr_iff [OF ks(3,4) reflects_fresh [OF r]] reflects_consistent [OF r] U)
  then show ?thesis
    using s by (cases "tally ks1 ks2 ks3 ks4 (a, rep)") auto
qed

section \<open>Properties\<close>

text \<open>
  C5: the balance is the sum of the wallet's unspent coins.  When the accounter holds the
  transactions of a ledger, the tally succeeds exactly when the confirmed part of the ledger is a
  valid history (no dangling reference to one of its transactions, no coin of the wallet spent
  twice), and its result is then the sum of the amounts of the outputs that pay a script of the
  wallet in a transaction mined up to the block height and that no such transaction spends.  It
  holds for every order in which the runtime ranges over the maps and for amounts that are not
  negative and sum up to less than 2^63.
\<close>

theorem tally_is_unspent_sum:
  assumes L: "holds_ledger L a"
    and ks: "enumerates ks1 (ac_transactions a)" "enumerates ks2 (ac_transactions (filterTransactions ks1 a))"
      "enumerates ks3 (ac_transactions (fst (processTransactions ks1 ks2 (a, rep))))"
      "enumerates ks4 (ac_transactions (fst (processTransactions ks1 ks2 (a, rep))))"
    and ok: "amounts_ok (dom (ac_addresses a)) (confirmed (ac_blockHeight a) L)"
  shows "if valid_history (dom (ac_addresses a)) (confirmed (ac_blockHeight a) L)
     then \<exists>b. tally ks1 ks2 ks3 ks4 (a, rep) = Inr b \<and>
       uint b = (\<Sum>op\<in>unspent_coins (dom (ac_addresses a)) (confirmed (ac_blockHeight a) L).
          amount (confirmed (ac_blockHeight a) L) op)
     else isl (tally ks1 ks2 ks3 ks4 (a, rep))"
  using tally_correct [OF assms] .

text \<open>
  An instance: two payments to the wallet's script, one of them spent at height 20, the other one
  spent at height 30, after the block height 25.
\<close>

abbreviation sample_key :: "u8 \<Rightarrow> string" where
  "sample_key b \<equiv> Hash_String (replicate 32 b)"

definition sample_input :: "u8 \<Rightarrow> u32 \<Rightarrow> TxIn" where
  "sample_input h i = \<lparr>ti_PreviousOutPoint = \<lparr>op_Hash = replicate 32 h, op_Index = i\<rparr>, ti_SignatureScript = [],
     ti_Witness = [], ti_Sequence = 0\<rparr>"

definition sample_msg :: "TxIn \<Rightarrow> (u64 \<times> u8) list \<Rightarrow> MsgTx" where
  "sample_msg ti outs = \<lparr>tx_Version = 1, tx_TxIn = [ti],
     tx_TxOut = map (\<lambda>(v, s). \<lparr>to_Value = v, to_PkScript = [s]\<rparr>) outs, tx_LockTime = 0\<rparr>"

definition sample_ledger :: ledger where
  "sample_ledger =
     [sample_key 1 \<mapsto> (10, sample_msg (sample_input 0 0) [(100, 0xaa), (50, 0xaa), (7, 0xbb)]),
      sample_key 2 \<mapsto> (20, sample_msg (sample_input 1 0) [(99, 0xcc)]),
      sample_key 3 \<mapsto> (30, sample_msg (sample_input 1 1) [(49, 0xcc)])]"

definition sample_accounter :: accounter where
  "sample_accounter = (New (NewAddressDeriver Testnet [] 1 '''') 100 25)
     \<lparr>ac_addresses := [''aa'' \<mapsto> \<lparr>aa_path = NewAddress '''' '''' Testnet 0 0, aa_txHashes = []\<rparr>],
      ac_transactions := (\<lambda>h. map_option filed (sample_ledger h))\<rparr>"

lemma filtered_dom:
  assumes "holds_ledger L a" and "enumerates ks (ac_transactions a)"
  shows "dom (ac_transactions (filterTransactions ks a)) = dom (confirmed (ac_blockHeight a) L)"
proof -
  have "h \<in> dom (ac_transactions (filterTransactions ks a)) \<longleftrightarrow> h \<in> dom (confirmed (ac_blockHeight a) L)" for h
    using assms(1) by (cases "L h")
      (auto simp: filterTransactions_at [OF assms(2)] holds_ledger_def confirmed_def mined_def filed_def domIff)
  then show ?thesis by blast
qed

lemma sample_keys: "distinct [sample_key 0, sample_key 1, sample_key 2, sample_key 3]"
  by code_simp

lemma sample_holds: "holds_ledger sample_ledger sample_accounter"
proof -
  have "wf_tx (snd t)" if "sample_ledger h = Some t" for h t
    using that by (auto simp: sample_ledger_def wf_tx_def sample_msg_def sample_input_def wf_txin_def
      wf_txout_def wf_witness_def HashSize_def maxTxInPerMessage_def maxTxOutPerMessage_def MinTxOutPayload_def
      MaxMessagePayload_def split: if_splits)
  then show ?thesis by (auto simp: holds_ledger_def sample_accounter_def)
qed

lemma sample_simps [simp]:
  "refers (sample_input b i) = (sample_key b, unat i)"
  "tx_TxIn (sample_msg ti outs) = [ti]"
  "tx_TxOut (sample_msg ti outs) = map (\<lambda>(v, s). \<lparr>to_Value = v, to_PkScript = [s]\<rparr>) outs"
  by (simp_all add: refers_def sample_input_def sample_msg_def)

lemma sample_confirmed: "confirmed 25 sample_ledger =
  [sample_key 1 \<mapsto> sample_msg (sample_input 0 0) [(100, 0xaa), (50, 0xaa), (7, 0xbb)],
   sample_key 2 \<mapsto> sample_msg (sample_input 1 0) [(99, 0xcc)]]"
  using sample_keys by (auto simp: confirmed_def sample_ledger_def fun_eq_iff)

lemma sample_coins: "coin {''aa''} (confirmed 25 sample_ledger) op \<longleftrightarrow>
    op = (sample_key 1, 0) \<or> op = (sample_key 1, 1)"
proof -
  have "hex_encode [0xaa] = ''aa''" "hex_encode [0xbb] \<noteq> ''aa''" "hex_encode [0xcc] \<noteq> ''aa''"
    by code_simp+
  then show ?thesis
    using sample_keys unfolding sample_confirmed
    by (cases op) (auto simp: coin_def sample_msg_def less_Suc_eq numeral_3_eq_3)
qed

lemma sample_spends: "times_spent (confirmed 25 sample_ledger) op =
  (if (sample_key 0, 0) = op then 1 else 0) + (if (sample_key 1, 0) = op then 1 else 0)"
proof -
  have ne: "sample_key 2 \<noteq> sample_key 1" "sample_key 1 \<noteq> sample_key 2" using sample_keys by auto
  have "dom (confirmed 25 sample_ledger) = {sample_key 1, sample_key 2}"
    by (auto simp: sample_confirmed)
  then have "times_spent (confirmed 25 sample_ledger) op =
      (\<Sum>h\<in>{sample_key 1, sample_key 2}.
        length (filter (\<lambda>txin. refers txin = op) (tx_TxIn (the (confirmed 25 sample_ledger h)))))"
    by (simp only: times_spent_def)
  also have "\<dots> = (if (sample_key 0, 0) = op then 1 else 0) + (if (sample_key 1, 0) = op then 1 else 0)"
    using ne by (subst sum.insert) (simp_all add: sample_confirmed del: Pair_inject)
  finally show ?thesis .
qed

theorem tally_is_unspent_sum_witness:
  "tally [sample_key 1, sample_key 2, sample_key 3] [sample_key 2, sample_key 1]
     [sample_key 1, sample_key 2] [sample_key 2, sample_key 1] (sample_accounter, new_reporter) = Inr 50"
proof -
  let ?C = "confirmed 25 sample_ledger" and ?s = "(sample_accounter, new_reporter)"
  let ?ks = "[sample_key 1, sample_key 2, sample_key 3]" and ?ks' = "[sample_key 2, sample_key 1]"
  have acc: "ac_blockHeight sample_accounter = 25" "dom (ac_addresses sample_accounter) = {''aa''}"
    by (simp_all add: sample_accounter_def New_def)
  have domC: "dom ?C = {sample_key 1, sample_key 2}" by (auto simp: sample_confirmed)
  have "dom (ac_transactions sample_accounter) = dom sample_ledger"
    by (auto simp: sample_accounter_def)
  then have e1: "enumerates ?ks (ac_transactions sample_accounter)"
    using sample_keys by (auto simp: enumerates_def sample_ledger_def)
  have "dom (ac_transactions (filterTransactions ?ks sample_accounter)) = dom ?C"
    by (rule filtered_dom [OF sample_holds e1, unfolded acc])
  then have e2: "enumerates ?ks' (ac_transactions (filterTransactions ?ks sample_accounter))"
    using sample_keys by (auto simp: enumerates_def domC)
  have "dom (ac_transactions (fst (processTransactions ?ks ?ks' ?s))) = dom ?C"
    using reflects_dom [OF processed_reflects [OF sample_holds e1 e2]] by (simp add: acc)
  then have e3: "enumerates [sample_key 1, sample_key 2] (ac_transactions (fst (processTransactions ?ks ?ks' ?s)))"
    and e4: "enumerates ?ks' (ac_transactions (fst (processTransactions ?ks ?ks' ?s)))"
    using sample_keys by (auto simp: enumerates_def domC)
  have coins: "{op. coin {''aa''} ?C op} = {(sample_key 1, 0), (sample_key 1, 1)}"
    by (auto simp: sample_coins)
  have am: "amount ?C (sample_key 1, 0) = 100" "amount ?C (sample_key 1, 1) = 50"
    using sample_keys by (simp_all add: amount_def sample_confirmed)
  have ok: "amounts_ok {''aa''} ?C"
    unfolding amounts_ok_def coins by (auto simp: sample_coins am simp flip: One_nat_def)
  have "valid_history {''aa''} ?C"
    using sample_keys unfolding valid_history_def
    by (auto simp: sample_confirmed sample_coins sample_spends [unfolded sample_confirmed] split: if_splits)
  moreover have "unspent_coins {''aa''} ?C = {(sample_key 1, 1)}"
    using sample_keys by (auto simp: unspent_coins_def sample_coins sample_spends)
  ultimately obtain b where "tally ?ks ?ks' [sample_key 1, sample_key 2] ?ks' ?s = Inr b" and "uint b = 50"
    using tally_is_unspent_sum [OF sample_holds e1 e2 e3 e4, unfolded acc, OF ok] by (auto simp: am [unfolded One_nat_def])
  then show ?thesis by (simp add: word_uint_eq_iff)
qed


text \<open>
  Whether the balance is computed, and what it is, does not depend on the order in which the
  runtime ranges over the transactions in either pass.
\<close>

theorem balance_order_irrelevant:
  assumes "fresh txs"
    and "enumerates ks1 txs" and "enumerates ks2 txs" and "enumerates ls1 txs" and "enumerates ls2 txs"
  shows "balance ks1 ks2 txs = Inr b \<longleftrightarrow> balance ls1 ls2 txs = Inr b"
  by (simp add: balance_Inr_iff assms)

definition sample_outputs :: "(string \<rightharpoonup> transaction)" where
  "sample_outputs =
     [''a'' \<mapsto> \<lparr>at_height = 1, at_hex = '''', at_vin = [],
        at_vout = [\<lparr>vo_value = 7, vo_address = ''51'', vo_ours = True, vo_spentBy = None\<rparr>,
                   \<lparr>vo_value = 5, vo_address = ''51'', vo_ours = True, vo_spentBy = None\<rparr>]\<rparr>,
      ''b'' \<mapsto> \<lparr>at_height = 2, at_hex = '''', at_vin = [\<lparr>vi_prevHash = ''a'', vi_index = 0\<rparr>],
        at_vout = [\<lparr>vo_value = 6, vo_address = ''52'', vo_ours = False, vo_spentBy = None\<rparr>]\<rparr>]"

lemma sample_outputs_fresh: "fresh sample_outputs"
  by (auto simp: fresh_def sample_outputs_def split: if_splits)

lemma sample_outputs_enumerates: "enumerates [''a'', ''b''] sample_outputs" "enumerates [''b'', ''a''] sample_outputs"
  by (auto simp: enumerates_def sample_outputs_def)

theorem balance_order_irrelevant_witness:
  "balance [''b'', ''a''] [''b'', ''a''] sample_outputs = Inr 5"
proof -
  have "balance [''a'', ''b''] [''a'', ''b''] sample_outputs = Inr 5" by code_simp
  then show ?thesis
    using balance_order_irrelevant [OF sample_outputs_fresh sample_outputs_enumerates(1) sample_outputs_enumerates(1)
        sample_outputs_enumerates(2) sample_outputs_enumerates(2)] by simp
qed

text \<open>
  The panic of the sanity check against double spends never names the other transaction:
  both hashes in its message are the hash of the transaction being processed, whatever the first
  spender was, because the stored pointer is the address of the loop variable.
\<close>

theorem double_spend_names_one_hash:
  assumes "balance ks ks' txs = Inl (Panic ''%s and %s, both spending %s'' args)"
  shows "\<exists>h p. args = [Str h, Str h, Str p]"
proof -
  let ?msg = "Panic ''%s and %s, both spending %s'' args"
  have one: "\<exists>h p. args = [Str h, Str h, Str p]" if "debit_input h v s = Inl ?msg" for h v s
    using that by (cases s) (auto simp: debit_input_cases Let_def split: if_splits)
  have many: "\<exists>h p. args = [Str h, Str h, Str p]" if "sfold (debit_input h) vs s = Inl ?msg" for h vs s
    using that by (induction vs arbitrary: s) (auto simp: sbind_Inl_iff dest: one)
  have "\<exists>h p. args = [Str h, Str h, Str p]" if "sfold debit_transaction hs s = Inl ?msg" for hs s
    using that by (induction hs arbitrary: s) (auto simp: sbind_Inl_iff debit_transaction_def dest: many)
  then show ?thesis
    using assms by (auto simp: balance_def sbind_Inl_iff split: if_splits)
qed

theorem double_spend_names_one_hash_witness:
  "\<exists>h p. [Str ''c'', Str ''c'', Str ''a''] = [Str h, Str h, Str p] \<and>
     balance [''a''] [''b'', ''c'']
       (sample_outputs(''c'' \<mapsto> (the (sample_outputs ''b''))\<lparr>at_height := 3\<rparr>))
     = Inl (Panic ''%s and %s, both spending %s'' [Str h, Str h, Str p])"
proof -
  have b: "balance [''a''] [''b'', ''c'']
       (sample_outputs(''c'' \<mapsto> (the (sample_outputs ''b''))\<lparr>at_height := 3\<rparr>))
     = Inl (Panic ''%s and %s, both spending %s'' [Str ''c'', Str ''c'', Str ''a''])"
    by code_simp
  show ?thesis using double_spend_names_one_hash [OF b] b by auto
qed

text \<open>
  C16: the filter keeps exactly the transactions mined at a height from 1 to the block height, each
  parsed against the wallet's scripts, and reports their number.
\<close>

theorem processTransactions_spec:
  assumes "enumerates ks (ac_transactions a)" and "enumerates ks' (ac_transactions (filterTransactions ks a))"
  shows "(\<forall>h. ac_transactions (fst (processTransactions ks ks' (a, rep))) h =
      (case ac_transactions a h of
         Some tx \<Rightarrow> if 0 < sint (at_height tx) \<and> sint (at_height tx) \<le> uint (ac_blockHeight a)
            then Some (parse_transaction (ac_addresses a) tx) else None
       | None \<Rightarrow> None)) \<and>
    txAfterFilter (snd (processTransactions ks ks' (a, rep)))
      = of_nat (card (dom (ac_transactions (fst (processTransactions ks ks' (a, rep))))))"
proof -
  have at: "ac_transactions (fst (processTransactions ks ks' (a, rep))) h =
      map_option (parse_transaction (ac_addresses a)) (ac_transactions (filterTransactions ks a) h)" for h
    by (simp add: processTransactions_at [OF assms] filterTransactions_at [OF assms(1)])
  then have "dom (ac_transactions (fst (processTransactions ks ks' (a, rep))))
      = dom (ac_transactions (filterTransactions ks a))" by (auto simp: dom_def)
  moreover have "card (dom (ac_transactions (filterTransactions ks a))) = length ks'"
    using assms(2) by (metis distinct_card enumerates_distinct enumerates_set)
  moreover have "txAfterFilter (snd (processTransactions ks ks' (a, rep))) = of_nat (length ks')"
    by (simp add: processTransactions_def Let_def SetTxAfterFilter_def)
  ultimately show ?thesis
    by (simp add: processTransactions_at [OF assms] mined_def split: option.splits)
qed

theorem processTransactions_spec_witness:
  "let a = sample_accounter\<lparr>ac_blockHeight := 15, ac_transactions := sample_outputs(''c'' \<mapsto>
        \<lparr>at_height = 16, at_hex = '''', at_vin = [], at_vout = []\<rparr>)\<rparr> in
   txAfterFilter (snd (processTransactions [''a'', ''b'', ''c''] [''b'', ''a''] (a, new_reporter))) = 2 \<and>
   ac_transactions (fst (processTransactions [''a'', ''b'', ''c''] [''b'', ''a''] (a, new_reporter))) ''c'' = None"
proof -
  let ?a = "sample_accounter\<lparr>ac_blockHeight := 15, ac_transactions := sample_outputs(''c'' \<mapsto>
        \<lparr>at_height = 16, at_hex = '''', at_vin = [], at_vout = []\<rparr>)\<rparr>"
  have e: "enumerates [''a'', ''b'', ''c''] (ac_transactions ?a)"
    by (auto simp: enumerates_def sample_outputs_def)
  have f: "enumerates [''b'', ''a''] (ac_transactions (filterTransactions [''a'', ''b'', ''c''] ?a))"
  proof -
    have "ac_transactions (filterTransactions [''a'', ''b'', ''c''] ?a) = sample_outputs"
    proof
      fix h
      show "ac_transactions (filterTransactions [''a'', ''b'', ''c''] ?a) h = sample_outputs h"
        unfolding filterTransactions_at [OF e] by (simp add: sample_outputs_def mined_def)
    qed
    then show ?thesis using sample_outputs_enumerates(2) by simp
  qed
  have "txAfterFilter (snd (processTransactions [''a'', ''b'', ''c''] [''b'', ''a''] (?a, new_reporter))) = 2"
    by (simp add: processTransactions_def Let_def SetTxAfterFilter_def)
  then show ?thesis
    using processTransactions_spec [OF e f, of new_reporter] by (simp add: Let_def)
qed



end
