(* ===== verification/Ledger.thy ===== *)
theory Ledger
  imports Fetch Balance
begin

text \<open>
  The result of the tally of \<^verbatim>\<open>accounter/accounter.go\<close> in terms of the ledger behind the backend: when
  the answers tell the truth about a ledger, the transactions that were not fetched do not matter.
\<close>

section \<open>Ledgers and what the accounter sees of them\<close>

lemma confirmed_restrict: "confirmed bh (L |` S) = confirmed bh L |` S"
  by (auto simp: confirmed_def restrict_map_def fun_eq_iff)

text \<open>A set \<open>S\<close> of transactions that has everything of \<open>C\<close> that pays a script or spends such a payment.\<close>

definition covers :: "string set \<Rightarrow> (string \<rightharpoonup> MsgTx) \<Rightarrow> string set \<Rightarrow> bool" where
  "covers scripts C S \<longleftrightarrow>
     (\<forall>op. coin scripts C op \<longrightarrow> fst op \<in> S \<and>
        (\<forall>h msg. C h = Some msg \<longrightarrow> op \<in> refers ` set (tx_TxIn msg) \<longrightarrow> h \<in> S))"

lemma coversD:
  assumes "covers W C S" and "coin W C op"
  shows "fst op \<in> S" "C h = Some msg \<Longrightarrow> txin \<in> set (tx_TxIn msg) \<Longrightarrow> refers txin = op \<Longrightarrow> h \<in> S"
  using assms unfolding covers_def by blast+

lemma coin_covered: "covers W C S \<Longrightarrow> coin W (C |` S) op = coin W C op"
  using coversD(1) [of W C S op]
  by (auto simp: coin_def restrict_map_def split: option.splits if_splits)

lemma amount_covered: "covers W C S \<Longrightarrow> coin W C op \<Longrightarrow> amount (C |` S) op = amount C op"
  using coversD(1) [of W C S op] by (simp add: amount_def)

lemma times_spent_covered:
  assumes "covers W C S" and "coin W C op" and "finite (dom C)"
  shows "times_spent (C |` S) op = times_spent C op"
  unfolding times_spent_def
proof (rule sum.mono_neutral_cong_left)
  show "\<forall>h\<in>dom C - dom (C |` S). length (filter (\<lambda>txin. refers txin = op) (tx_TxIn (the (C h)))) = 0"
    using coversD(2) [OF assms(1,2)] by (auto simp: filter_empty_conv)
qed (use assms(3) in auto)

lemma unspent_covered:
  assumes "covers W C S" and "finite (dom C)"
  shows "unspent_coins W (C |` S) = unspent_coins W C"
  using times_spent_covered [OF assms(1) _ assms(2)] by (auto simp: unspent_coins_def coin_covered [OF assms(1)])

lemma valid_covered:
  assumes "covers W C S" and "finite (dom C)" and "valid_history W C"
  shows "valid_history W (C |` S)"
  using assms(3) times_spent_covered [OF assms(1) _ assms(2)]
  unfolding valid_history_def coin_covered [OF assms(1)] by (auto simp: restrict_map_def split: if_splits)

lemma amounts_covered:
  assumes "covers W C S" and "amounts_ok W C"
  shows "amounts_ok W (C |` S)"
  using assms(2) unfolding amounts_ok_def coin_covered [OF assms(1)]
  by (auto simp: amount_covered [OF assms(1)] cong: sum.cong_simp)

lemma unspent_sum_covered:
  assumes "covers W C S" and "finite (dom C)"
  shows "(\<Sum>op\<in>unspent_coins W (C |` S). amount (C |` S) op) = (\<Sum>op\<in>unspent_coins W C. amount C op)"
  unfolding unspent_covered [OF assms]
  by (rule sum.cong) (auto simp: unspent_coins_def amount_covered [OF assms(1)])

text \<open>
  The scripts of the addresses below the bounds \<open>K\<close>, the transactions of a ledger that touch one,
  and answers that tell the truth about a ledger.
\<close>

definition wallet_scripts :: "('k, 'p) btc_lib \<Rightarrow> AddressDeriver \<Rightarrow> u32 list \<Rightarrow> string set" where
  "wallet_scripts lib d K = {sc. \<exists>a\<in>#asked lib d K. Address_Script lib a = Inr sc}"

definition pays :: "string \<Rightarrow> MsgTx \<Rightarrow> nat \<Rightarrow> bool" where
  "pays sc msg i \<longleftrightarrow> i < length (tx_TxOut msg) \<and> hex_encode (to_PkScript (tx_TxOut msg ! i)) = sc"

definition touches :: "ledger \<Rightarrow> string \<Rightarrow> string \<Rightarrow> bool" where
  "touches L sc h \<longleftrightarrow> (\<exists>t. L h = Some t \<and> ((\<exists>i. pays sc (snd t) i) \<or>
     (\<exists>txin\<in>set (tx_TxIn (snd t)). \<exists>t'. L (fst (refers txin)) = Some t' \<and> pays sc (snd t') (snd (refers txin)))))"

definition response_of :: "string \<Rightarrow> u64 \<times> MsgTx \<Rightarrow> TxResponse" where
  "response_of h = (\<lambda>(height, msg). \<lparr>tr_Hash = h, tr_Height = height,
     tr_Hex = hex_encode (BtcEncode WitnessEncoding msg)\<rparr>)"

definition truthful ::
    "('k, 'p) btc_lib \<Rightarrow> AddressDeriver \<Rightarrow> ledger \<Rightarrow> (Address \<Rightarrow> AddrResponse) \<Rightarrow> (string \<Rightarrow> TxResponse option)
      \<Rightarrow> u32 list \<Rightarrow> bool" where
  "truthful lib d L addr_answer tx_answer K \<longleftrightarrow>
     finite (dom L) \<and> (\<forall>h t. L h = Some t \<longrightarrow> wf_tx (snd t)) \<and>
     (\<forall>h\<in>listed lib d addr_answer K. tx_answer h = map_option (response_of h) (L h)) \<and>
     (\<forall>a\<in>#asked lib d K. ar_Address (addr_answer a) = a \<and>
        (\<forall>sc h. Address_Script lib a = Inr sc \<longrightarrow> touches L sc h \<longrightarrow> h \<in> set (ar_TxHashes (addr_answer a))))"

lemma truthful_covers:
  assumes "truthful lib d L addr_answer tx_answer K"
  shows "covers (wallet_scripts lib d K) (confirmed bh L) (listed lib d addr_answer K)"
proof -
  have t: "h \<in> listed lib d addr_answer K" if "sc \<in> wallet_scripts lib d K" "touches L sc h" for sc h
    using assms that by (fastforce simp: truthful_def wallet_scripts_def listed_def answers_def)
  have c: "L h = Some (ht, msg)" if "confirmed bh L h = Some msg" "ht = fst (the (L h))" for h ht msg
    using that by (auto simp: confirmed_def split: option.splits if_splits)
  show ?thesis
    unfolding covers_def
  proof (intro allI impI conjI)
    fix op
    assume "coin (wallet_scripts lib d K) (confirmed bh L) op"
    then obtain sc ht msg where w: "sc \<in> wallet_scripts lib d K" and o: "L (fst op) = Some (ht, msg)"
      and p: "pays sc msg (snd op)"
      by (auto simp: coin_def pays_def split: option.splits dest: c)
    then show "fst op \<in> listed lib d addr_answer K" by (intro t [OF w]) (auto simp: touches_def)
    fix h msg'
    assume m: "confirmed bh L h = Some msg'" and "op \<in> refers ` set (tx_TxIn msg')"
    then obtain txin where "txin \<in> set (tx_TxIn msg')" "refers txin = op" by auto
    moreover obtain ht' where "L h = Some (ht', msg')" using c [OF m] by blast
    ultimately have "touches L sc h" using o p by (fastforce simp: touches_def)
    then show "h \<in> listed lib d addr_answer K" by (rule t [OF w])
  qed
qed

lemma truthful_ledger:
  assumes "truthful lib d L addr_answer tx_answer K" and "fetched lib d la addr_answer tx_answer a"
    and "ac_lastAddresses a = K"
  shows "holds_ledger (L |` listed lib d addr_answer K) a" "dom (ac_addresses a) = wallet_scripts lib d K"
proof -
  have "filed_tx (response_of h t) = filed t" for h t
    by (cases t) (simp add: filed_tx_def response_of_def filed_def)
  then show "holds_ledger (L |` listed lib d addr_answer K) a"
    using assms by (auto simp: holds_ledger_def fetched_def truthful_def fun_eq_iff restrict_map_def
        option.map_comp comp_def split: if_splits)
  show "dom (ac_addresses a) = wallet_scripts lib d K"
    using assms by (auto simp: fetched_def truthful_def wallet_scripts_def answers_def)
qed

text \<open>What the tally of a fetched accounter is, in terms of the whole ledger.\<close>

lemma tally_fetched:
  assumes t: "truthful lib d L addr_answer tx_answer K"
    and f: "fetched lib d la addr_answer tx_answer a" "ac_lastAddresses a = K"
    and ks: "enumerates ks1 (ac_transactions a)" "enumerates ks2 (ac_transactions (filterTransactions ks1 a))"
      "enumerates ks3 (ac_transactions (fst (processTransactions ks1 ks2 (a, rep))))"
      "enumerates ks4 (ac_transactions (fst (processTransactions ks1 ks2 (a, rep))))"
    and ok: "valid_history (wallet_scripts lib d K) (confirmed (ac_blockHeight a) L)"
      "amounts_ok (wallet_scripts lib d K) (confirmed (ac_blockHeight a) L)"
  shows "\<exists>b. tally ks1 ks2 ks3 ks4 (a, rep) = Inr b \<and>
    uint b = (\<Sum>op\<in>unspent_coins (wallet_scripts lib d K) (confirmed (ac_blockHeight a) L).
       amount (confirmed (ac_blockHeight a) L) op)"
proof -
  let ?W = "wallet_scripts lib d K" and ?C = "confirmed (ac_blockHeight a) L" and ?S = "listed lib d addr_answer K"
  have cov: "covers ?W ?C ?S" by (rule truthful_covers [OF t])
  have fin: "finite (dom ?C)"
    by (rule finite_subset [of _ "dom L"]) (use t in \<open>auto simp: confirmed_def truthful_def split: option.splits\<close>)
  note h = truthful_ledger [OF t f]
  have "amounts_ok (dom (ac_addresses a)) (confirmed (ac_blockHeight a) (L |` ?S))"
    using amounts_covered [OF cov ok(2)] by (simp add: h(2) confirmed_restrict)
  from tally_correct [OF h(1) ks this] show ?thesis
    using valid_covered [OF cov fin ok(1)] unspent_sum_covered [OF cov fin]
    by (simp add: h(2) confirmed_restrict)
qed

section \<open>The whole computation\<close>

text \<open>
  \<open>ComputeBalance\<close> as a relation between the initial state of the program \<open>step\<close> and what the call
  gives: the tally once \<^verbatim>\<open>recvWork\<close> has returned, for some order of each of the four loops over the
  map of transactions, or the panic of one of the goroutines.
\<close>

inductive ComputeBalance :: "('b fetch \<Rightarrow> 'b fetch \<Rightarrow> bool) \<Rightarrow> 'b fetch \<Rightarrow> u64 result \<Rightarrow> bool" for step s0 where
  returns: "step\<^sup>*\<^sup>* s0 s \<Longrightarrow> \<not> panicked s \<Longrightarrow> f_receiver s = Returned \<Longrightarrow>
     enumerates ks1 (ac_transactions (f_acc s)) \<Longrightarrow>
     enumerates ks2 (ac_transactions (filterTransactions ks1 (f_acc s))) \<Longrightarrow>
     enumerates ks3 (ac_transactions (fst (processTransactions ks1 ks2 (f_acc s, f_rep s)))) \<Longrightarrow>
     enumerates ks4 (ac_transactions (fst (processTransactions ks1 ks2 (f_acc s, f_rep s)))) \<Longrightarrow>
     ComputeBalance step s0 (tally ks1 ks2 ks3 ks4 (f_acc s, f_rep s))"
| sender_panics: "step\<^sup>*\<^sup>* s0 s \<Longrightarrow> f_sender s = SenderPanic e \<Longrightarrow> ComputeBalance step s0 (Inl e)"
| receiver_panics: "step\<^sup>*\<^sup>* s0 s \<Longrightarrow> f_receiver s = ReceiverPanic e \<Longrightarrow> ComputeBalance step s0 (Inl e)"


context backend_contract
begin

text \<open>Over any backend that keeps the contract and tells the truth about a ledger.\<close>

lemma ComputeBalance_correct:
  assumes "ComputeBalance (fetch_step lib work addr_send addr_recv tx_send tx_recv) (fetch_start (New d la bh) rep b) r"
    and b: "binv b" "addr_owed b = {#}" "tx_owed b = {#}"
    and K: "least_bounds lib d la addr_answer K" "servable lib d addr_answer K" "counts_fit lib d addr_answer K"
    and t: "truthful lib d L addr_answer tx_answer K"
    and ok: "valid_history (wallet_scripts lib d K) (confirmed bh L)"
      "amounts_ok (wallet_scripts lib d K) (confirmed bh L)"
  shows "\<exists>w. r = Inr w \<and>
    uint w = (\<Sum>op\<in>unspent_coins (wallet_scripts lib d K) (confirmed bh L). amount (confirmed bh L) op)"
  using assms(1)
proof cases
  case (returns s ks1 ks2 ks3 ks4)
  note f = fetch_least [OF returns(2) b returns(4) K]
  show ?thesis
    using tally_fetched [OF t _ _ returns(5-8), of la] f ok by (simp add: returns(1))
next
  case (sender_panics s e)
  then show ?thesis
    using never_panics [OF sender_panics(2) b _ K(2)] K(1) by (simp add: least_bounds_def)
next
  case (receiver_panics s e)
  then show ?thesis
    using never_panics [OF receiver_panics(2) b _ K(2)] K(1) by (simp add: least_bounds_def)
qed

end

end
