(* ===== verification/ComputeBalance.thy ===== *)
theory ComputeBalance
  imports Ledger
begin

text \<open>
  \<^verbatim>\<open>ComputeBalance\<close> of \<^verbatim>\<open>accounter/accounter.go\<close> as a whole, over a fixture backend, directly or through a
  recorder: the concurrent fetch of the theory \<open>Fetch\<close>, followed by the tally of the theory
  \<open>Balance\<close>.
\<close>

section \<open>Programs\<close>

abbreviation fixture_program ::
    "('k, 'p) btc_lib \<Rightarrow> (fixture_backend \<times> worker) fetch \<Rightarrow> (fixture_backend \<times> worker) fetch \<Rightarrow> bool" where
  "fixture_program lib \<equiv> fetch_step lib fixture_processRequests fx_addr_send fx_addr_recv fx_tx_send fx_tx_recv"

abbreviation recorder_program ::
    "('k, 'p) btc_lib \<Rightarrow> ((fixture_backend \<times> worker) \<times> recorder_backend \<times> worker) fetch
      \<Rightarrow> ((fixture_backend \<times> worker) \<times> recorder_backend \<times> worker) fetch \<Rightarrow> bool" where
  "recorder_program lib \<equiv> fetch_step lib
     (recorder_work fixture_processRequests fx_addr_recv fx_tx_recv fx_block_recv)
     (\<lambda>a. rc_send (fx_addr_send a)) rc_addr_recv (\<lambda>h. rc_send (fx_tx_send h)) rc_tx_recv"

abbreviation fixture_started :: "json_index \<Rightarrow> fixture_backend \<times> worker" where
  "fixture_started j \<equiv> (fixture_of j, Idle)"

abbreviation recorder_started :: "json_index \<Rightarrow> string \<Rightarrow> (fixture_backend \<times> worker) \<times> recorder_backend \<times> worker" where
  "recorder_started j file \<equiv> (fixture_started j, NewRecorderBackend file, Idle)"

lemma fixture_start_facts:
  "fixture_loaded j (fixture_started j)" "fixture_addr_owed (fixture_started j) = {#}"
  "fixture_tx_owed (fixture_started j) = {#}"
  by (simp_all add: owed_defs fixture_of_simps List.map_filter_simps)

lemma fixture_completed:
  assumes "(fixture_program lib)\<^sup>*\<^sup>* (fetch_start (New d la bh) rep (fixture_started j)) s"
    and "\<not> panicked s" and "f_receiver s = Returned"
    and "counts_fit lib d (fixture_processAddrRequest (fixture_of j)) (ac_lastAddresses (f_acc s))"
  shows "fetched lib d la (fixture_processAddrRequest (fixture_of j)) (fixture_processTxRequest (fixture_of j)) (f_acc s)
    \<and> ac_blockHeight (f_acc s) = bh
    \<and> (\<forall>K. closed_bounds lib d la (fixture_processAddrRequest (fixture_of j)) K \<longrightarrow> within s K)"
  by (rule fx.fetch_completed [OF assms(1) fixture_start_facts assms(2,3,4)])

lemma recorder_completed:
  assumes "(recorder_program lib)\<^sup>*\<^sup>* (fetch_start (New d la bh) rep (recorder_started j file)) s"
    and "\<not> panicked s" and "f_receiver s = Returned"
    and "counts_fit lib d (fixture_processAddrRequest (fixture_of j)) (ac_lastAddresses (f_acc s))"
  shows "fetched lib d la (fixture_processAddrRequest (fixture_of j)) (fixture_processTxRequest (fixture_of j)) (f_acc s)
    \<and> ac_blockHeight (f_acc s) = bh
    \<and> (\<forall>K. closed_bounds lib d la (fixture_processAddrRequest (fixture_of j)) K \<longrightarrow> within s K)"
  by (rule rfx.fetch_completed [OF assms(1) _ _ _ assms(2,3,4)])
    (simp_all add: fixture_start_facts recorder_idle)

section \<open>An executable schedule\<close>

text \<open>
  One way to run the program: the receiver as long as it can, then the goroutines of the backend,
  then the sender.  The operations of the backend are functions here; the locale says they are
  steps of the relations, and then every run of the schedule is a run of the program.
\<close>

record 'b ops =
  op_addr_send :: "Address \<Rightarrow> 'b \<Rightarrow> 'b option"
  op_addr_recv :: "'b \<Rightarrow> (AddrResponse \<times> 'b) option"
  op_tx_send :: "string \<Rightarrow> 'b \<Rightarrow> 'b option"
  op_tx_recv :: "'b \<Rightarrow> (TxResponse \<times> 'b) option"
  op_work :: "'b \<Rightarrow> 'b option"

definition run_sender :: "('k, 'p) btc_lib \<Rightarrow> 'b ops \<Rightarrow> 'b fetch \<Rightarrow> 'b fetch option" where
  "run_sender lib ops s =
     (case f_sender s of
        ReadBound change \<Rightarrow>
          if holds_lock (f_receiver s) then None
          else (case getLastAddress change (f_acc s) of
              Inr lastAddr \<Rightarrow> Some (s\<lparr>f_sender := Deriving change lastAddr\<rparr>) | Inl _ \<Rightarrow> None)
      | Deriving change lastAddr \<Rightarrow>
          if f_indexes s ! unat change < lastAddr then
            if holds_lock (f_receiver s) then None
            else (case Derive lib (ac_deriver (f_acc s)) change (f_indexes s ! unat change) of
                Inr addr \<Rightarrow> Some (s\<lparr>f_sender := Requesting change lastAddr addr, f_acc := count_derived (f_acc s)\<rparr>)
              | Inl e \<Rightarrow> Some (s\<lparr>f_sender := SenderPanic e\<rparr>))
          else Some (s\<lparr>f_sender := ReadBound (if change = 0 then 1 else 0)\<rparr>)
      | Requesting change lastAddr addr \<Rightarrow>
          map_option (\<lambda>b. s\<lparr>f_sender := Deriving change lastAddr, f_backend := b,
               f_rep := AddrRequest_report (f_rep s),
               f_indexes := (f_indexes s)[unat change := f_indexes s ! unat change + 1]\<rparr>)
            (op_addr_send ops addr (f_backend s))
      | SenderPanic _ \<Rightarrow> None)"

definition run_receiver :: "('k, 'p) btc_lib \<Rightarrow> 'b ops \<Rightarrow> 'b fetch \<Rightarrow> 'b fetch option" where
  "run_receiver lib ops s =
     (case f_receiver s of
        Selecting \<Rightarrow>
          if complete (f_acc s) then Some (s\<lparr>f_receiver := Returned\<rparr>)
          else (case op_addr_recv ops (f_backend s) of
              Some (resp, b) \<Rightarrow> (case file_address lib resp (f_acc s) of
                Inr a \<Rightarrow> Some (s\<lparr>f_receiver := SeeTxs resp (ar_TxHashes resp), f_backend := b,
                  f_acc := a, f_rep := IncAddressesFetched (f_rep s)\<rparr>)
              | Inl e \<Rightarrow> Some (s\<lparr>f_receiver := ReceiverPanic e, f_backend := b\<rparr>))
            | None \<Rightarrow> map_option (\<lambda>(resp, b). s\<lparr>f_backend := b,
                  f_acc := file_transaction resp (f_acc s), f_rep := IncTxFetched (f_rep s)\<rparr>)
                (op_tx_recv ops (f_backend s)))
      | SeeTxs resp [] \<Rightarrow> Some (s\<lparr>f_receiver := Extending resp\<rparr>)
      | SeeTxs resp (h # hs) \<Rightarrow>
          if unseen h (f_acc s) then
            map_option (\<lambda>b. s\<lparr>f_receiver := SeeTxs resp hs, f_backend := b,
                 f_acc := count_seen (f_acc s), f_rep := TxRequest_report (f_rep s)\<rparr>)
              (op_tx_send ops h (f_backend s))
          else Some (s\<lparr>f_receiver := SeeTxs resp hs\<rparr>)
      | Extending resp \<Rightarrow> (case extend_lookahead resp (f_acc s) of
            Inr a \<Rightarrow> Some (s\<lparr>f_receiver := Selecting, f_acc := a\<rparr>)
          | Inl e \<Rightarrow> Some (s\<lparr>f_receiver := ReceiverPanic e\<rparr>))
      | _ \<Rightarrow> None)"

fun run :: "('k, 'p) btc_lib \<Rightarrow> 'b ops \<Rightarrow> nat \<Rightarrow> 'b fetch \<Rightarrow> 'b fetch" where
  "run lib ops 0 s = s"
| "run lib ops (Suc n) s =
     (if panicked s \<or> f_receiver s = Returned then s
      else case run_receiver lib ops s of Some s' \<Rightarrow> run lib ops n s'
      | None \<Rightarrow> case op_work ops (f_backend s) of Some b \<Rightarrow> run lib ops n (s\<lparr>f_backend := b\<rparr>)
      | None \<Rightarrow> case run_sender lib ops s of Some s' \<Rightarrow> run lib ops n s'
      | None \<Rightarrow> s)"

lemma next_changes:
  "f_sender s = Deriving 0 l \<Longrightarrow> \<not> f_indexes s ! 0 < l \<Longrightarrow> sendWork lib snd_op s (s\<lparr>f_sender := ReadBound 1\<rparr>)"
  "f_sender s = Deriving c l \<Longrightarrow> \<not> f_indexes s ! unat c < l \<Longrightarrow> c \<noteq> 0 \<Longrightarrow>
     sendWork lib snd_op s (s\<lparr>f_sender := ReadBound 0\<rparr>)"
  using sendWork.next_change [of s 0 l lib snd_op] sendWork.next_change [of s c l lib snd_op] by simp_all

locale scheduler =
  fixes work :: "'b \<Rightarrow> 'b \<Rightarrow> bool"
    and addr_send :: "Address \<Rightarrow> 'b \<Rightarrow> 'b \<Rightarrow> bool"
    and addr_recv :: "'b \<Rightarrow> AddrResponse \<Rightarrow> 'b \<Rightarrow> bool"
    and tx_send :: "string \<Rightarrow> 'b \<Rightarrow> 'b \<Rightarrow> bool"
    and tx_recv :: "'b \<Rightarrow> TxResponse \<Rightarrow> 'b \<Rightarrow> bool"
    and ops :: "'b ops"
  assumes op_addr_send: "op_addr_send ops a b = Some b' \<Longrightarrow> addr_send a b b'"
    and op_addr_recv: "op_addr_recv ops b = Some (r, b') \<Longrightarrow> addr_recv b r b'"
    and op_tx_send: "op_tx_send ops h b = Some b' \<Longrightarrow> tx_send h b b'"
    and op_tx_recv: "op_tx_recv ops b = Some (t, b') \<Longrightarrow> tx_recv b t b'"
    and op_work: "op_work ops b = Some b' \<Longrightarrow> work b b'"
begin

lemma run_sender_sound: "run_sender lib ops s = Some s' \<Longrightarrow> sendWork lib addr_send s s'"
  unfolding run_sender_def
  by (auto split: sender.splits sum.splits if_splits dest: op_addr_send
      intro: sendWork.intros next_changes simp del: fetch.update_convs)

lemma receives:
  "f_receiver s = Selecting \<Longrightarrow> op_addr_recv ops (f_backend s) = Some (r, b) \<Longrightarrow>
     file_address lib r (f_acc s) = Inr a \<Longrightarrow>
     recvWork lib addr_recv tx_send tx_recv s
       (s\<lparr>f_receiver := SeeTxs r (ar_TxHashes r), f_backend := b, f_acc := a,
          f_rep := IncAddressesFetched (f_rep s)\<rparr>)"
  "f_receiver s = Selecting \<Longrightarrow> op_addr_recv ops (f_backend s) = Some (r, b) \<Longrightarrow>
     file_address lib r (f_acc s) = Inl e \<Longrightarrow>
     recvWork lib addr_recv tx_send tx_recv s (s\<lparr>f_receiver := ReceiverPanic e, f_backend := b\<rparr>)"
  using recvWork.address [of s addr_recv r b lib a] recvWork.address_panic [of s addr_recv r b lib e]
    op_addr_recv by blast+

lemma run_receiver_sound: "run_receiver lib ops s = Some s' \<Longrightarrow> recvWork lib addr_recv tx_send tx_recv s s'"
  unfolding run_receiver_def
  by (auto split: receiver.splits sum.splits option.splits if_splits list.splits
      dest: op_tx_send op_tx_recv intro: recvWork.intros receives simp del: fetch.update_convs)

lemma run_sound: "(fetch_step lib work addr_send addr_recv tx_send tx_recv)\<^sup>*\<^sup>* s (run lib ops n s)"
proof (induction n arbitrary: s)
  case 0
  then show ?case by simp
next
  case (Suc n)
  show ?case
    by (auto split: option.splits simp del: panicked.simps
        dest!: run_receiver_sound op_work run_sender_sound
        intro: Suc.IH converse_rtranclp_into_rtranclp [OF _ Suc.IH] fetch_step.intros)
qed

end

definition fixture_ops :: "(fixture_backend \<times> worker) ops" where
  "fixture_ops =
     \<lparr>op_addr_send = (\<lambda>a (fb, w). map_option (\<lambda>fb. (fb, w)) (fixture_addr_send a fb)),
      op_addr_recv = (\<lambda>(fb, w). map_option (\<lambda>(r, fb). (r, fb, w)) (fixture_addr_recv fb)),
      op_tx_send = (\<lambda>h (fb, w). map_option (\<lambda>fb. (fb, w)) (fixture_tx_send h fb)),
      op_tx_recv = (\<lambda>(fb, w). map_option (\<lambda>(t, fb). (t, fb, w)) (fixture_tx_recv fb)),
      op_work = (\<lambda>(fb, w). case w of
        Idle \<Rightarrow>
          (case fb_addrRequests fb of
             a # q \<Rightarrow> Some (fb\<lparr>fb_addrRequests := q\<rparr>, SendAddr (fixture_processAddrRequest fb a))
           | [] \<Rightarrow> (case fb_txRequests fb of
               h # q \<Rightarrow> Some (fb\<lparr>fb_txRequests := q\<rparr>,
                 case fixture_processTxRequest fb h of Some r \<Rightarrow> SendTx r | None \<Rightarrow> Idle)
             | [] \<Rightarrow> None))
      | SendAddr r \<Rightarrow> if length (fb_addrResponses fb) < 10
          then Some (fb\<lparr>fb_addrResponses := fb_addrResponses fb @ [r]\<rparr>, Idle) else None
      | SendTx r \<Rightarrow> if length (fb_txResponses fb) < 1000
          then Some (fb\<lparr>fb_txResponses := fb_txResponses fb @ [r]\<rparr>, Idle) else None
      | _ \<Rightarrow> None)\<rparr>"

interpretation fixture_sched: scheduler fixture_processRequests fx_addr_send fx_addr_recv fx_tx_send fx_tx_recv fixture_ops
proof
  fix b b'
  assume "op_work fixture_ops b = Some b'"
  then show "fixture_processRequests b b'"
    by (auto simp: fixture_ops_def split: prod.splits worker.splits list.splits if_splits
        intro: fixture_processRequests.intros)
qed (auto simp: fixture_ops_def)

text \<open>A recorder before a backend: the recorder's goroutine first, then the backend's.\<close>

definition recorded_ops :: "'b ops \<Rightarrow> ('b \<times> recorder_backend \<times> worker) ops" where
  "recorded_ops ops =
     \<lparr>op_addr_send = (\<lambda>a (b, s). map_option (\<lambda>b. (b, s)) (op_addr_send ops a b)),
      op_addr_recv = (\<lambda>(b, rb, w). map_option (\<lambda>(r, rb). (r, b, rb, w)) (recorder_addr_recv rb)),
      op_tx_send = (\<lambda>h (b, s). map_option (\<lambda>b. (b, s)) (op_tx_send ops h b)),
      op_tx_recv = (\<lambda>(b, rb, w). map_option (\<lambda>(t, rb). (t, b, rb, w)) (recorder_tx_recv rb)),
      op_work = (\<lambda>(b, rb, w). case w of
        Idle \<Rightarrow>
          (case op_addr_recv ops b of
             Some (r, b) \<Rightarrow> Some (b, record_addr r rb, SendAddr r)
           | None \<Rightarrow> (case op_tx_recv ops b of
               Some (t, b) \<Rightarrow> Some (b, record_tx t rb, SendTx t)
             | None \<Rightarrow> map_option (\<lambda>b. (b, rb, w)) (op_work ops b)))
      | SendAddr r \<Rightarrow> if length (rb_addrResponses rb) < 100
          then Some (b, rb\<lparr>rb_addrResponses := rb_addrResponses rb @ [r]\<rparr>, Idle) else None
      | SendTx t \<Rightarrow> if length (rb_txResponses rb) < 2 * 1000
          then Some (b, rb\<lparr>rb_txResponses := rb_txResponses rb @ [t]\<rparr>, Idle) else None
      | _ \<Rightarrow> None)\<rparr>"

context scheduler
begin

lemma recorded_scheduler:
  "scheduler (recorder_work work addr_recv tx_recv block_recv)
     (\<lambda>a. rc_send (addr_send a)) rc_addr_recv (\<lambda>h. rc_send (tx_send h)) rc_tx_recv (recorded_ops ops)"
proof
  fix b b'
  assume "op_work (recorded_ops ops) b = Some b'"
  then show "recorder_work work addr_recv tx_recv block_recv b b'"
    by (auto simp: recorded_ops_def split: prod.splits worker.splits option.splits if_splits
        dest!: op_addr_recv op_tx_recv op_work
        intro: recorder_work.wrapped recorder_work.own recorder_processRequests.intros
          recorder_processRequests.send_tx [simplified])
qed (auto simp: recorded_ops_def split: prod.splits dest: op_addr_send op_tx_send)

end

interpretation recorder_sched: scheduler
  "recorder_work fixture_processRequests fx_addr_recv fx_tx_recv fx_block_recv"
  "\<lambda>a. rc_send (fx_addr_send a)" rc_addr_recv "\<lambda>h. rc_send (fx_tx_send h)" rc_tx_recv "recorded_ops fixture_ops"
  by (rule fixture_sched.recorded_scheduler)

section \<open>A recorded wallet\<close>

text \<open>A library with keys of three bytes, which keeps the evaluation of runs short.\<close>

definition demo_lib :: "(u8 list, u8 list) btc_lib" where
  "demo_lib = sample_lib
     \<lparr>NewKeyFromString := (\<lambda>s. NewKeyFromString sample_lib (drop 4 s)),
      KeyString := (\<lambda>k. ''tpub'' @ KeyString sample_lib k),
      Child := (\<lambda>k i. Inr (k @ [ucast i])),
      KeyAddress := (\<lambda>k params. Inr (AddressPubKeyHash k (PubKeyHashAddrID params))),
      EncodeAddress := (\<lambda>a. hex_encode (ScriptAddress a)),
      DecodeAddress := (\<lambda>s params. Inr (AddressPubKeyHash (fst (hex_decode s)) (PubKeyHashAddrID params)))\<rparr>"

definition demo_deriver :: AddressDeriver where
  "demo_deriver = NewAddressDeriver Testnet [''tpubA''] 1 ''''"

definition demo_msg :: MsgTx where
  "demo_msg = \<lparr>tx_Version = 1, tx_TxIn = [sample_input 0 0],
     tx_TxOut = [\<lparr>to_Value = 100, to_PkScript = [0x76, 0xa9, 0x03, 0x41, 0x00, 0x01, 0x88, 0xac]\<rparr>],
     tx_LockTime = 0\<rparr>"

definition demo_index :: "string \<Rightarrow> json_index" where
  "demo_index txhex = \<lparr>ji_Height = 1000,
     ji_Addresses = [\<lparr>j_Address = ''410001'', j_Path = ''m/.../0/1'',
       j_Network = Testnet, j_Change = 0, j_AddressIndex = 1, j_TxHashes = [''t'']\<rparr>],
     ji_Transactions = [\<lparr>jt_Hash = ''t'', jt_Height = 10, jt_Hex = txhex\<rparr>],
     ji_Blocks = []\<rparr>"

text \<open>
  The fixture of a wallet whose second receiving address was paid in the transaction \<open>t\<close>, whose hex
  is the argument.  With a lookahead of two, that payment moves the bound to three.
\<close>

definition demo_run :: "string \<Rightarrow> (fixture_backend \<times> worker) fetch" where
  "demo_run txhex = run demo_lib fixture_ops 200
     (fetch_start (New demo_deriver 2 25) new_reporter (fixture_started (demo_index txhex)))"

definition demo_recorded_run :: "string \<Rightarrow> ((fixture_backend \<times> worker) \<times> recorder_backend \<times> worker) fetch" where
  "demo_recorded_run txhex = run demo_lib (recorded_ops fixture_ops) 200
     (fetch_start (New demo_deriver 2 25) new_reporter (recorder_started (demo_index txhex) ''f''))"

definition observed :: "'b fetch \<Rightarrow> receiver \<times> bool \<times> u32 list" where
  "observed s = (f_receiver s, panicked s, ac_lastAddresses (f_acc s))"

lemma demo_observed: "observed (demo_run txhex) = (Returned, False, [3, 2])"
  by code_simp

lemma demo_recorded_observed: "observed (demo_recorded_run txhex) = (Returned, False, [3, 2])"
  by code_simp

lemma demo_state:
  "f_receiver (demo_run txhex) = Returned" "\<not> panicked (demo_run txhex)"
  "ac_lastAddresses (f_acc (demo_run txhex)) = [3, 2]"
  "f_receiver (demo_recorded_run txhex) = Returned" "\<not> panicked (demo_recorded_run txhex)"
  "ac_lastAddresses (f_acc (demo_recorded_run txhex)) = [3, 2]"
  using demo_observed [of txhex] demo_recorded_observed [of txhex] by (simp_all add: observed_def)

lemma demo_reached:
  "(fixture_program demo_lib)\<^sup>*\<^sup>* (fetch_start (New demo_deriver 2 25) new_reporter (fixture_started (demo_index txhex)))
     (demo_run txhex)"
  unfolding demo_run_def by (rule fixture_sched.run_sound)

lemma demo_recorded_reached:
  "(recorder_program demo_lib)\<^sup>*\<^sup>*
     (fetch_start (New demo_deriver 2 25) new_reporter (recorder_started (demo_index txhex) ''f''))
     (demo_recorded_run txhex)"
  unfolding demo_recorded_run_def by (rule recorder_sched.run_sound)

lemma demo_answer_length:
  "length (ar_TxHashes (fixture_processAddrRequest (fixture_of (demo_index txhex)) a)) \<le> 1"
  by (simp add: fixture_processAddrRequest_def fixture_of_simps demo_index_def)

lemma short_answers:
  "(\<And>a. length (ar_TxHashes (f a)) \<le> 1) \<Longrightarrow> (\<Sum>r\<in>#image_mset f M. length (ar_TxHashes r)) \<le> size M"
proof (induction M)
  case (add a M)
  have "length (ar_TxHashes (f a)) \<le> 1" by (rule add.prems)
  moreover have "(\<Sum>r\<in>#image_mset f M. length (ar_TxHashes r)) \<le> size M" by (rule add.IH [OF add.prems])
  ultimately show ?case by simp
qed simp

lemma demo_fits:
  "counts_fit demo_lib demo_deriver (fixture_processAddrRequest (fixture_of (demo_index txhex))) [3, 2]"
  using short_answers [of "fixture_processAddrRequest (fixture_of (demo_index txhex))"
      "asked demo_lib demo_deriver [3, 2]", OF demo_answer_length]
  by (simp add: counts_fit_def answers_def size_asked)

section \<open>Properties\<close>

text \<open>
  C6: when the accounter's fetch over a fixture returns, whatever the interleaving, nothing is
  missing and nothing is superfluous: every address below the final bound of each chain was
  answered and is filed under its script, the transactions held are exactly those the answers
  list, each with the recorded height and hex, the bound is at least the lookahead past every used
  address, and no smaller bounds have that property.
\<close>

theorem fetch_is_complete:
  assumes "(fixture_program lib)\<^sup>*\<^sup>* (fetch_start (New d la bh) rep (fixture_started j)) s"
    and "\<not> panicked s" and "f_receiver s = Returned"
    and "counts_fit lib d (fixture_processAddrRequest (fixture_of j)) (ac_lastAddresses (f_acc s))"
  shows "fetched lib d la (fixture_processAddrRequest (fixture_of j)) (fixture_processTxRequest (fixture_of j)) (f_acc s)
    \<and> (\<forall>K. closed_bounds lib d la (fixture_processAddrRequest (fixture_of j)) K \<longrightarrow> within s K)"
  using fixture_completed [OF assms] by blast

theorem fetch_is_complete_witness:
  "ac_transactions (f_acc (demo_run ''00'')) ''t'' = Some \<lparr>at_height = 10, at_hex = ''00'', at_vin = [], at_vout = []\<rparr>"
proof -
  let ?ans = "fixture_processAddrRequest (fixture_of (demo_index ''00''))"
  have f: "fetched demo_lib demo_deriver 2 ?ans (fixture_processTxRequest (fixture_of (demo_index ''00'')))
      (f_acc (demo_run ''00''))"
    using fetch_is_complete [OF demo_reached demo_state(2,1)] demo_fits by (simp add: demo_state)
  have a: "Derive demo_lib demo_deriver 0 1 = Inr (NewAddress ''m/.../0/1'' ''410001'' Testnet 0 1)"
    by code_simp
  have "addr_of demo_lib demo_deriver 0 1 \<in> set (asked_change demo_lib demo_deriver 0 3)"
    unfolding asked_change_def by (intro image_eqI [where x = 1, THEN image_set [THEN equalityD1, THEN subsetD]]) simp_all
  then have "?ans (addr_of demo_lib demo_deriver 0 1) \<in># answers demo_lib demo_deriver ?ans [3, 2]"
    by (simp add: answers_def asked_def)
  moreover have "ar_TxHashes (?ans (addr_of demo_lib demo_deriver 0 1)) = [''t'']"
    by (simp add: addr_of_def a fixture_processAddrRequest_def fixture_of_simps demo_index_def go_simps)
  ultimately have "''t'' \<in> listed demo_lib demo_deriver ?ans [3, 2]"
    unfolding listed_def by force
  then show ?thesis
    using f by (simp add: fetched_def demo_state fixture_processTxRequest_def fixture_of_simps demo_index_def filed_tx_def)
qed

text \<open>
  The interleaving does not matter.  Two completed fetches over the same fixture end with the
  same bounds, the same transactions and the same set of filed scripts.
\<close>

theorem fetch_deterministic:
  assumes "(fixture_program lib)\<^sup>*\<^sup>* (fetch_start (New d la bh) rep (fixture_started j)) s"
    and "\<not> panicked s" and "f_receiver s = Returned"
    and "counts_fit lib d (fixture_processAddrRequest (fixture_of j)) (ac_lastAddresses (f_acc s))"
    and "(fixture_program lib)\<^sup>*\<^sup>* (fetch_start (New d la bh) rep' (fixture_started j)) t"
    and "\<not> panicked t" and "f_receiver t = Returned"
    and "counts_fit lib d (fixture_processAddrRequest (fixture_of j)) (ac_lastAddresses (f_acc t))"
  shows "same_result (f_acc s) (f_acc t)"
  using fixture_completed [OF assms(1-4)] fixture_completed [OF assms(5-8)]
  by (intro fetched_unique [of lib d la _ _ s t]) auto

theorem fetch_deterministic_witness:
  "same_result (f_acc (demo_run ''00'')) (f_acc (run demo_lib fixture_ops 1 (demo_run ''00'')))"
proof -
  have "run demo_lib fixture_ops 1 (demo_run ''00'') = demo_run ''00''" by (simp add: demo_state)
  then show ?thesis
    using fetch_deterministic [OF demo_reached demo_state(2,1) _ demo_reached demo_state(2,1)] demo_fits
    by (simp add: demo_state)
qed



lemma fixture_tx_finite: "finite (dom (fixture_processTxRequest (fixture_of j)))"
proof -
  have "fixture_processTxRequest (fixture_of j) = fb_txIndex (fixture_of j)"
    by (simp add: fixture_processTxRequest_def fun_eq_iff)
  then show ?thesis by (simp add: fixture_of_simps fold_upd_map_of finite_dom_map_of)
qed

text \<open>
  C3: the balance of a wallet.  Over a fixture whose answers tell the truth about a ledger, the only
  thing \<open>ComputeBalance\<close> can give is the sum of the amounts of the coins that pay a script of the
  wallet (the addresses below the least bounds that are a lookahead past every used address) and that are mined
  and unspent up to the block height, for every interleaving and every order of the maps.
\<close>

theorem ComputeBalance_is_wallet_balance:
  assumes "ComputeBalance (fixture_program lib) (fetch_start (New d la bh) rep (fixture_started j)) r"
    and "least_bounds lib d la (fixture_processAddrRequest (fixture_of j)) K"
    and "servable lib d (fixture_processAddrRequest (fixture_of j)) K"
    and "counts_fit lib d (fixture_processAddrRequest (fixture_of j)) K"
    and "truthful lib d L (fixture_processAddrRequest (fixture_of j)) (fixture_processTxRequest (fixture_of j)) K"
    and "valid_history (wallet_scripts lib d K) (confirmed bh L)"
    and "amounts_ok (wallet_scripts lib d K) (confirmed bh L)"
  shows "\<exists>b. r = Inr b \<and>
    uint b = (\<Sum>op\<in>unspent_coins (wallet_scripts lib d K) (confirmed bh L). amount (confirmed bh L) op)"
  by (rule fx.ComputeBalance_correct [OF assms(1) fixture_start_facts assms(2-7)])

lemma order_of_map: "finite (dom m) \<Longrightarrow> \<exists>ks. enumerates ks m"
  using finite_distinct_list [of "dom m"] by (auto simp: enumerates_def)

lemma tally_orders:
  assumes "finite (dom (ac_transactions a))"
  obtains ks1 ks2 ks3 ks4 where "enumerates ks1 (ac_transactions a)"
    "enumerates ks2 (ac_transactions (filterTransactions ks1 a))"
    "enumerates ks3 (ac_transactions (fst (processTransactions ks1 ks2 (a, rep))))"
    "enumerates ks4 (ac_transactions (fst (processTransactions ks1 ks2 (a, rep))))"
proof -
  obtain ks1 where 1: "enumerates ks1 (ac_transactions a)" using order_of_map [OF assms] by blast
  have "dom (ac_transactions (filterTransactions ks1 a)) \<subseteq> dom (ac_transactions a)"
    by (auto simp: filterTransactions_at [OF 1] keep_mined_def bind_eq_Some_conv)
  then obtain ks2 where 2: "enumerates ks2 (ac_transactions (filterTransactions ks1 a))"
    using assms order_of_map finite_subset by blast
  have "dom (ac_transactions (fst (processTransactions ks1 ks2 (a, rep)))) \<subseteq> dom (ac_transactions a)"
    by (auto simp: processTransactions_at [OF 1 2] keep_mined_def bind_eq_Some_conv)
  then obtain ks3 where "enumerates ks3 (ac_transactions (fst (processTransactions ks1 ks2 (a, rep))))"
    using assms order_of_map finite_subset by blast
  then show ?thesis using that 1 2 by blast
qed

text \<open>The hypotheses on the wallet that was recorded, evaluated over the addresses asked for.\<close>

abbreviation demo_hex :: string where "demo_hex \<equiv> hex_encode (BtcEncode WitnessEncoding demo_msg)"

abbreviation demo_answer :: "string \<Rightarrow> Address \<Rightarrow> AddrResponse" where
  "demo_answer txhex \<equiv> fixture_processAddrRequest (fixture_of (demo_index txhex))"

definition demo_ledger :: ledger where
  "demo_ledger = [''t'' \<mapsto> (10, demo_msg)]"

definition demo_script :: "u8 \<times> u8 \<Rightarrow> string" where
  "demo_script b = hex_encode [0x76, 0xa9, 0x03, 0x41, fst b, snd b, 0x88, 0xac]"

definition demo_addresses :: "Address list" where
  "demo_addresses = asked_change demo_lib demo_deriver 0 3 @ asked_change demo_lib demo_deriver 1 2"

lemma demo_asked: "asked demo_lib demo_deriver [3, 2] = mset demo_addresses"
  by (simp add: asked_def demo_addresses_def)

lemma demo_facts:
  "map (\<lambda>a. (Address_Script demo_lib a, ar_TxHashes (demo_answer txhex a),
      ar_Address (demo_answer txhex a) = a \<and> unat (Change a) < 2)) demo_addresses
   = map (\<lambda>b. (Inr (demo_script b), if b = (0, 1) then [''t''] else [], True)) [(0, 0), (0, 1), (0, 2), (1, 0), (1, 1)]"
  by code_simp

lemma demo_address:
  assumes "a \<in> set demo_addresses"
  obtains b where "b \<in> {(0, 0), (0, 1), (0, 2), (1, 0), (1, 1)}" "Address_Script demo_lib a = Inr (demo_script b)"
    "ar_TxHashes (demo_answer txhex a) = (if b = (0, 1) then [''t''] else [])"
    "ar_Address (demo_answer txhex a) = a" "unat (Change a) < 2"
proof -
  let ?f = "\<lambda>a. (Address_Script demo_lib a, ar_TxHashes (demo_answer txhex a),
      ar_Address (demo_answer txhex a) = a \<and> unat (Change a) < 2)"
  have "?f a \<in> ?f ` set demo_addresses" using assms by (rule imageI)
  then have "?f a \<in> (\<lambda>b. (Inr (demo_script b), if b = (0, 1) then [''t''] else [], True)) `
      {(0, 0), (0, 1), (0, 2), (1, 0), (1, 1)}"
    unfolding set_map [symmetric] demo_facts by (simp only: set_map list.set)
  then obtain b where b: "b \<in> {(0, 0), (0, 1), (0, 2), (1, 0), (1, 1)}"
    and f: "?f a = (Inr (demo_script b), if b = (0, 1) then [''t''] else [], True)"
    by (rule imageE)
  show ?thesis by (rule that [OF b]) (use f in \<open>simp_all only: prod.inject simp_thms\<close>)
qed

lemma demo_script_inject: "demo_script b = demo_script b' \<longleftrightarrow> b = b'"
  unfolding demo_script_def hex_encode_inject by (simp add: prod_eq_iff)

lemma demo_wallet: "wallet_scripts demo_lib demo_deriver [3, 2]
    = demo_script ` {(0, 0), (0, 1), (0, 2), (1, 0), (1, 1)}"
proof -
  have scripts: "map (Address_Script demo_lib) demo_addresses
      = map (\<lambda>b. Inr (demo_script b)) [(0, 0), (0, 1), (0, 2), (1, 0), (1, 1)]"
    using arg_cong [OF demo_facts, of "map fst"] by (simp only: map_map comp_def fst_conv)
  have "sc \<in> wallet_scripts demo_lib demo_deriver [3, 2] \<longleftrightarrow>
      Inr sc \<in> set (map (Address_Script demo_lib) demo_addresses)" for sc
    by (auto simp: wallet_scripts_def demo_asked image_iff eq_commute)
  then show ?thesis unfolding scripts by auto
qed

lemma demo_pays: "pays sc demo_msg i \<longleftrightarrow> i = 0 \<and> sc = demo_script (0, 1)"
  by (auto simp: pays_def demo_msg_def demo_script_def)

lemma demo_least: "least_bounds demo_lib demo_deriver 2 (demo_answer txhex) [3, 2]"
  using fixture_completed [OF demo_reached demo_state(2,1), of txhex] demo_fits [of txhex]
  by (simp add: least_bounds_def fetched_def within_def demo_state)

lemma demo_servable: "servable demo_lib demo_deriver (demo_answer txhex) [3, 2]"
proof -
  have "\<not> isl (Derive demo_lib demo_deriver c i)" for c i
    by (simp add: demo_deriver_def demo_lib_def sample_lib_def Derive_def NewAddressDeriver_def Let_def
        singleDerive_def childKey_def PanicOnError_def at_index_def sbind_def)
  moreover have "\<not> isl (Address_Script demo_lib (ar_Address r)) \<and> unat (Change (ar_Address r)) < 2"
    if r: "r \<in># answers demo_lib demo_deriver (demo_answer txhex) [3, 2]" for r
  proof -
    obtain a where "a \<in> set demo_addresses" "r = demo_answer txhex a"
      using r by (auto simp: answers_def demo_asked)
    then show ?thesis by (elim demo_address [of a txhex]) simp
  qed
  ultimately show ?thesis by (simp add: servable_def)
qed

lemma demo_ledger_finite: "finite (dom demo_ledger)"
  by (simp add: demo_ledger_def)

lemma demo_truthful: "truthful demo_lib demo_deriver demo_ledger (demo_answer demo_hex)
    (fixture_processTxRequest (fixture_of (demo_index demo_hex))) [3, 2]"
proof -
  have "fixture_processTxRequest (fixture_of (demo_index demo_hex)) h = map_option (response_of h) (demo_ledger h)" for h
    by (simp add: fixture_processTxRequest_def fixture_of_simps demo_index_def demo_ledger_def response_of_def)
  moreover have "wf_tx (snd t)" if "demo_ledger h = Some t" for h t
    using that by (auto simp: demo_ledger_def wf_tx_def demo_msg_def sample_input_def wf_txin_def
      wf_txout_def wf_witness_def HashSize_def maxTxInPerMessage_def maxTxOutPerMessage_def MinTxOutPayload_def
      MaxMessagePayload_def split: if_splits)
  moreover have "ar_Address (demo_answer demo_hex a) = a \<and> (\<forall>sc h. Address_Script demo_lib a = Inr sc \<longrightarrow>
      touches demo_ledger sc h \<longrightarrow> h \<in> set (ar_TxHashes (demo_answer demo_hex a)))"
    if a: "a \<in> set demo_addresses" for a
    by (rule demo_address [OF a, of demo_hex])
      (auto simp: touches_def demo_ledger_def demo_pays demo_script_inject split: if_splits)
  ultimately show ?thesis by (simp add: truthful_def demo_asked demo_ledger_finite)
qed

lemma demo_inputs: "tx_TxIn demo_msg = [sample_input 0 0]"
  by (simp add: demo_msg_def)

lemma demo_confirmed: "confirmed 25 demo_ledger = [''t'' \<mapsto> demo_msg]"
  by (auto simp: confirmed_def demo_ledger_def fun_eq_iff)

text \<open>A history of the one transaction, under any hash but the one its input refers to.\<close>

lemma demo_history:
  assumes "h \<noteq> sample_key 0"
  shows "valid_history (wallet_scripts demo_lib demo_deriver [3, 2]) [h \<mapsto> demo_msg]"
    "amounts_ok (wallet_scripts demo_lib demo_deriver [3, 2]) [h \<mapsto> demo_msg]"
    "(\<Sum>op\<in>unspent_coins (wallet_scripts demo_lib demo_deriver [3, 2]) [h \<mapsto> demo_msg]. amount [h \<mapsto> demo_msg] op) = 100"
proof -
  let ?W = "wallet_scripts demo_lib demo_deriver [3, 2]" and ?C = "[h \<mapsto> demo_msg]"
  have "hex_encode (to_PkScript (tx_TxOut demo_msg ! 0)) = demo_script (0, 1)" "length (tx_TxOut demo_msg) = 1"
    by (simp_all add: demo_msg_def demo_script_def)
  then have coin: "coin ?W ?C op \<longleftrightarrow> op = (h, 0)" for op
    by (cases op) (auto simp: coin_def demo_wallet)
  have spent: "times_spent ?C (h, 0) = 0"
    using assms by (simp add: times_spent_def demo_inputs)
  have am: "amount ?C (h, 0) = 100" by (simp add: amount_def) (simp add: demo_msg_def)
  show "valid_history ?W ?C"
    using assms by (auto simp: valid_history_def coin spent demo_inputs)
  show "amounts_ok ?W ?C" by (simp add: amounts_ok_def coin am)
  have "unspent_coins ?W ?C = {(h, 0)}" by (auto simp: unspent_coins_def coin spent)
  then show "(\<Sum>op\<in>unspent_coins ?W ?C. amount ?C op) = 100" by (simp add: am)
qed

lemma demo_computes:
  "\<exists>r. ComputeBalance (fixture_program demo_lib)
     (fetch_start (New demo_deriver 2 25) new_reporter (fixture_started (demo_index demo_hex))) r"
proof -
  let ?s = "demo_run demo_hex"
  have f: "fetched demo_lib demo_deriver 2 (demo_answer demo_hex)
      (fixture_processTxRequest (fixture_of (demo_index demo_hex))) (f_acc ?s)"
    using fixture_completed [OF demo_reached demo_state(2,1)] demo_fits by (simp add: demo_state)
  then have "finite (dom (ac_transactions (f_acc ?s)))"
    by (intro finite_subset [OF _ fixture_tx_finite [of "demo_index demo_hex"]]) (auto simp: fetched_def split: if_splits)
  then show ?thesis
    using ComputeBalance.returns [OF demo_reached demo_state(2,1), of _ demo_hex]
    by (elim tally_orders [where rep = "f_rep ?s"]) blast
qed

lemma demo_valid: "valid_history (wallet_scripts demo_lib demo_deriver [3, 2]) (confirmed 25 demo_ledger)"
    "amounts_ok (wallet_scripts demo_lib demo_deriver [3, 2]) (confirmed 25 demo_ledger)"
    "(\<Sum>op\<in>unspent_coins (wallet_scripts demo_lib demo_deriver [3, 2]) (confirmed 25 demo_ledger).
       amount (confirmed 25 demo_ledger) op) = 100"
proof -
  have "''t'' \<noteq> sample_key 0" by code_simp
  from demo_history [OF this] show "valid_history (wallet_scripts demo_lib demo_deriver [3, 2]) (confirmed 25 demo_ledger)"
    "amounts_ok (wallet_scripts demo_lib demo_deriver [3, 2]) (confirmed 25 demo_ledger)"
    "(\<Sum>op\<in>unspent_coins (wallet_scripts demo_lib demo_deriver [3, 2]) (confirmed 25 demo_ledger).
       amount (confirmed 25 demo_ledger) op) = 100"
    unfolding demo_confirmed .
qed

lemma uint_100: "uint (b :: u64) = 100 \<Longrightarrow> b = 100"
  by (simp add: word_uint_eq_iff)

lemma demo_balance:
  "ComputeBalance (fixture_program demo_lib)
     (fetch_start (New demo_deriver 2 25) new_reporter (fixture_started (demo_index demo_hex))) (Inr 100)"
proof -
  obtain r where r: "ComputeBalance (fixture_program demo_lib)
     (fetch_start (New demo_deriver 2 25) new_reporter (fixture_started (demo_index demo_hex))) r"
    using demo_computes ..
  obtain w where w: "r = Inr w" "uint w = 100"
    using fx.ComputeBalance_correct [OF r fixture_start_facts demo_least demo_servable demo_fits demo_truthful demo_valid(1,2)]
    unfolding demo_valid(3) by (elim exE conjE)
  show ?thesis using r unfolding w(1) uint_100 [OF w(2)] .
qed

theorem ComputeBalance_is_wallet_balance_witness:
  "\<exists>r b. ComputeBalance (fixture_program demo_lib)
     (fetch_start (New demo_deriver 2 25) new_reporter (fixture_started (demo_index demo_hex))) r \<and> r = Inr b \<and> uint b = 100"
  using demo_computes ComputeBalance_is_wallet_balance [OF _ demo_least demo_servable demo_fits demo_truthful demo_valid(1,2)]
  unfolding demo_valid(3) by blast

end
