(* ===== verification/Ideal.thy ===== *)
theory Ideal
  imports Ledger
begin

text \<open>
  What the interface \<^verbatim>\<open>Backend\<close> of \<^verbatim>\<open>backend/backend.go\<close> promises, as an abstract machine: the ideal
  backend.  It has no goroutines, channels, caches or connections; its state is the answers it owes.
  A request adds its answer, a response takes any of them.  Every backend that keeps the contract
  refines it: what \<open>ComputeBalance\<close> can give over the backend, it can give over the ideal one.
\<close>

type_synonym ideal = "AddrResponse multiset \<times> TxResponse multiset"

text \<open>The answer to a request for a transaction carries the hash of the request.\<close>

definition keyed :: "(string \<Rightarrow> TxResponse option) \<Rightarrow> string \<Rightarrow> TxResponse option" where
  "keyed tx_answer h = map_option (\<lambda>t. t\<lparr>tr_Hash := h\<rparr>) (tx_answer h)"

definition ideal_work :: "ideal \<Rightarrow> ideal \<Rightarrow> bool" where
  "ideal_work s s' \<longleftrightarrow> False"

definition ideal_addr_send :: "(Address \<Rightarrow> AddrResponse) \<Rightarrow> Address \<Rightarrow> ideal \<Rightarrow> ideal \<Rightarrow> bool" where
  "ideal_addr_send addr_answer a s s' \<longleftrightarrow> s' = (add_mset (addr_answer a) (fst s), snd s)"

definition ideal_addr_recv :: "ideal \<Rightarrow> AddrResponse \<Rightarrow> ideal \<Rightarrow> bool" where
  "ideal_addr_recv s r s' \<longleftrightarrow> r \<in># fst s \<and> s' = (fst s - {#r#}, snd s)"

definition ideal_tx_send :: "(string \<Rightarrow> TxResponse option) \<Rightarrow> string \<Rightarrow> ideal \<Rightarrow> ideal \<Rightarrow> bool" where
  "ideal_tx_send tx_answer h s s' \<longleftrightarrow>
     s' = (fst s, case keyed tx_answer h of None \<Rightarrow> snd s | Some t \<Rightarrow> add_mset t (snd s))"

definition ideal_tx_recv :: "ideal \<Rightarrow> TxResponse \<Rightarrow> ideal \<Rightarrow> bool" where
  "ideal_tx_recv s t s' \<longleftrightarrow> t \<in># snd s \<and> s' = (fst s, snd s - {#t#})"

lemmas ideal_defs = ideal_work_def ideal_addr_send_def ideal_addr_recv_def ideal_tx_send_def ideal_tx_recv_def

interpretation ideal: backend_contract ideal_work "ideal_addr_send addr_answer" ideal_addr_recv
    "ideal_tx_send tx_answer" ideal_tx_recv fst snd addr_answer "keyed tx_answer" "\<lambda>_. True"
  for addr_answer tx_answer
  by unfold_locales (auto simp: ideal_defs keyed_def)

abbreviation ideal_program ::
    "('k, 'p) btc_lib \<Rightarrow> (Address \<Rightarrow> AddrResponse) \<Rightarrow> (string \<Rightarrow> TxResponse option) \<Rightarrow> ideal fetch \<Rightarrow> ideal fetch \<Rightarrow> bool" where
  "ideal_program lib addr_answer tx_answer \<equiv>
     fetch_step lib ideal_work (ideal_addr_send addr_answer) ideal_addr_recv (ideal_tx_send tx_answer) ideal_tx_recv"

section \<open>Refinement\<close>

text \<open>The state of the program with the backend seen through \<open>f\<close>.\<close>

definition seen_as :: "('b \<Rightarrow> 'c) \<Rightarrow> 'b fetch \<Rightarrow> 'c fetch" where
  "seen_as f s = \<lparr>f_acc = f_acc s, f_rep = f_rep s, f_backend = f (f_backend s), f_indexes = f_indexes s,
     f_sender = f_sender s, f_receiver = f_receiver s\<rparr>"

lemma seen_as_simps [simp]:
  "f_acc (seen_as f s) = f_acc s" "f_rep (seen_as f s) = f_rep s" "f_backend (seen_as f s) = f (f_backend s)"
  "f_indexes (seen_as f s) = f_indexes s" "f_sender (seen_as f s) = f_sender s"
  "f_receiver (seen_as f s) = f_receiver s"
  "seen_as f (s\<lparr>f_acc := a\<rparr>) = seen_as f s\<lparr>f_acc := a\<rparr>"
  "seen_as f (s\<lparr>f_rep := rep\<rparr>) = seen_as f s\<lparr>f_rep := rep\<rparr>"
  "seen_as f (s\<lparr>f_indexes := idx\<rparr>) = seen_as f s\<lparr>f_indexes := idx\<rparr>"
  "seen_as f (s\<lparr>f_sender := p\<rparr>) = seen_as f s\<lparr>f_sender := p\<rparr>"
  "seen_as f (s\<lparr>f_receiver := q\<rparr>) = seen_as f s\<lparr>f_receiver := q\<rparr>"
  "seen_as f (s\<lparr>f_backend := b\<rparr>) = seen_as f s\<lparr>f_backend := f b\<rparr>"
  "panicked (seen_as f s) \<longleftrightarrow> panicked s"
  by (simp_all add: seen_as_def panicked.simps)

declare panicked.simps [simp del]

lemma start_as [simp]:
  "seen_as f (fetch_start a rep b) = fetch_start a rep (f b)" "f_backend (fetch_start a rep b) = b"
  by (simp_all add: seen_as_def fetch_start_def)

context backend_contract
begin

abbreviation "owes b \<equiv> (addr_owed b, tx_owed b)"

lemma keyed_answer: "keyed tx_answer = tx_answer"
proof
  fix h
  show "keyed tx_answer h = tx_answer h" using tx_answer_hash [of h] by (cases "tx_answer h") (auto simp: keyed_def)
qed

lemma channels_refine:
  assumes "binv b"
  shows "addr_send a b b' \<Longrightarrow> binv b' \<and> ideal_addr_send addr_answer a (owes b) (owes b')"
    and "addr_recv b r b' \<Longrightarrow> binv b' \<and> ideal_addr_recv (owes b) r (owes b')"
    and "tx_send h b b' \<Longrightarrow> binv b' \<and> ideal_tx_send tx_answer h (owes b) (owes b')"
    and "tx_recv b t b' \<Longrightarrow> binv b' \<and> ideal_tx_recv (owes b) t (owes b')"
  using addr_send_owed [OF assms, of a b'] addr_recv_owed [OF assms, of r b']
    tx_send_owed [OF assms, of h b'] tx_recv_owed [OF assms, of t b']
  by (simp_all add: ideal_defs keyed_answer split: option.splits)

lemma sendWork_refines:
  assumes "sendWork lib addr_send s s'" and "binv (f_backend s)"
  shows "binv (f_backend s') \<and> sendWork lib (ideal_addr_send addr_answer) (seen_as owes s) (seen_as owes s')"
  using assms
proof (induction rule: sendWork.induct)
  case (request s change lastAddr addr b')
  then show ?case
    using channels_refine(1) [OF request(3,2)] sendWork.request [of "seen_as owes s" change lastAddr addr "ideal_addr_send addr_answer" "owes b'"] by simp
next
  case (next_change s change lastAddr)
  then show ?case using sendWork.next_change [of "seen_as owes s" change lastAddr lib "ideal_addr_send addr_answer"] by simp
qed (auto intro: sendWork.intros [of "seen_as owes s" for s, simplified])

lemma recvWork_refines:
  assumes "recvWork lib addr_recv tx_send tx_recv s s'" and "binv (f_backend s)"
  shows "binv (f_backend s') \<and>
    recvWork lib ideal_addr_recv (ideal_tx_send tx_answer) ideal_tx_recv (seen_as owes s) (seen_as owes s')"
  using assms
proof (induction rule: recvWork.induct)
  case (address s resp b' a')
  then show ?case
    using channels_refine(2) [OF address(4,2)] recvWork.address [of "seen_as owes s" ideal_addr_recv resp "owes b'" lib a' "ideal_tx_send tx_answer" ideal_tx_recv] by simp
next
  case (address_panic s resp b' e)
  then show ?case
    using channels_refine(2) [OF address_panic(4,2)] recvWork.address_panic [of "seen_as owes s" ideal_addr_recv resp "owes b'" lib e "ideal_tx_send tx_answer" ideal_tx_recv] by simp
next
  case (unknown s resp h hs b')
  then show ?case
    using channels_refine(3) [OF unknown(4,3)] recvWork.unknown [of "seen_as owes s" resp h hs "ideal_tx_send tx_answer" "owes b'" lib ideal_addr_recv ideal_tx_recv] by simp
next
  case (transaction s resp b')
  then show ?case
    using channels_refine(4) [OF transaction(3,2)] recvWork.transaction [of "seen_as owes s" ideal_tx_recv resp "owes b'" lib ideal_addr_recv "ideal_tx_send tx_answer"] by simp
qed (auto intro: recvWork.intros [of "seen_as owes s" for s, simplified])

text \<open>A step of the backend's own goroutines is invisible, every other step is one of the ideal program.\<close>

lemma fetch_refines:
  assumes "(fetch_step lib work addr_send addr_recv tx_send tx_recv)\<^sup>*\<^sup>* s s'" and "binv (f_backend s)"
  shows "binv (f_backend s') \<and> (ideal_program lib addr_answer tx_answer)\<^sup>*\<^sup>* (seen_as owes s) (seen_as owes s')"
  using assms
proof (induction rule: rtranclp_induct)
  case base
  then show ?case by simp
next
  case (step s1 s2)
  then have b: "binv (f_backend s1)" and r: "(ideal_program lib addr_answer tx_answer)\<^sup>*\<^sup>* (seen_as owes s) (seen_as owes s1)"
    by auto
  from step(2) show ?case
  proof cases
    case send
    then show ?thesis
      using sendWork_refines [OF send(2) b] rtranclp.rtrancl_into_rtrancl [OF r fetch_step.send] send(1) by simp
  next
    case recv
    then show ?thesis
      using recvWork_refines [OF recv(2) b] rtranclp.rtrancl_into_rtrancl [OF r fetch_step.recv] recv(1) by simp
  next
    case (backend b')
    then have "binv b'" "owes b' = owes (f_backend s1)" using work_owed [OF b] by auto
    then have "seen_as owes s2 = seen_as owes s1" using backend(1) by (simp add: seen_as_def)
    then show ?thesis using r \<open>binv b'\<close> backend(1) by simp
  qed
qed

lemma ComputeBalance_refines:
  assumes "ComputeBalance (fetch_step lib work addr_send addr_recv tx_send tx_recv) (fetch_start a rep b) r"
    and "binv b"
  shows "ComputeBalance (ideal_program lib addr_answer tx_answer) (fetch_start a rep (owes b)) r"
  using assms(1)
proof cases
  case (returns s ks1 ks2 ks3 ks4)
  then show ?thesis
    using fetch_refines [OF returns(2)] assms(2) ComputeBalance.returns [of _ _ "seen_as owes s" ks1 ks2 ks3 ks4]
    by simp
next
  case (sender_panics s e)
  then show ?thesis
    using fetch_refines [OF sender_panics(2)] assms(2) ComputeBalance.sender_panics [of _ _ "seen_as owes s" e]
    by simp
next
  case (receiver_panics s e)
  then show ?thesis
    using fetch_refines [OF receiver_panics(2)] assms(2) ComputeBalance.receiver_panics [of _ _ "seen_as owes s" e]
    by simp
qed

end

declare panicked.simps [simp]

end
