(* ===== verification/ElectrumNode.thy ===== *)
theory ElectrumNode
  imports Backend
begin

text \<open>
  \<^verbatim>\<open>backend/electrum/tcp.go\<close> and \<^verbatim>\<open>backend/electrum/blockchain.go\<close>: one request and its response over a
  connection, and the methods of a node.  The connection is a state with three operations, and the
  text of JSON is behind two functions; the values in a response are the datatype \<open>json\<close>, and how
  \<^verbatim>\<open>json.Unmarshal\<close> stores them in the Go types is written out.
\<close>

section \<open>Values\<close>

datatype json =
    JNull
  | JBool bool
  | JInt int
  | JFrac string  \<comment> \<open>a number that is not an integer\<close>
  | JString string
  | JArray "json list"
  | JObject "(string \<times> json) list"

record ErrorResponse =
  er_Code :: int
  er_Message :: string

record RequestMessage =
  rq_Id :: u64
  rq_Method :: string
  rq_Params :: "json list"

record ResponseMessage =
  rs_Id :: u64
  rs_JsonRpc :: string
  rs_Result :: json
  rs_Error :: "ErrorResponse option"

definition ErrNodeShutdown :: go_error where "ErrNodeShutdown = Errorf ''node has shutdown'' []"
definition ErrIdMismatch :: go_error where "ErrIdMismatch = Errorf ''response id mismatch'' []"
definition ErrUnknown :: go_error where "ErrUnknown = Errorf ''unknown error'' []"
definition ErrNetwork :: go_error where "ErrNetwork = Errorf ''network error'' []"
definition ErrAPI :: go_error where "ErrAPI = Errorf ''received API error'' []"

lemmas err_defs = ErrNodeShutdown_def ErrIdMismatch_def ErrUnknown_def ErrNetwork_def ErrAPI_def

section \<open>The transport\<close>

text \<open>
  \<open>ReadBytes\<close> is the first line that arrives before the deadline; what a fresh buffered reader takes
  from the connection behind that line is lost with the reader.
\<close>

record 'c conn_ops =
  conn_Write :: "string \<Rightarrow> 'c \<Rightarrow> (nat \<times> go_error option) \<times> 'c"
  conn_ReadBytes :: "char \<Rightarrow> 'c \<Rightarrow> string fallible \<times> 'c"
  conn_Close :: "'c \<Rightarrow> go_error option \<times> 'c"
  json_Marshal :: "RequestMessage \<Rightarrow> string fallible"
  json_Unmarshal :: "string \<Rightarrow> ResponseMessage fallible"

definition messageDelim :: char where "messageDelim = CHR 0x0A"

definition Shutdown :: "'c conn_ops \<Rightarrow> 'c \<Rightarrow> go_error option \<times> 'c" where
  "Shutdown ops c = conn_Close ops c"

text \<open>The connection is an option: \<^verbatim>\<open>nil\<close> is \<open>None\<close>.\<close>

definition SendMessage ::
    "'c conn_ops \<Rightarrow> RequestMessage \<Rightarrow> 'c option \<Rightarrow> ResponseMessage fallible \<times> 'c option" where
  "SendMessage ops request conn =
     (case conn of
        None \<Rightarrow> (Inl ErrNodeShutdown, None)
      | Some c \<Rightarrow>
     (case json_Marshal ops request of
        Inl err \<Rightarrow> (Inl err, Some c)
      | Inr body \<Rightarrow>
          (let body = body @ [messageDelim];
               ((n, err), c) = conn_Write ops body c in
           if err \<noteq> None then (Inl ErrNetwork, Some (snd (Shutdown ops c)))
           else if n \<noteq> length body then (Inl ErrNetwork, Some (snd (Shutdown ops c)))
           else
             (case conn_ReadBytes ops messageDelim c of
                (Inl err, c) \<Rightarrow> (Inl ErrNetwork, Some (snd (Shutdown ops c)))
              | (Inr line, c) \<Rightarrow>
             (case json_Unmarshal ops line of
                Inl err \<Rightarrow> (Inl ErrUnknown, Some (snd (Shutdown ops c)))
              | Inr resp \<Rightarrow>
                  if rs_Id resp \<noteq> rq_Id request then (Inl ErrIdMismatch, Some (snd (Shutdown ops c)))
                  else if rs_Error resp \<noteq> None then (Inl ErrAPI, Some c)
                  else (Inr resp, Some c))))))"

section \<open>Nodes\<close>

record 'c node =
  n_Ident :: string
  n_Network :: network
  n_transport :: "'c option"
  n_nextId :: u64

definition NodeIdent :: "string \<Rightarrow> string \<Rightarrow> string" where
  "NodeIdent addr port = addr @ ''|'' @ port"

definition defaultPorts :: "network \<Rightarrow> (string \<times> string) result" where
  "defaultPorts network =
     (if network = Mainnet then Inr (''50001'', ''50002'')
      else if network = Testnet then Inr (''50101'', ''50102'')
      else Inl (Panic ''unreachable'' []))"

text \<open>Whether to use TLS, and the address to dial.\<close>

definition dial_address :: "string \<Rightarrow> string \<Rightarrow> network \<Rightarrow> (bool \<times> string) result" where
  "dial_address addr port network =
     sbind (defaultPorts network) (\<lambda>(defaultTCP, defaultSSL).
     let a = (if CHR '':'' \<in> set addr then ''['' @ addr @ '']'' else addr) in
     sbind (at_index port 0) (\<lambda>c.
     if c = CHR ''t'' then
       Inr (False, a @ '':'' @ (if length port = 1 then defaultTCP else drop 1 port))
     else if c = CHR ''s'' then
       Inr (True, a @ '':'' @ (if length port = 1 then defaultSSL else drop 1 port))
     else Inl (Panic ''port (%s) must start with t or s'' [Str port])))"

text \<open>
  A transport holds the connection; dialling, with the timeout and the TLS configuration, is the argument.
\<close>

definition NewTCPTransport :: "(string \<Rightarrow> 'c fallible) \<Rightarrow> string \<Rightarrow> 'c option fallible" where
  "NewTCPTransport net_DialTimeout addr =
     (case net_DialTimeout addr of Inl err \<Rightarrow> Inl err | Inr conn \<Rightarrow> Inr (Some conn))"

definition NewSSLTransport :: "(string \<Rightarrow> 'c fallible) \<Rightarrow> string \<Rightarrow> 'c option fallible" where
  "NewSSLTransport tls_DialWithDialer addr =
     (case tls_DialWithDialer addr of Inl err \<Rightarrow> Inl err | Inr conn \<Rightarrow> Inr (Some conn))"

definition NewNode ::
    "(string \<Rightarrow> 'c fallible) \<Rightarrow> (string \<Rightarrow> 'c fallible) \<Rightarrow> string \<Rightarrow> string \<Rightarrow> network \<Rightarrow> 'c node fallible result" where
  "NewNode tcp ssl addr port network =
     sbind (dial_address addr port network) (\<lambda>(tls, a).
     Inr (case (if tls then NewSSLTransport ssl a else NewTCPTransport tcp a) of
            Inl err \<Rightarrow> Inl err
          | Inr t \<Rightarrow> Inr \<lparr>n_Ident = NodeIdent addr port, n_Network = network, n_transport = t, n_nextId = 0\<rparr>))"

text \<open>\<^verbatim>\<open>request\<close> up to storing the result; the error of that last step is dropped.\<close>

definition request :: "'c conn_ops \<Rightarrow> string \<Rightarrow> json list \<Rightarrow> 'c node \<Rightarrow> json fallible \<times> 'c node" where
  "request ops method params n =
     (let msg = \<lparr>rq_Id = n_nextId n + 1, rq_Method = method, rq_Params = params\<rparr>;
          (resp, t) = SendMessage ops msg (n_transport n);
          n = n\<lparr>n_nextId := n_nextId n + 1, n_transport := t\<rparr>
      in case resp of Inl err \<Rightarrow> (Inl err, n) | Inr resp \<Rightarrow> (Inr (rs_Result resp), n))"

definition Disconnect :: "'c conn_ops \<Rightarrow> 'c node \<Rightarrow> 'c node" where
  "Disconnect ops n = n\<lparr>n_transport := map_option (\<lambda>c. snd (Shutdown ops c)) (n_transport n)\<rparr>"

section \<open>Storing a JSON value in a Go variable\<close>

text \<open>
  A value of the wrong type leaves the variable as it was, here at its zero value, and decoding goes
  on with the rest.  The name of a field matches without regard to case, and the last match counts.
\<close>

fun store_string :: "json \<Rightarrow> string \<Rightarrow> string" where
  "store_string (JString s) old = s"
| "store_string _ old = old"

fun store_word :: "json \<Rightarrow> 'a::len word \<Rightarrow> 'a word" where
  "store_word (JInt n) old = (if 0 \<le> n \<and> n < 2 ^ LENGTH('a) then of_int n else old)"
| "store_word _ old = old"

definition lower :: "char \<Rightarrow> char" where
  "lower c = (if CHR ''A'' \<le> c \<and> c \<le> CHR ''Z'' then char_of (of_char c + 32 :: nat) else c)"

definition field_is :: "string \<Rightarrow> string \<Rightarrow> bool" where
  "field_is name key \<longleftrightarrow> map lower key = map lower name"

fun store_fields :: "(string \<Rightarrow> json \<Rightarrow> 'a \<Rightarrow> 'a) \<Rightarrow> json \<Rightarrow> 'a \<Rightarrow> 'a" where
  "store_fields set_field (JObject kvs) old = fold (\<lambda>(k, v). set_field k v) kvs old"
| "store_fields set_field _ old = old"

fun json_elements :: "json \<Rightarrow> json list" where
  "json_elements (JArray xs) = xs"
| "json_elements _ = []"

record Feature =
  ft_Protocol :: string
  ft_Genesis :: string

record Transaction =
  et_Hash :: string
  et_Height :: u32

record Header =
  hd_Height :: u32
  hd_Hex :: string

record Block =
  bl_Count :: u64
  bl_Hex :: string
  bl_Max :: u64

record Peer =
  pe_IP :: string
  pe_Host :: string
  pe_Version :: string
  pe_Features :: "string list"

definition store_feature :: "json \<Rightarrow> Feature" where
  "store_feature v = store_fields (\<lambda>k v f.
     if field_is ''protocol_max'' k then f\<lparr>ft_Protocol := store_string v (ft_Protocol f)\<rparr>
     else if field_is ''genesis_hash'' k then f\<lparr>ft_Genesis := store_string v (ft_Genesis f)\<rparr>
     else f) v \<lparr>ft_Protocol = '''', ft_Genesis = ''''\<rparr>"

definition store_transaction :: "json \<Rightarrow> Transaction" where
  "store_transaction v = store_fields (\<lambda>k v t.
     if field_is ''tx_hash'' k then t\<lparr>et_Hash := store_string v (et_Hash t)\<rparr>
     else if field_is ''height'' k then t\<lparr>et_Height := store_word v (et_Height t)\<rparr>
     else t) v \<lparr>et_Hash = '''', et_Height = 0\<rparr>"

text \<open>An element of a slice of pointers: \<^verbatim>\<open>null\<close> is the nil pointer.\<close>

fun store_pointer :: "(json \<Rightarrow> 'a) \<Rightarrow> json \<Rightarrow> 'a option" where
  "store_pointer store JNull = None"
| "store_pointer store v = Some (store v)"

definition store_header :: "json \<Rightarrow> Header" where
  "store_header v = store_fields (\<lambda>k v h.
     if field_is ''height'' k then h\<lparr>hd_Height := store_word v (hd_Height h)\<rparr>
     else if field_is ''hex'' k then h\<lparr>hd_Hex := store_string v (hd_Hex h)\<rparr>
     else h) v \<lparr>hd_Height = 0, hd_Hex = ''''\<rparr>"

definition store_block :: "json \<Rightarrow> Block" where
  "store_block v = store_fields (\<lambda>k v b.
     if field_is ''count'' k then b\<lparr>bl_Count := store_word v (bl_Count b)\<rparr>
     else if field_is ''hex'' k then b\<lparr>bl_Hex := store_string v (bl_Hex b)\<rparr>
     else if field_is ''max'' k then b\<lparr>bl_Max := store_word v (bl_Max b)\<rparr>
     else b) v \<lparr>bl_Count = 0, bl_Hex = '''', bl_Max = 0\<rparr>"

section \<open>The methods of a node\<close>

abbreviation on_result :: "('a \<Rightarrow> 'b) \<Rightarrow> 'a fallible \<times> 'n \<Rightarrow> 'b fallible \<times> 'n" where
  "on_result f \<equiv> (\<lambda>(r, n). (map_sum id f r, n))"

definition ServerFeatures :: "'c conn_ops \<Rightarrow> 'c node \<Rightarrow> Feature fallible \<times> 'c node" where
  "ServerFeatures ops n = on_result store_feature (request ops ''server.features'' [] n)"

definition ServerVersion :: "'c conn_ops \<Rightarrow> string \<Rightarrow> 'c node \<Rightarrow> unit fallible \<times> 'c node" where
  "ServerVersion ops ver n = on_result (\<lambda>_. ()) (request ops ''server.version'' [JString ''beancounter'', JString ver] n)"

definition BlockchainAddressGetHistory ::
    "'c conn_ops \<Rightarrow> string \<Rightarrow> 'c node \<Rightarrow> Transaction option list fallible \<times> 'c node" where
  "BlockchainAddressGetHistory ops address n =
     on_result (\<lambda>v. map (store_pointer store_transaction) (json_elements v))
       (request ops ''blockchain.address.get_history'' [JString address] n)"

definition BlockchainTransactionGet :: "'c conn_ops \<Rightarrow> string \<Rightarrow> 'c node \<Rightarrow> string fallible \<times> 'c node" where
  "BlockchainTransactionGet ops txid n =
     on_result (\<lambda>v. store_string v '''') (request ops ''blockchain.transaction.get'' [JString txid, JBool False] n)"

definition BlockchainHeadersSubscribe :: "'c conn_ops \<Rightarrow> 'c node \<Rightarrow> Header fallible \<times> 'c node" where
  "BlockchainHeadersSubscribe ops n =
     on_result store_header (request ops ''blockchain.headers.subscribe'' [JBool True] n)"

definition BlockchainBlockHeaders :: "'c conn_ops \<Rightarrow> u32 \<Rightarrow> u64 \<Rightarrow> 'c node \<Rightarrow> Block fallible \<times> 'c node" where
  "BlockchainBlockHeaders ops height num n =
     on_result store_block (request ops ''blockchain.block.headers'' [JInt (uint height), JInt (uint num)] n)"

text \<open>The type assertions on the entries of a peer.\<close>

fun as_array :: "json \<Rightarrow> json list result" where
  "as_array (JArray xs) = Inr xs"
| "as_array _ = Inl (Panic ''interface conversion'' [])"

fun as_string :: "json \<Rightarrow> string result" where
  "as_string (JString s) = Inr s"
| "as_string _ = Inl (Panic ''interface conversion'' [])"

definition parse_peer :: "json list \<Rightarrow> Peer result" where
  "parse_peer peer =
     sbind (sbind (at_index peer 2) as_array) (\<lambda>fs.
     sbind (smap as_string fs) (\<lambda>features.
     sbind (sbind (at_index peer 0) as_string) (\<lambda>ip.
     sbind (sbind (at_index peer 1) as_string) (\<lambda>host.
     sbind (at_index features 0) (\<lambda>version.
     Inr \<lparr>pe_IP = ip, pe_Host = host, pe_Version = version, pe_Features = drop 1 features\<rparr>)))))"

definition ServerPeersSubscribe :: "'c conn_ops \<Rightarrow> 'c node \<Rightarrow> Peer list result fallible \<times> 'c node" where
  "ServerPeersSubscribe ops n =
     on_result (\<lambda>v. smap (\<lambda>p. parse_peer (json_elements p)) (json_elements v))
       (request ops ''server.peers.subscribe'' [] n)"

section \<open>One exchange\<close>

text \<open>What happened on the wire when a message was accepted.\<close>

definition exchanged :: "'c conn_ops \<Rightarrow> RequestMessage \<Rightarrow> ResponseMessage \<Rightarrow> 'c \<Rightarrow> 'c \<Rightarrow> bool" where
  "exchanged ops msg resp c c' \<longleftrightarrow>
     (\<exists>body c1 line. json_Marshal ops msg = Inr body \<and>
        conn_Write ops (body @ [messageDelim]) c = ((length body + 1, None), c1) \<and>
        conn_ReadBytes ops messageDelim c1 = (Inr line, c') \<and> json_Unmarshal ops line = Inr resp \<and>
        rs_Id resp = rq_Id msg)"

lemma SendMessage_Inr_iff:
  "SendMessage ops msg (Some c) = (Inr resp, t) \<longleftrightarrow>
     (\<exists>c'. exchanged ops msg resp c c' \<and> rs_Error resp = None \<and> t = Some c')"
  by (auto simp: SendMessage_def exchanged_def Let_def split: sum.splits prod.splits if_splits option.splits)

lemma SendMessage_API:
  assumes "SendMessage ops msg (Some c) = (Inl ErrAPI, t)" and "json_Marshal ops msg \<noteq> Inl ErrAPI"
  shows "\<exists>c' resp. exchanged ops msg resp c c' \<and> rs_Error resp \<noteq> None \<and> t = Some c'"
  using assms by (auto simp: SendMessage_def exchanged_def Let_def err_defs split: sum.splits prod.splits if_splits option.splits)

section \<open>Properties\<close>

text \<open>
  A message is accepted exactly when the whole request was written, a line was read, and it
  decodes to a response without an error that has the identifier of the request; the connection is
  then still open.
\<close>

theorem SendMessage_accepts:
  "SendMessage ops msg (Some c) = (Inr resp, t) \<longleftrightarrow>
     (\<exists>body c1 line c'. json_Marshal ops msg = Inr body \<and>
        conn_Write ops (body @ [messageDelim]) c = ((length body + 1, None), c1) \<and>
        conn_ReadBytes ops messageDelim c1 = (Inr line, c') \<and> json_Unmarshal ops line = Inr resp \<and>
        rs_Id resp = rq_Id msg \<and> rs_Error resp = None \<and> t = Some c')"
  unfolding SendMessage_Inr_iff exchanged_def by blast


text \<open>A connection for the witnesses: the lines still to come, and whether it is closed.\<close>

definition scripted :: "(string \<Rightarrow> ResponseMessage) \<Rightarrow> (string list \<times> bool) conn_ops" where
  "scripted decode =
     \<lparr>conn_Write = (\<lambda>b c. ((length b, None), c)),
      conn_ReadBytes = (\<lambda>d c. case c of (l # ls, cl) \<Rightarrow> (Inr l, (ls, cl)) | ([], cl) \<Rightarrow> (Inl (Errorf ''EOF'' []), ([], cl))),
      conn_Close = (\<lambda>c. (None, fst c, True)),
      json_Marshal = (\<lambda>m. Inr (rq_Method m)),
      json_Unmarshal = (\<lambda>l. Inr (decode l))\<rparr>"

abbreviation answer :: "u64 \<Rightarrow> json \<Rightarrow> ResponseMessage" where
  "answer i v \<equiv> \<lparr>rs_Id = i, rs_JsonRpc = ''2.0'', rs_Result = v, rs_Error = None\<rparr>"


text \<open>
  The requests of a node are numbered, and the answer to an earlier request of the node is never
  taken for the answer to a later one: it is refused and the connection is closed.
\<close>

theorem stale_answer_refused:
  assumes "n_transport n = Some c" and "n_nextId n + 1 \<noteq> 0"
    and "json_Marshal ops \<lparr>rq_Id = n_nextId n + 1, rq_Method = meth, rq_Params = params\<rparr> = Inr body"
    and "conn_Write ops (body @ [messageDelim]) c = ((length body + 1, None), c1)"
    and "conn_ReadBytes ops messageDelim c1 = (Inr line, c2)" and "json_Unmarshal ops line = Inr resp"
    and "rs_Id resp \<le> n_nextId n"
  shows "request ops meth params n = (Inl ErrIdMismatch,
    n\<lparr>n_nextId := n_nextId n + 1, n_transport := Some (snd (conn_Close ops c2))\<rparr>)"
proof -
  have "n_nextId n < n_nextId n + 1" using assms(2) unatSuc [of "n_nextId n"] by (simp add: word_less_nat_alt add.commute)
  then have "rs_Id resp \<noteq> n_nextId n + 1" using assms(7) by auto
  then show ?thesis
    using assms(1,3-6) by (simp add: request_def SendMessage_def Shutdown_def Let_def)
qed

theorem stale_answer_refused_witness:
  "fst (request (scripted (\<lambda>_. answer 4 JNull)) ''m'' []
     \<lparr>n_Ident = ''h|t'', n_Network = Testnet, n_transport = Some ([''late''], False), n_nextId = 4\<rparr>) = Inl ErrIdMismatch"
  by (subst stale_answer_refused [where c = "([''late''], False)" and body = "''m''" and line = "''late''" and resp = "answer 4 JNull" and ?c1.0 = "([''late''], False)" and ?c2.0 = "([], False)"])
    (simp_all add: scripted_def)

text \<open>
  The address of a node that is dialled reads back as the host and the port: for the default port
  and a given one, for IPv4 and host names and, in brackets, for IPv6.
\<close>

theorem dialled_address_roundtrip:
  assumes "network \<in> {Mainnet, Testnet}" and "set addr \<inter> {CHR ''['', CHR '']''} = {}"
    and "set p \<inter> {CHR '':'', CHR ''['', CHR '']''} = {}" and "k = CHR ''t'' \<or> k = CHR ''s''"
  shows "\<exists>a. dial_address addr (k # p) network = Inr (k = CHR ''s'', a) \<and>
    split_host_port a = Inr (addr, if p \<noteq> '''' then p
      else if k = CHR ''t'' then fst (projr (defaultPorts network)) else snd (projr (defaultPorts network)))"
proof -
  have ports: "set (fst (projr (defaultPorts network))) \<inter> {CHR '':'', CHR ''['', CHR '']''} = {}"
    "set (snd (projr (defaultPorts network))) \<inter> {CHR '':'', CHR ''['', CHR '']''} = {}"
    "\<exists>x y. defaultPorts network = Inr (x, y)"
    using assms(1) by (auto simp: defaultPorts_def)
  show ?thesis
    using assms ports
    by (cases "CHR '':'' \<in> set addr"; cases p)
      (auto simp: dial_address_def at_index_def Let_def split_host_port_plain split_host_port_bracketed)
qed

theorem dialled_address_roundtrip_witness:
  "dial_address ''::1'' ''s'' Testnet = Inr (True, ''[::1]:50102'') \<and> split_host_port ''[::1]:50102'' = Inr (''::1'', ''50102'')"
proof -
  have "dial_address ''::1'' ''s'' Testnet = Inr (True, ''[::1]:50102'')" by code_simp
  then show ?thesis
    using dialled_address_roundtrip [of Testnet "''::1''" "''''" "CHR ''s''"] by (simp add: defaultPorts_def go_simps)
qed

text \<open>The entries of the answer to the request for peers that the code accepts.\<close>

definition peer_entry :: "json \<Rightarrow> bool" where
  "peer_entry v \<longleftrightarrow> (\<exists>ip host version fs rest. v = JArray (JString ip # JString host # JArray (JString version # map JString fs) # rest))"

lemma smap_as_string: "smap as_string vs = Inr ss \<longleftrightarrow> vs = map JString ss"
  by (induction vs arbitrary: ss) (auto simp: sbind_Inr_iff elim: as_string.elims)

lemma as_Inr: "as_string v = Inr s \<longleftrightarrow> v = JString s" "as_array v = Inr vs \<longleftrightarrow> v = JArray vs"
  by (cases v; auto)+

lemma parse_peer_ok: "\<not> isl (parse_peer (json_elements v)) \<longleftrightarrow> peer_entry v"
proof
  assume "\<not> isl (parse_peer (json_elements v))"
  then obtain p where p: "parse_peer (json_elements v) = Inr p" by (cases "parse_peer (json_elements v)") auto
  then have "3 \<le> length (json_elements v)"
    by (auto simp: parse_peer_def sbind_Inr_iff at_index_Inr_iff)
  then obtain a b c rest where v: "v = JArray (a # b # c # rest)"
    by (cases v rule: json_elements.cases) (auto simp: Suc_le_length_iff numeral_3_eq_3)
  with p show "peer_entry v"
    by (auto simp: parse_peer_def peer_entry_def sbind_Inr_iff at_index_Inr_iff as_Inr smap_as_string Cons_eq_map_conv
        neq_Nil_conv)
next
  assume "peer_entry v"
  then obtain ip host version fs rest where
    v: "v = JArray (JString ip # JString host # JArray (JString version # map JString fs) # rest)"
    by (auto simp: peer_entry_def)
  have "smap as_string (JString version # map JString fs) = Inr (version # fs)"
    unfolding smap_as_string by simp
  then show "\<not> isl (parse_peer (json_elements v))"
    by (simp add: v parse_peer_def at_index_def del: smap.simps)
qed

text \<open>
  C32: a server decides whether the program goes on.  The answer to the request for peers makes the
  program panic unless every entry has an address, a host and a list of strings that is not empty.
\<close>

theorem peers_answer_panics_iff:
  assumes "request ops ''server.peers.subscribe'' [] n = (Inr v, n')"
  shows "\<exists>ps. ServerPeersSubscribe ops n = (Inr ps, n') \<and> (isl ps \<longleftrightarrow> (\<exists>e\<in>set (json_elements v). \<not> peer_entry e))"
proof -
  have "isl (smap (\<lambda>p. parse_peer (json_elements p)) vs) \<longleftrightarrow> (\<exists>e\<in>set vs. \<not> peer_entry e)" for vs
    using smap_projr [of "\<lambda>p. parse_peer (json_elements p)" vs]
    by (cases "smap (\<lambda>p. parse_peer (json_elements p)) vs") (auto simp: parse_peer_ok)
  then show ?thesis using assms by (auto simp: ServerPeersSubscribe_def)
qed

theorem peers_answer_panics_iff_witness:
  "\<exists>ps n'. ServerPeersSubscribe (scripted (\<lambda>_. answer 1 (JArray [JArray [JString ''1.2.3.4'', JString ''h'', JArray []]])))
     \<lparr>n_Ident = ''h|t'', n_Network = Testnet, n_transport = Some ([''l''], False), n_nextId = 0\<rparr> = (Inr ps, n') \<and> isl ps"
proof -
  let ?n = "\<lparr>n_Ident = ''h|t'', n_Network = Testnet, n_transport = Some ([''l''], False), n_nextId = 0\<rparr>"
  let ?v = "JArray [JArray [JString ''1.2.3.4'', JString ''h'', JArray []]]"
  obtain n' where "request (scripted (\<lambda>_. answer 1 ?v)) ''server.peers.subscribe'' [] ?n = (Inr ?v, n')"
    by (auto simp: request_def SendMessage_def scripted_def Let_def)
  from peers_answer_panics_iff [OF this] show ?thesis by (auto simp: peer_entry_def)
qed

end
