(* ===== verification/Semver.thy ===== *)
theory Semver
  imports Go_Std
begin

text \<open>
  The part of the vendored \<^verbatim>\<open>Masterminds/semver\<close> the Electrum backend checks versions with, and
  \<^verbatim>\<open>checkVersion\<close> of \<^verbatim>\<open>backend/electrum_backend.go\<close>.  The regular expression of a version is written
  out as the only way it can match.
\<close>

section \<open>Versions\<close>

definition is_digit :: "char \<Rightarrow> bool" where
  "is_digit c \<longleftrightarrow> CHR ''0'' \<le> c \<and> c \<le> CHR ''9''"

definition is_ident :: "char \<Rightarrow> bool" where
  "is_ident c \<longleftrightarrow> is_digit c \<or> (CHR ''A'' \<le> c \<and> c \<le> CHR ''Z'') \<or> (CHR ''a'' \<le> c \<and> c \<le> CHR ''z'') \<or> c = CHR ''-''"

text \<open>\<^verbatim>\<open>strings.Split\<close> at one character.\<close>

fun str_split :: "char \<Rightarrow> string \<Rightarrow> string list" where
  "str_split c [] = [[]]"
| "str_split c (x # xs) = (if x = c then [] # str_split c xs else
     (case str_split c xs of w # ws \<Rightarrow> (x # w) # ws | [] \<Rightarrow> [[x]]))"

text \<open>The optional groups \<^verbatim>\<open>(\.[0-9]+)?\<close> and \<^verbatim>\<open>(-([0-9A-Za-z\-]+(\.[0-9A-Za-z\-]+)*))?\<close>: what they match, without the
  first character, and what is left.\<close>

fun segment :: "string \<Rightarrow> string \<times> string" where
  "segment (c # s) = (if c = CHR ''.'' \<and> takeWhile is_digit s \<noteq> [] then (takeWhile is_digit s, dropWhile is_digit s) else ([], c # s))"
| "segment [] = ([], [])"

fun suffix_group :: "char \<Rightarrow> string \<Rightarrow> string \<times> string" where
  "suffix_group d (c # s) =
     (let w = takeWhile (\<lambda>x. is_ident x \<or> x = CHR ''.'') s in
      if c = d \<and> [] \<notin> set (str_split (CHR ''.'') w) then (w, drop (length w) s) else ([], c # s))"
| "suffix_group d [] = ([], [])"

record Version =
  sv_major :: int
  sv_minor :: int
  sv_patch :: int
  sv_pre :: string

definition ErrInvalidSemVer :: go_error where
  "ErrInvalidSemVer = Errorf ''Invalid Semantic Version'' []"

text \<open>\<^verbatim>\<open>strconv.ParseInt(s, 10, 64)\<close>.\<close>

definition ParseInt :: "string \<Rightarrow> int fallible" where
  "ParseInt s =
     (let neg = has_prefix s ''-''; ds = (if neg \<or> has_prefix s ''+'' then drop 1 s else s);
          n = (if neg then - int (read_dec ds) else int (read_dec ds)) in
      if ds = [] \<or> \<not> list_all is_digit ds then Inl (Errorf ''strconv.ParseInt: parsing %q: invalid syntax'' [Str s])
      else if n < - (2 ^ 63) \<or> 2 ^ 63 \<le> n then Inl (Errorf ''strconv.ParseInt: parsing %q: value out of range'' [Str s])
      else Inr n)"

definition parse_segment :: "string \<Rightarrow> int fallible" where
  "parse_segment s = (if s = [] then Inr 0 else
     case ParseInt s of Inl err \<Rightarrow> Inl (Wrapf err ''Error parsing version segment: %s'' []) | Inr n \<Rightarrow> Inr n)"

definition NewVersion :: "string \<Rightarrow> Version fallible" where
  "NewVersion v =
     (let s = (if has_prefix v ''v'' then drop 1 v else v);
          m1 = takeWhile is_digit s; (m2, s) = segment (dropWhile is_digit s);
          (m3, s) = segment s;
          (pre, s) = suffix_group (CHR ''-'') s;
          (metadata, s) = suffix_group (CHR ''+'') s in
      if m1 = [] \<or> s \<noteq> [] then Inl ErrInvalidSemVer
      else sbind (parse_segment m1) (\<lambda>major. sbind (parse_segment m2) (\<lambda>minor. sbind (parse_segment m3) (\<lambda>patch.
        Inr \<lparr>sv_major = major, sv_minor = minor, sv_patch = patch, sv_pre = pre\<rparr>))))"

definition compareSegment :: "int \<Rightarrow> int \<Rightarrow> int" where
  "compareSegment v w = (if v < w then -1 else if w < v then 1 else 0)"

definition comparePrePart :: "string \<Rightarrow> string \<Rightarrow> int" where
  "comparePrePart s w =
     (if s = w then 0 else if s = [] then -1 else if w = [] then 1
      else case (ParseInt s, ParseInt w) of
          (Inl _, Inl _) \<Rightarrow> if w < s then 1 else -1
        | (Inr _, Inl _) \<Rightarrow> -1
        | (Inl _, Inr _) \<Rightarrow> 1
        | (Inr si, Inr wi) \<Rightarrow> if wi < si then 1 else -1)"

text \<open>The shorter list of parts is filled up with empty ones.\<close>

fun compare_parts :: "string list \<Rightarrow> string list \<Rightarrow> int" where
  "compare_parts [] [] = 0"
| "compare_parts (s # ss) [] = (let d = comparePrePart s [] in if d \<noteq> 0 then d else compare_parts ss [])"
| "compare_parts [] (w # ws) = (let d = comparePrePart [] w in if d \<noteq> 0 then d else compare_parts [] ws)"
| "compare_parts (s # ss) (w # ws) = (let d = comparePrePart s w in if d \<noteq> 0 then d else compare_parts ss ws)"

definition comparePrerelease :: "string \<Rightarrow> string \<Rightarrow> int" where
  "comparePrerelease v w = compare_parts (str_split (CHR ''.'') v) (str_split (CHR ''.'') w)"

definition Compare :: "Version \<Rightarrow> Version \<Rightarrow> int" where
  "Compare v w =
     (let d1 = compareSegment (sv_major v) (sv_major w); d2 = compareSegment (sv_minor v) (sv_minor w);
          d3 = compareSegment (sv_patch v) (sv_patch w) in
      if d1 \<noteq> 0 then d1 else if d2 \<noteq> 0 then d2 else if d3 \<noteq> 0 then d3
      else if sv_pre v = [] \<and> sv_pre w = [] then 0
      else if sv_pre v = [] then 1 else if sv_pre w = [] then -1
      else comparePrerelease (sv_pre v) (sv_pre w))"

definition isNonZero :: "Version \<Rightarrow> bool" where
  "isNonZero v \<longleftrightarrow> sv_major v \<noteq> 0 \<or> sv_minor v \<noteq> 0 \<or> sv_patch v \<noteq> 0 \<or> sv_pre v \<noteq> []"

definition constraintGreaterThanEqual :: "Version \<Rightarrow> Version \<Rightarrow> bool" where
  "constraintGreaterThanEqual v con \<longleftrightarrow>
     (\<not> isNonZero con \<and> isNonZero v) \<or> (\<not> (sv_pre v \<noteq> [] \<and> sv_pre con = []) \<and> 0 \<le> Compare v con)"

section \<open>The check of a server's version\<close>

definition ErrIncompatibleVersion :: go_error where
  "ErrIncompatibleVersion = Errorf ''Incompatible version'' []"

text \<open>The constraint \<^verbatim>\<open>>= 1.2\<close> that \<^verbatim>\<open>NewConstraint\<close> parses is the version 1.2.0.\<close>

definition least_version :: Version where
  "least_version = \<lparr>sv_major = 1, sv_minor = 2, sv_patch = 0, sv_pre = []\<rparr>"

definition checkVersion :: "string \<Rightarrow> unit fallible result" where
  "checkVersion ver =
     sbind (at_index ver 0) (\<lambda>c.
     Inr (sbind (NewVersion (if c = CHR ''v'' then drop 1 ver else ver)) (\<lambda>v.
       if constraintGreaterThanEqual v least_version then Inr () else Inl ErrIncompatibleVersion)))"

section \<open>What it accepts\<close>

lemma digit_table: "\<forall>n \<in> set [0..<10]. is_digit (hex_digit n)"
  by code_simp

lemma dec_digits_digits: "list_all is_digit (dec_digits n)"
proof (induction n rule: dec_digits.induct)
  case (1 n)
  then show ?case using digit_table by (cases "n < 10") (auto simp: dec_digits.simps [of n])
qed

lemma dec_digits_not_Nil [simp]: "dec_digits n \<noteq> []"
  by (simp add: dec_digits.simps [of n])

lemma not_digit [simp]:
  "\<not> is_digit (CHR ''.'')" "\<not> is_digit (CHR ''-'')" "\<not> is_digit (CHR ''+'')" "\<not> is_digit (CHR ''v'')"
  by code_simp+

lemma span_digits:
  assumes "s = [] \<or> \<not> is_digit (hd s)"
  shows "takeWhile is_digit (dec_digits n @ s) = dec_digits n" "dropWhile is_digit (dec_digits n @ s) = s"
  using assms dec_digits_digits [of n]
  by (auto simp: takeWhile_append2 dropWhile_append2 list_all_iff takeWhile_eq_Nil_iff dropWhile_eq_self_iff)

lemma dec_digits_no_prefix:
  "\<not> is_digit c \<Longrightarrow> \<not> has_prefix (dec_digits n @ s) [c]"
  using dec_digits_digits [of n] by (cases "dec_digits n") (auto simp: has_prefix_def)

lemma parse_segment_dec: "int n < 2 ^ 63 \<Longrightarrow> parse_segment (dec_digits n) = Inr (int n)"
  using dec_digits_no_prefix [of _ n "[]"] dec_digits_digits [of n]
  by (simp add: parse_segment_def ParseInt_def Let_def read_dec_digits)

definition version_text :: "nat \<Rightarrow> nat \<Rightarrow> nat \<Rightarrow> string \<Rightarrow> string" where
  "version_text major minor patch pre =
     dec_digits major @ ''.'' @ dec_digits minor @ ''.'' @ dec_digits patch @ (if pre = [] then [] else ''-'' @ pre)"

lemma takeWhile_all: "list_all P xs \<Longrightarrow> takeWhile P xs = xs"
  by (simp add: list_all_iff)

lemma NewVersion_text:
  assumes "int major < 2 ^ 63" "int minor < 2 ^ 63" "int patch < 2 ^ 63" and "list_all is_ident pre"
  shows "NewVersion (version_text major minor patch pre)
    = Inr \<lparr>sv_major = int major, sv_minor = int minor, sv_patch = int patch, sv_pre = pre\<rparr>"
proof -
  have split: "str_split (CHR ''.'') w = [w]" if "list_all is_ident w" for w
    using that by (induction w) (auto simp: is_ident_def is_digit_def)
  have w: "takeWhile (\<lambda>x. is_ident x \<or> x = CHR ''.'') pre = pre"
    using assms(4) by (intro takeWhile_all) (simp add: list_all_iff)
  show ?thesis
    using assms dec_digits_no_prefix [of "CHR ''v''" major]
    by (auto simp: NewVersion_def version_text_def Let_def span_digits parse_segment_dec split w
        simp del: takeWhile_append2)
qed



end
