(* ===== verification/Electrum.thy ===== *)
theory Electrum
  imports Ideal ElectrumNode Semver "HOL-Library.AList"
begin

text \<open>
  \<^verbatim>\<open>backend/electrum_backend.go\<close>: a changing set of Electrum servers that answer requests.  A goroutine is a
  program counter with its live local variables (\<open>thread\<close>): one worker per connected node, one that is
  still connecting per discovered peer, and the one that asks for peers.  Each critical section on
  \<^verbatim>\<open>nodeMu\<close> or \<^verbatim>\<open>transactionsMu\<close>, each call of a node and each channel operation is a step of its own.  The
  nodes live in a store, for the map of nodes and the workers share them; the map is an association list.
\<close>

section \<open>Block headers\<close>

record BlockHeader =
  bh_Version :: u32
  bh_PrevBlock :: "u8 list"
  bh_MerkleRoot :: "u8 list"
  bh_Timestamp :: go_time
  bh_Bits :: u32
  bh_Nonce :: u32

definition readBlockHeader :: "BlockHeader reader" where
  "readBlockHeader =
     rbind (read_uint 4) (\<lambda>version. rbind (ReadFull HashSize) (\<lambda>prev. rbind (ReadFull HashSize) (\<lambda>merkle.
     rbind (read_uint 4) (\<lambda>sec. rbind (read_uint 4) (\<lambda>bits. rbind (read_uint 4) (\<lambda>nonce.
     rret \<lparr>bh_Version = version, bh_PrevBlock = prev, bh_MerkleRoot = merkle,
       bh_Timestamp = uint (sec :: u32), bh_Bits = bits, bh_Nonce = nonce\<rparr>))))))"

definition writeBlockHeader :: "BlockHeader \<Rightarrow> u8 list" where
  "writeBlockHeader h = put_le 4 (unat (bh_Version h)) @ bh_PrevBlock h @ bh_MerkleRoot h
     @ put_le 4 (unat (of_int (bh_Timestamp h) :: u32)) @ put_le 4 (unat (bh_Bits h)) @ put_le 4 (unat (bh_Nonce h))"

section \<open>State\<close>

definition maxPeers :: nat where "maxPeers = 100"

definition ErrIncorrectGenesisBlock :: go_error where
  "ErrIncorrectGenesisBlock = Errorf ''Incorrect genesis block'' []"

definition ErrFailedNegotiateVersion :: go_error where
  "ErrFailedNegotiateVersion = Errorf ''Failed negotiate version'' []"

record 'c electrum_backend =
  eb_chainHeight :: u32
  eb_nodes :: "(string \<times> nat) list"
  eb_blacklistedNodes :: "string set"
  eb_network :: network
  eb_addrRequests :: "Address list"
  eb_addrResponses :: "AddrResponse list"
  eb_txRequests :: "string list"
  eb_txResponses :: "TxResponse list"
  eb_blockRequests :: "u32 list"
  eb_blockResponses :: "BlockResponse list"
  eb_transactions :: "string \<rightharpoonup> u64"
  eb_doneCh :: bool
  eb_heap :: "'c node list"  \<comment> \<open>the store of nodes\<close>
  eb_reported :: u32         \<comment> \<open>the last argument of the reporter's \<^verbatim>\<open>SetPeers\<close>\<close>

definition electrum_addr_send :: "Address \<Rightarrow> 'c electrum_backend \<Rightarrow> 'c electrum_backend option" where
  "electrum_addr_send addr b =
     (if length (eb_addrRequests b) < 2 * maxPeers
      then Some (b\<lparr>eb_addrRequests := eb_addrRequests b @ [addr]\<rparr>) else None)"

definition electrum_tx_send :: "string \<Rightarrow> 'c electrum_backend \<Rightarrow> 'c electrum_backend option" where
  "electrum_tx_send txHash b =
     (if length (eb_txRequests b) < 2 * maxPeers
      then Some (b\<lparr>eb_txRequests := eb_txRequests b @ [txHash]\<rparr>) else None)"

definition electrum_block_send :: "u32 \<Rightarrow> 'c electrum_backend \<Rightarrow> 'c electrum_backend option" where
  "electrum_block_send height b =
     (if length (eb_blockRequests b) < 2 * maxPeers
      then Some (b\<lparr>eb_blockRequests := eb_blockRequests b @ [height]\<rparr>) else None)"

definition electrum_addr_recv :: "'c electrum_backend \<Rightarrow> (AddrResponse \<times> 'c electrum_backend) option" where
  "electrum_addr_recv b =
     (case eb_addrResponses b of [] \<Rightarrow> None | r # rs \<Rightarrow> Some (r, b\<lparr>eb_addrResponses := rs\<rparr>))"

definition electrum_tx_recv :: "'c electrum_backend \<Rightarrow> (TxResponse \<times> 'c electrum_backend) option" where
  "electrum_tx_recv b =
     (case eb_txResponses b of [] \<Rightarrow> None | r # rs \<Rightarrow> Some (r, b\<lparr>eb_txResponses := rs\<rparr>))"

definition electrum_block_recv :: "'c electrum_backend \<Rightarrow> (BlockResponse \<times> 'c electrum_backend) option" where
  "electrum_block_recv b =
     (case eb_blockResponses b of [] \<Rightarrow> None | r # rs \<Rightarrow> Some (r, b\<lparr>eb_blockResponses := rs\<rparr>))"

definition electrum_ChainHeight :: "'c electrum_backend \<Rightarrow> u32" where
  "electrum_ChainHeight b = eb_chainHeight b"

section \<open>Connecting\<close>

text \<open>The checks of a new connection in \<^verbatim>\<open>addNode\<close> and \<^verbatim>\<open>getHeight\<close>.\<close>

definition check_node :: "'c conn_ops \<Rightarrow> network \<Rightarrow> 'c node \<Rightarrow> unit fallible result \<times> 'c node" where
  "check_node ops network n =
     (case ServerFeatures ops n of
        (Inl err, n) \<Rightarrow> (Inr (Inl err), n)
      | (Inr feature, n) \<Rightarrow>
     (case GenesisBlock network of
        Inl e \<Rightarrow> (Inl e, n)
      | Inr genesis \<Rightarrow>
          if ft_Genesis feature \<noteq> genesis then (Inr (Inl ErrIncorrectGenesisBlock), n)
          else
     (case checkVersion (ft_Protocol feature) of
        Inl e \<Rightarrow> (Inl e, n)
      | Inr (Inl err) \<Rightarrow> (Inr (Inl err), n)
      | Inr (Inr _) \<Rightarrow>
     (case ServerVersion ops ''1.2'' n of
        (Inl _, n) \<Rightarrow> (Inr (Inl ErrFailedNegotiateVersion), n)
      | (Inr _, n) \<Rightarrow> (Inr (Inr ()), n)))))"

text \<open>
  \<open>tcp\<close> and \<open>ssl\<close> are the outcomes of dialling an address.  \<open>dial_node\<close> is \<^verbatim>\<open>addNode\<close> between its two
  critical sections.
\<close>

definition dial_node ::
    "'c conn_ops \<Rightarrow> (string \<Rightarrow> 'c fallible) \<Rightarrow> (string \<Rightarrow> 'c fallible) \<Rightarrow> string \<Rightarrow> string \<Rightarrow> network \<Rightarrow> 'c node fallible result" where
  "dial_node ops tcp ssl addr port network =
     sbind (NewNode tcp ssl addr port network) (\<lambda>r.
     case r of
       Inl err \<Rightarrow> Inr (Inl err)
     | Inr n \<Rightarrow>
         (case check_node ops network n of
            (Inl e, _) \<Rightarrow> Inl e
          | (Inr (Inl err), _) \<Rightarrow> Inr (Inl err)
          | (Inr (Inr _), n) \<Rightarrow> Inr (Inr n)))"

definition getHeight ::
    "'c conn_ops \<Rightarrow> (string \<Rightarrow> 'c fallible) \<Rightarrow> (string \<Rightarrow> 'c fallible) \<Rightarrow> string \<Rightarrow> string \<Rightarrow> network
      \<Rightarrow> u32 fallible result \<times> 'c node option" where
  "getHeight ops tcp ssl addr port network =
     (case NewNode tcp ssl addr port network of
        Inl e \<Rightarrow> (Inl e, None)
      | Inr (Inl err) \<Rightarrow> (Inr (Inl err), None)
      | Inr (Inr n) \<Rightarrow>
          (case check_node ops network n of
             (Inl e, n) \<Rightarrow> (Inl e, Some (Disconnect ops n))
           | (Inr (Inl err), n) \<Rightarrow> (Inr (Inl err), Some (Disconnect ops n))
           | (Inr (Inr _), n) \<Rightarrow>
               (case BlockchainHeadersSubscribe ops n of
                  (Inl err, n) \<Rightarrow> (Inr (Inl err), Some (Disconnect ops n))
                | (Inr header, n) \<Rightarrow> (Inr (Inr (hd_Height header)), Some (Disconnect ops n)))))"

section \<open>The goroutines\<close>

datatype thread =
    EIdle nat                                   \<comment> \<open>at the \<^verbatim>\<open>select\<close> of \<^verbatim>\<open>processRequests\<close>, with its node\<close>
  | EPeers nat
  | EAskPeers nat                               \<comment> \<open>fewer than \<^verbatim>\<open>maxPeers\<close> nodes were counted\<close>
  | EAddr nat Address
  | ECache nat Address "Transaction option list"  \<comment> \<open>the history has arrived\<close>
  | ESendAddr nat AddrResponse
  | ETx nat string
  | EHeight nat string string                   \<comment> \<open>the hex has arrived\<close>
  | ESendTx nat TxResponse
  | EBlock nat u32
  | ESendBlock nat BlockResponse
  | EDrop nat job                               \<comment> \<open>the call failed, the node is about to be removed\<close>
  | ERequeue job
  | EConnect string string                      \<comment> \<open>about to call \<^verbatim>\<open>addNode\<close>\<close>
  | EDial string string
  | ERegister nat
  | EFind | EReport | EWait                     \<comment> \<open>the goroutine of \<^verbatim>\<open>findPeers\<close>\<close>
  | EExited
  | ECrashed fault "job option"

definition NewElectrumBackend ::
    "'c conn_ops \<Rightarrow> (string \<Rightarrow> 'c fallible) \<times> (string \<Rightarrow> 'c fallible) \<Rightarrow> (string \<Rightarrow> 'c fallible) \<times> (string \<Rightarrow> 'c fallible)
      \<Rightarrow> string \<Rightarrow> string \<Rightarrow> network \<Rightarrow> ('c electrum_backend \<times> thread list) fallible result" where
  "NewElectrumBackend ops dial1 dial2 addr port network =
     sbind (fst (getHeight ops (fst dial1) (snd dial1) addr port network)) (\<lambda>r.
     case r of
       Inl err \<Rightarrow> Inr (Inl err)
     | Inr height \<Rightarrow>
     sbind (dial_node ops (fst dial2) (snd dial2) addr port network) (\<lambda>r.
     Inr (case r of
       Inl err \<Rightarrow> Inl err
     | Inr n \<Rightarrow> Inr (\<lparr>eb_chainHeight = height, eb_nodes = [(NodeIdent addr port, 0)], eb_blacklistedNodes = {},
           eb_network = network, eb_addrRequests = [], eb_addrResponses = [], eb_txRequests = [], eb_txResponses = [],
           eb_blockRequests = [], eb_blockResponses = [], eb_transactions = Map.empty, eb_doneCh = False,
           eb_heap = [n], eb_reported = 0\<rparr>, [EIdle 0, EFind]))))"

definition removeNode :: "'c conn_ops \<Rightarrow> string \<Rightarrow> 'c electrum_backend \<Rightarrow> 'c electrum_backend" where
  "removeNode ops ident b =
     (case map_of (eb_nodes b) ident of
        None \<Rightarrow> b
      | Some i \<Rightarrow> b\<lparr>eb_heap := (eb_heap b)[i := Disconnect ops (eb_heap b ! i)], eb_nodes := AList.delete ident (eb_nodes b)\<rparr>)"

definition removeAllNodes :: "'c conn_ops \<Rightarrow> 'c electrum_backend \<Rightarrow> 'c electrum_backend" where
  "removeAllNodes ops b =
     b\<lparr>eb_heap := fold (\<lambda>(_, i) h. h[i := Disconnect ops (h ! i)]) (eb_nodes b) (eb_heap b), eb_nodes := []\<rparr>"

definition electrum_Finish :: "'c conn_ops \<Rightarrow> 'c electrum_backend \<Rightarrow> 'c electrum_backend" where
  "electrum_Finish ops b = removeAllNodes ops (b\<lparr>eb_doneCh := True\<rparr>)"

text \<open>What \<^verbatim>\<open>addPeer\<close> starts: nothing, or a goroutine that connects.\<close>

definition addPeer :: "Peer \<Rightarrow> (string \<times> string) option result" where
  "addPeer peer =
     (if has_suffix (pe_Host peer) ''.onion'' then Inr None
      else sbind (checkVersion (pe_Version peer)) (\<lambda>r.
        case r of
          Inl _ \<Rightarrow> Inr None
        | Inr _ \<Rightarrow> Inr (case find (\<lambda>f. has_prefix f ''t'') (pe_Features peer) of
              Some f \<Rightarrow> Some (pe_IP peer, f)
            | None \<Rightarrow> map_option (\<lambda>f. (pe_IP peer, f)) (find (\<lambda>f. has_prefix f ''s'') (pe_Features peer)))))"

fun cache_step :: "Transaction \<Rightarrow> (string \<rightharpoonup> u64) \<Rightarrow> (string \<rightharpoonup> u64) result" where
  "cache_step tx m =
     (case m (et_Hash tx) of
        Some height \<Rightarrow>
          if height \<noteq> ucast (et_Height tx)
          then Inl (Panic ''inconsistent cache: %s %d != %d'' [Str (et_Hash tx), Num (sint height), Num (uint (et_Height tx))])
          else Inr (m(et_Hash tx \<mapsto> ucast (et_Height tx)))
      | None \<Rightarrow> Inr (m(et_Hash tx \<mapsto> ucast (et_Height tx))))"

definition cacheTxs :: "Transaction list \<Rightarrow> (string \<rightharpoonup> u64) \<Rightarrow> (string \<rightharpoonup> u64) result" where
  "cacheTxs txs m = sfold cache_step txs m"

text \<open>The pointers of a history; a nil one is followed before anything is cached.\<close>

fun deref :: "'a option \<Rightarrow> 'a result" where
  "deref None = Inl NilDeref"
| "deref (Some x) = Inr x"

definition getTxHeight :: "string \<Rightarrow> (string \<rightharpoonup> u64) \<Rightarrow> u64 result" where
  "getTxHeight txHash m =
     (case m txHash of Some height \<Rightarrow> Inr height | None \<Rightarrow> Inl (Panic ''transactions cache miss for %s'' [Str txHash]))"

definition parse_block :: "u32 \<Rightarrow> Block \<Rightarrow> BlockResponse result" where
  "parse_block height block =
     (case hex_decode (bl_Hex block) of
        (_, False) \<Rightarrow> Inl (PanicErr (Errorf ''encoding/hex: invalid byte'' []))
      | (bs, True) \<Rightarrow>
          (case readBlockHeader bs of
             Inl err \<Rightarrow> Inl (PanicErr err)
           | Inr (h, _) \<Rightarrow> Inr \<lparr>br_Height = height, br_Timestamp = bh_Timestamp h\<rparr>))"

section \<open>Properties\<close>

definition wf_header :: "BlockHeader \<Rightarrow> bool" where
  "wf_header h \<longleftrightarrow> length (bh_PrevBlock h) = HashSize \<and> length (bh_MerkleRoot h) = HashSize \<and>
     0 \<le> bh_Timestamp h \<and> bh_Timestamp h < 2 ^ 32"

interpretation header_codec: wire_codec readBlockHeader writeBlockHeader wf_header
proof
  fix h :: BlockHeader and r
  assume h: "wf_header h"
  define ts :: u32 where "ts = of_int (bh_Timestamp h)"
  have ts: "uint ts = bh_Timestamp h"
    using h by (simp add: ts_def wf_header_def unsigned_of_int take_bit_int_eq_self)
  have w: "writeBlockHeader h = put_le 4 (unat (bh_Version h)) @ bh_PrevBlock h @ bh_MerkleRoot h
     @ put_le 4 (unat ts) @ put_le 4 (unat (bh_Bits h)) @ put_le 4 (unat (bh_Nonce h))"
    by (simp only: writeBlockHeader_def ts_def)
  have f: "rbind (ReadFull HashSize) f (bs @ r) = f bs r" if "length bs = HashSize" for f :: "u8 list \<Rightarrow> BlockHeader reader" and bs r
    using that by (simp add: rbind_def ReadFull_append)
  show "readBlockHeader (writeBlockHeader h @ r) = Inr (h, r)"
    using h ts by (simp add: w readBlockHeader_def uint32_codec.rd_step [OF TrueI] f wf_header_def)
qed

lemma length_header: "wf_header h \<Longrightarrow> length (writeBlockHeader h) = 80"
  by (simp add: writeBlockHeader_def wf_header_def HashSize_def)

text \<open>
  The timestamp the block finder gets is the one in the header: decoding the hex of a serialised
  header, whatever follows it, gives the header's timestamp, for every time up to 2106.
\<close>

theorem block_timestamp_roundtrip:
  assumes "wf_header h" and "bl_Hex block = hex_encode (writeBlockHeader h @ rest)"
  shows "parse_block height block = Inr \<lparr>br_Height = height, br_Timestamp = bh_Timestamp h\<rparr>"
  using header_codec.rd_wr [OF assms(1), of rest] assms(2) by (simp add: parse_block_def)

theorem block_timestamp_roundtrip_witness:
  "parse_block 7 \<lparr>bl_Count = 1, bl_Hex = hex_encode (writeBlockHeader \<lparr>bh_Version = 1, bh_PrevBlock = replicate 32 0,
     bh_MerkleRoot = replicate 32 1, bh_Timestamp = 1231006505, bh_Bits = 5, bh_Nonce = 9\<rparr>), bl_Max = 1\<rparr>
   = Inr \<lparr>br_Height = 7, br_Timestamp = 1231006505\<rparr>"
proof -
  let ?h = "\<lparr>bh_Version = 1, bh_PrevBlock = replicate 32 0, bh_MerkleRoot = replicate 32 1, bh_Timestamp = 1231006505,
     bh_Bits = 5, bh_Nonce = 9\<rparr>"
  have "wf_header ?h" by (simp add: wf_header_def HashSize_def)
  from block_timestamp_roundtrip [OF this, of "\<lparr>bl_Count = 1, bl_Hex = hex_encode (writeBlockHeader ?h), bl_Max = 1\<rparr>" "[]" 7]
  show ?thesis by simp
qed

lemma isl_rbind_ReadFull: "isl (rbind (ReadFull n) f r) \<longleftrightarrow> length r < n \<or> isl (f (take n r) (drop n r))"
  by (auto simp: rbind_def ReadFull_def)

lemma isl_rbind_uint: "isl (rbind (read_uint n) f r) \<longleftrightarrow> length r < n \<or> isl (f (of_nat (le_nat (take n r))) (drop n r))"
  by (auto simp: rbind_def read_uint_def ReadFull_def)

text \<open>
  A server decides whether the block finder goes on: the answer to the request for a header panics
  exactly when its text is not the hex of at least 80 bytes, the empty text included.
\<close>

theorem bad_header_panics:
  "isl (parse_block height block) \<longleftrightarrow> (\<forall>bs. hex_decode (bl_Hex block) = (bs, True) \<longrightarrow> length bs < 80)"
proof -
  have "isl (readBlockHeader bs) \<longleftrightarrow> length bs < 80" for bs
    unfolding readBlockHeader_def isl_rbind_uint isl_rbind_ReadFull by (auto simp: HashSize_def)
  then show ?thesis
    unfolding parse_block_def by (force split: prod.splits bool.splits sum.splits)
qed

lemma request_keeps: "request ops m ps n = (r, n') \<Longrightarrow> n_Ident n' = n_Ident n \<and> n_Network n' = n_Network n"
  by (auto simp: request_def Let_def split: prod.splits sum.splits)

lemma on_result_keeps:
  "on_result f (request ops m ps n) = (r, n') \<Longrightarrow> n_Ident n' = n_Ident n \<and> n_Network n' = n_Network n"
  by (cases "request ops m ps n") (auto dest: request_keeps)

lemma calls_keep:
  "ServerFeatures ops n = (r0, n') \<Longrightarrow> n_Ident n' = n_Ident n \<and> n_Network n' = n_Network n"
  "ServerVersion ops v n = (r1, n') \<Longrightarrow> n_Ident n' = n_Ident n \<and> n_Network n' = n_Network n"
  "BlockchainAddressGetHistory ops a n = (r2, n') \<Longrightarrow> n_Ident n' = n_Ident n \<and> n_Network n' = n_Network n"
  "BlockchainTransactionGet ops h n = (r3, n') \<Longrightarrow> n_Ident n' = n_Ident n \<and> n_Network n' = n_Network n"
  "BlockchainHeadersSubscribe ops n = (r4, n') \<Longrightarrow> n_Ident n' = n_Ident n \<and> n_Network n' = n_Network n"
  "BlockchainBlockHeaders ops k c n = (r5, n') \<Longrightarrow> n_Ident n' = n_Ident n \<and> n_Network n' = n_Network n"
  "ServerPeersSubscribe ops n = (r6, n') \<Longrightarrow> n_Ident n' = n_Ident n \<and> n_Network n' = n_Network n"
  unfolding ServerFeatures_def ServerVersion_def BlockchainAddressGetHistory_def BlockchainTransactionGet_def
    BlockchainHeadersSubscribe_def BlockchainBlockHeaders_def ServerPeersSubscribe_def
  by (fact on_result_keeps)+

lemma check_node_ok:
  assumes "check_node ops network n = (Inr (Inr u), n')"
  shows "\<exists>feature n1 v. ServerFeatures ops n = (Inr feature, n1) \<and> GenesisBlock network = Inr (ft_Genesis feature) \<and>
    checkVersion (ft_Protocol feature) = Inr (Inr ()) \<and> ServerVersion ops ''1.2'' n1 = (Inr v, n')"
  using assms by (auto simp: check_node_def split: prod.splits sum.splits if_splits)

lemma check_node_keeps:
  assumes "check_node ops network n = (Inr (Inr u), n')"
  shows "n_Ident n' = n_Ident n" "n_Network n' = n_Network n"
  using check_node_ok [OF assms] by (auto dest!: calls_keep(1,2))

lemma NewNode_ok:
  assumes "NewNode tcp ssl addr port network = Inr (Inr n)"
  shows "n_Ident n = NodeIdent addr port" "n_Network n = network" "n_nextId n = 0"
proof -
  obtain tls a where d: "dial_address addr port network = Inr (tls, a)"
    using assms by (auto simp: NewNode_def sbind_Inr_iff)
  show "n_Ident n = NodeIdent addr port" "n_Network n = network" "n_nextId n = 0"
    using assms d
    by (cases "if tls then NewSSLTransport ssl a else NewTCPTransport tcp a"; auto simp: NewNode_def)+
qed

text \<open>
  C29: a node is only ever used when it passed the checks: its server answered with the genesis block of
  the network and a version that \<^verbatim>\<open>checkVersion\<close> accepts, version 1.2 was negotiated, and the node
  carries the identifier it was dialled under.
\<close>

theorem dialled_node_is_checked:
  assumes "dial_node ops tcp ssl addr port network = Inr (Inr n)"
  shows "\<exists>n0 feature n1 v. NewNode tcp ssl addr port network = Inr (Inr n0) \<and>
    ServerFeatures ops n0 = (Inr feature, n1) \<and> GenesisBlock network = Inr (ft_Genesis feature) \<and>
    checkVersion (ft_Protocol feature) = Inr (Inr ()) \<and> ServerVersion ops ''1.2'' n1 = (Inr v, n) \<and>
    n_Ident n = NodeIdent addr port \<and> n_Network n = network"
proof -
  obtain r where r: "NewNode tcp ssl addr port network = Inr r"
    using assms by (auto simp: dial_node_def sbind_Inr_iff)
  then obtain n0 where n0: "r = Inr n0" using assms by (cases r) (auto simp: dial_node_def)
  obtain u where "check_node ops network n0 = (Inr (Inr u), n)"
    using assms r n0 by (auto simp: dial_node_def split: prod.splits sum.splits)
  from check_node_ok [OF this] check_node_keeps [OF this] NewNode_ok [of tcp ssl addr port network n0]
  show ?thesis using r n0 by auto
qed

text \<open>
  Of a peer that is not an onion service and whose version is accepted the first TCP port is used,
  and the first TLS port only when there is no TCP port; what is used is a feature of the peer, and on a
  known network connecting to it does not panic before it has dialled.
\<close>

theorem addPeer_chooses:
  assumes "addPeer peer = Inr (Some (addr, port))"
  shows "addr = pe_IP peer \<and> port \<in> set (pe_Features peer) \<and> \<not> has_suffix (pe_Host peer) ''.onion'' \<and>
    checkVersion (pe_Version peer) = Inr (Inr ()) \<and>
    (has_prefix port ''t'' \<or> (\<forall>f\<in>set (pe_Features peer). \<not> has_prefix f ''t'') \<and> has_prefix port ''s'') \<and>
    (network \<in> {Mainnet, Testnet} \<longrightarrow> (\<exists>r. NewNode tcp ssl addr port network = Inr r))"
proof -
  obtain r where r: "checkVersion (pe_Version peer) = Inr r" and o: "\<not> has_suffix (pe_Host peer) ''.onion''"
    using assms by (auto simp: addPeer_def sbind_Inr_iff split: if_splits)
  then have r': "r = Inr ()" using assms by (cases r) (auto simp: addPeer_def)
  have c: "addr = pe_IP peer \<and> port \<in> set (pe_Features peer) \<and>
    (has_prefix port ''t'' \<or> (\<forall>f\<in>set (pe_Features peer). \<not> has_prefix f ''t'') \<and> has_prefix port ''s'')"
    using assms o r r'
    by (auto simp: addPeer_def find_None_iff find_Some_iff split: option.splits)
  have p: "has_prefix port ''t'' \<or> has_prefix port ''s''" using c by auto
  have "\<exists>r. NewNode tcp ssl addr port network = Inr r" if "network \<in> {Mainnet, Testnet}"
    using that p by (cases port) (auto simp: NewNode_def dial_address_def defaultPorts_def at_index_def has_prefix_def Let_def)
  then show ?thesis using c o r r' by blast
qed

theorem addPeer_chooses_witness:
  "addPeer \<lparr>pe_IP = ''1.2.3.4'', pe_Host = ''h'', pe_Version = ''v1.4'', pe_Features = [''p100'', ''s'', ''t80'']\<rparr>
     = Inr (Some (''1.2.3.4'', ''t80'')) \<and> has_prefix ''t80'' ''t'' \<and>
   (\<exists>r. NewNode (\<lambda>_. Inr ()) (\<lambda>_. Inr ()) ''1.2.3.4'' ''t80'' Testnet = Inr r)"
proof -
  have "addPeer \<lparr>pe_IP = ''1.2.3.4'', pe_Host = ''h'', pe_Version = ''v1.4'', pe_Features = [''p100'', ''s'', ''t80'']\<rparr>
     = Inr (Some (''1.2.3.4'', ''t80''))" by code_simp
  from this addPeer_chooses [OF this, of Testnet "\<lambda>_. Inr ()" "\<lambda>_. Inr ()"] show ?thesis
    by (auto simp: has_prefix_def)
qed

end
