(* ===== verification/ElectrumPool.thy ===== *)
theory ElectrumPool
  imports Electrum
begin

text \<open>
  The goroutines of \<^verbatim>\<open>backend/electrum_backend.go\<close> as a step relation, and the contract of a backend for
  them: a request that a server failed to answer is queued again, so every request is answered once,
  whatever nodes come and go.
\<close>

section \<open>The steps of a goroutine\<close>

text \<open>\<^verbatim>\<open>processAddrRequest\<close> between the call of the node and the response.\<close>

definition cache_history :: "Transaction option list \<Rightarrow> (string \<rightharpoonup> u64) \<Rightarrow> (string list \<times> (string \<rightharpoonup> u64)) result" where
  "cache_history txs m =
     sbind (smap deref txs) (\<lambda>txs. sbind (cacheTxs txs m) (\<lambda>m. Inr (map et_Hash txs, m)))"

definition set_node :: "nat \<Rightarrow> 'c node \<Rightarrow> 'c electrum_backend \<Rightarrow> 'c electrum_backend" where
  "set_node i n b = b\<lparr>eb_heap := (eb_heap b)[i := n]\<rparr>"

definition known_node :: "string \<Rightarrow> string \<Rightarrow> 'c electrum_backend \<Rightarrow> bool" where
  "known_node addr port b \<longleftrightarrow>
     map_of (eb_nodes b) (NodeIdent addr port) \<noteq> None \<or> NodeIdent addr port \<in> eb_blacklistedNodes b"

definition blacklist :: "string \<Rightarrow> 'c electrum_backend \<Rightarrow> 'c electrum_backend" where
  "blacklist ident b = b\<lparr>eb_blacklistedNodes := insert ident (eb_blacklistedNodes b)\<rparr>"

text \<open>The second critical section of \<^verbatim>\<open>addNode\<close>, and the one of \<^verbatim>\<open>findPeers\<close>.\<close>

definition register_node :: "nat \<Rightarrow> 'c electrum_backend \<Rightarrow> 'c electrum_backend" where
  "register_node i b = b\<lparr>eb_nodes := AList.update (n_Ident (eb_heap b ! i)) i (eb_nodes b)\<rparr>"

definition report_peers :: "'c electrum_backend \<Rightarrow> 'c electrum_backend" where
  "report_peers b = b\<lparr>eb_reported := of_nat (length (eb_nodes b))\<rparr>"

declare register_node_def [simp] report_peers_def [simp]

definition requeue :: "job \<Rightarrow> 'c electrum_backend \<Rightarrow> 'c electrum_backend option" where
  "requeue job b = (case job of JAddr a \<Rightarrow> electrum_addr_send a b | JTx h \<Rightarrow> electrum_tx_send h b
     | JBlock k \<Rightarrow> electrum_block_send k b)"

text \<open>
  \<open>dials tls a r\<close>: dialling the address \<open>a\<close> may have the outcome \<open>r\<close>.  The last component of the result of
  a step is the list of goroutines it starts.  The goroutine that registers a node ends there and starts
  the node's worker, which takes its place.
\<close>

inductive electrum_step ::
    "'c conn_ops \<Rightarrow> (bool \<Rightarrow> string \<Rightarrow> 'c fallible \<Rightarrow> bool) \<Rightarrow> 'c electrum_backend \<times> thread
      \<Rightarrow> 'c electrum_backend \<times> thread \<times> thread list \<Rightarrow> bool"
  for ops dials where
  take_addr: "eb_addrRequests b = a # q \<Longrightarrow>
     electrum_step ops dials (b, EIdle i) (b\<lparr>eb_addrRequests := q\<rparr>, EAddr i a, [])"
| take_tx: "eb_txRequests b = h # q \<Longrightarrow>
     electrum_step ops dials (b, EIdle i) (b\<lparr>eb_txRequests := q\<rparr>, ETx i h, [])"
| take_block: "eb_blockRequests b = k # q \<Longrightarrow>
     electrum_step ops dials (b, EIdle i) (b\<lparr>eb_blockRequests := q\<rparr>, EBlock i k, [])"
| enough_peers: "maxPeers \<le> length (eb_nodes b) \<Longrightarrow>
     electrum_step ops dials (b, EPeers i) (b, EIdle i, [])"
| few_peers: "length (eb_nodes b) < maxPeers \<Longrightarrow>
     electrum_step ops dials (b, EPeers i) (b, EAskPeers i, [])"
| ask: "ServerPeersSubscribe ops (eb_heap b ! i) = (Inr (Inr ps), n) \<Longrightarrow> smap addPeer ps = Inr os \<Longrightarrow>
     electrum_step ops dials (b, EAskPeers i) (set_node i n b, EIdle i, [EConnect a p. Some (a, p) \<leftarrow> os])"
| ask_bad_peer: "ServerPeersSubscribe ops (eb_heap b ! i) = (Inr (Inr ps), n) \<Longrightarrow> smap addPeer ps = Inl e \<Longrightarrow>
     electrum_step ops dials (b, EAskPeers i) (set_node i n b, ECrashed e None, [])"
| ask_bad_answer: "ServerPeersSubscribe ops (eb_heap b ! i) = (Inr (Inl e), n) \<Longrightarrow>
     electrum_step ops dials (b, EAskPeers i) (set_node i n b, ECrashed e None, [])"
| ask_failed: "ServerPeersSubscribe ops (eb_heap b ! i) = (Inl err, n) \<Longrightarrow>
     electrum_step ops dials (b, EAskPeers i) (set_node i n b, EExited, [])"
| history: "BlockchainAddressGetHistory ops (Address_String a) (eb_heap b ! i) = (Inr txs, n) \<Longrightarrow>
     electrum_step ops dials (b, EAddr i a) (set_node i n b, ECache i a txs, [])"
| no_history: "BlockchainAddressGetHistory ops (Address_String a) (eb_heap b ! i) = (Inl err, n) \<Longrightarrow>
     electrum_step ops dials (b, EAddr i a) (set_node i n b, EDrop i (JAddr a), [])"
| cache: "cache_history txs (eb_transactions b) = Inr (hs, m) \<Longrightarrow>
     electrum_step ops dials (b, ECache i a txs)
       (b\<lparr>eb_transactions := m\<rparr>, ESendAddr i \<lparr>ar_Address = a, ar_TxHashes = hs\<rparr>, [])"
| cache_panic: "cache_history txs (eb_transactions b) = Inl e \<Longrightarrow>
     electrum_step ops dials (b, ECache i a txs) (b, ECrashed e (Some (JAddr a)), [])"
| send_addr: "length (eb_addrResponses b) < 2 * maxPeers \<Longrightarrow>
     electrum_step ops dials (b, ESendAddr i r) (b\<lparr>eb_addrResponses := eb_addrResponses b @ [r]\<rparr>, EIdle i, [])"
| get_tx: "BlockchainTransactionGet ops h (eb_heap b ! i) = (Inr hex, n) \<Longrightarrow>
     electrum_step ops dials (b, ETx i h) (set_node i n b, EHeight i h hex, [])"
| no_tx: "BlockchainTransactionGet ops h (eb_heap b ! i) = (Inl err, n) \<Longrightarrow>
     electrum_step ops dials (b, ETx i h) (set_node i n b, EDrop i (JTx h), [])"
| height: "getTxHeight h (eb_transactions b) = Inr k \<Longrightarrow>
     electrum_step ops dials (b, EHeight i h hex) (b, ESendTx i \<lparr>tr_Hash = h, tr_Height = k, tr_Hex = hex\<rparr>, [])"
| height_panic: "getTxHeight h (eb_transactions b) = Inl e \<Longrightarrow>
     electrum_step ops dials (b, EHeight i h hex) (b, ECrashed e (Some (JTx h)), [])"
| send_tx: "length (eb_txResponses b) < 2 * maxPeers \<Longrightarrow>
     electrum_step ops dials (b, ESendTx i t) (b\<lparr>eb_txResponses := eb_txResponses b @ [t]\<rparr>, EIdle i, [])"
| get_block: "BlockchainBlockHeaders ops k 1 (eb_heap b ! i) = (Inr bl, n) \<Longrightarrow> parse_block k bl = Inr r \<Longrightarrow>
     electrum_step ops dials (b, EBlock i k) (set_node i n b, ESendBlock i r, [])"
| bad_block: "BlockchainBlockHeaders ops k 1 (eb_heap b ! i) = (Inr bl, n) \<Longrightarrow> parse_block k bl = Inl e \<Longrightarrow>
     electrum_step ops dials (b, EBlock i k) (set_node i n b, ECrashed e (Some (JBlock k)), [])"
| no_block: "BlockchainBlockHeaders ops k 1 (eb_heap b ! i) = (Inl err, n) \<Longrightarrow>
     electrum_step ops dials (b, EBlock i k) (set_node i n b, EDrop i (JBlock k), [])"
| send_block: "length (eb_blockResponses b) < 2 * maxPeers \<Longrightarrow>
     electrum_step ops dials (b, ESendBlock i r) (b\<lparr>eb_blockResponses := eb_blockResponses b @ [r]\<rparr>, EIdle i, [])"
| drop: "electrum_step ops dials (b, EDrop i job) (removeNode ops (n_Ident (eb_heap b ! i)) b, ERequeue job, [])"
| requeue: "requeue job b = Some b' \<Longrightarrow> electrum_step ops dials (b, ERequeue job) (b', EExited, [])"
| known: "known_node addr port b \<Longrightarrow> electrum_step ops dials (b, EConnect addr port) (b, EExited, [])"
| unknown: "\<not> known_node addr port b \<Longrightarrow>
     electrum_step ops dials (b, EConnect addr port) (b, EDial addr port, [])"
| dialled: "(\<And>a. dials False a (tcp a)) \<Longrightarrow> (\<And>a. dials True a (ssl a)) \<Longrightarrow>
     dial_node ops tcp ssl addr port (eb_network b) = Inr (Inr n) \<Longrightarrow>
     electrum_step ops dials (b, EDial addr port) (b\<lparr>eb_heap := eb_heap b @ [n]\<rparr>, ERegister (length (eb_heap b)), [])"
| not_dialled: "(\<And>a. dials False a (tcp a)) \<Longrightarrow> (\<And>a. dials True a (ssl a)) \<Longrightarrow>
     dial_node ops tcp ssl addr port (eb_network b) = Inr (Inl err) \<Longrightarrow>
     electrum_step ops dials (b, EDial addr port) (blacklist (NodeIdent addr port) b, EExited, [])"
| dial_panic: "(\<And>a. dials False a (tcp a)) \<Longrightarrow> (\<And>a. dials True a (ssl a)) \<Longrightarrow>
     dial_node ops tcp ssl addr port (eb_network b) = Inl e \<Longrightarrow>
     electrum_step ops dials (b, EDial addr port) (b, ECrashed e None, [])"
| register: "electrum_step ops dials (b, ERegister i) (register_node i b, EIdle i, [])"
| report: "electrum_step ops dials (b, EReport) (report_peers b, EWait, [])"
| interval: "electrum_step ops dials (b, EWait) (b, EFind, [])"
| finished: "eb_doneCh b \<Longrightarrow> electrum_step ops dials (b, EWait) (b, EExited, [])"

text \<open>
  All goroutines: one of them makes a step, or the request for peers goes over its unbuffered channel to
  an idle worker.
\<close>

inductive electrum_processRequests ::
    "'c conn_ops \<Rightarrow> (bool \<Rightarrow> string \<Rightarrow> 'c fallible \<Rightarrow> bool) \<Rightarrow> 'c electrum_backend \<times> thread list
      \<Rightarrow> 'c electrum_backend \<times> thread list \<Rightarrow> bool"
  for ops dials where
  goroutine: "i < length ts \<Longrightarrow> electrum_step ops dials (b, ts ! i) (b', t, new) \<Longrightarrow>
     electrum_processRequests ops dials (b, ts) (b', ts[i := t] @ new)"
| rendezvous: "i < length ts \<Longrightarrow> ts ! i = EFind \<Longrightarrow> j < length ts \<Longrightarrow> ts ! j = EIdle n \<Longrightarrow>
     electrum_processRequests ops dials (b, ts) (b, ts[i := EReport, j := EPeers n])"

section \<open>What the answers are\<close>

text \<open>
  What the servers say: the history of an address, the hex and the height of a transaction.  The
  documented behaviour the backend relies on is that every server that answers says the same, and that
  a transaction has one height.
\<close>

record view =
  v_history :: "string \<Rightarrow> Transaction list"
  v_raw :: "string \<Rightarrow> string"
  v_height :: "string \<Rightarrow> u32"

definition honest :: "'c conn_ops \<Rightarrow> view \<Rightarrow> bool" where
  "honest ops V \<longleftrightarrow>
     (\<forall>s n txs n'. BlockchainAddressGetHistory ops s n = (Inr txs, n') \<longrightarrow> txs = map Some (v_history V s)) \<and>
     (\<forall>h n hex n'. BlockchainTransactionGet ops h n = (Inr hex, n') \<longrightarrow> hex = v_raw V h) \<and>
     (\<forall>s. \<forall>tx\<in>set (v_history V s). et_Height tx = v_height V (et_Hash tx))"

lemma honestD:
  "honest ops V \<Longrightarrow> BlockchainAddressGetHistory ops s n = (Inr txs, n') \<Longrightarrow> txs = map Some (v_history V s)"
  "honest ops V \<Longrightarrow> BlockchainTransactionGet ops h n = (Inr hex, n') \<Longrightarrow> hex = v_raw V h"
  "honest ops V \<Longrightarrow> tx \<in> set (v_history V s) \<Longrightarrow> et_Height tx = v_height V (et_Hash tx)"
  unfolding honest_def by blast+

definition electrum_addr_answer :: "view \<Rightarrow> Address \<Rightarrow> AddrResponse" where
  "electrum_addr_answer V a = \<lparr>ar_Address = a, ar_TxHashes = map et_Hash (v_history V (Address_String a))\<rparr>"

definition electrum_tx_answer :: "view \<Rightarrow> string \<Rightarrow> TxResponse" where
  "electrum_tx_answer V h = \<lparr>tr_Hash = h, tr_Height = ucast (v_height V h), tr_Hex = v_raw V h\<rparr>"

definition cache_ok :: "view \<Rightarrow> (string \<rightharpoonup> u64) \<Rightarrow> bool" where
  "cache_ok V m \<longleftrightarrow> (\<forall>h k. m h = Some k \<longrightarrow> k = ucast (v_height V h))"

fun thread_ok :: "view \<Rightarrow> thread \<Rightarrow> bool" where
  "thread_ok V (ECache i a txs) \<longleftrightarrow> txs = map Some (v_history V (Address_String a))"
| "thread_ok V (EHeight i h hex) \<longleftrightarrow> hex = v_raw V h"
| "thread_ok V _ \<longleftrightarrow> True"

definition electrum_inv :: "'c conn_ops \<Rightarrow> view \<Rightarrow> 'c electrum_backend \<times> thread list \<Rightarrow> bool" where
  "electrum_inv ops V s \<longleftrightarrow> honest ops V \<and> cache_ok V (eb_transactions (fst s)) \<and> (\<forall>t\<in>set (snd s). thread_ok V t)"

fun job_addr_owed :: "view \<Rightarrow> job \<Rightarrow> AddrResponse multiset" where
  "job_addr_owed V (JAddr a) = {#electrum_addr_answer V a#}"
| "job_addr_owed V _ = {#}"

fun job_tx_owed :: "view \<Rightarrow> job \<Rightarrow> TxResponse multiset" where
  "job_tx_owed V (JTx h) = {#electrum_tx_answer V h#}"
| "job_tx_owed V _ = {#}"

text \<open>A goroutine that panicked still owes the answer it was preparing.\<close>

fun thread_addr_owed :: "view \<Rightarrow> thread \<Rightarrow> AddrResponse multiset" where
  "thread_addr_owed V (EAddr i a) = {#electrum_addr_answer V a#}"
| "thread_addr_owed V (ECache i a txs) = {#electrum_addr_answer V a#}"
| "thread_addr_owed V (ESendAddr i r) = {#r#}"
| "thread_addr_owed V (EDrop i job) = job_addr_owed V job"
| "thread_addr_owed V (ERequeue job) = job_addr_owed V job"
| "thread_addr_owed V (ECrashed e (Some job)) = job_addr_owed V job"
| "thread_addr_owed V _ = {#}"

fun thread_tx_owed :: "view \<Rightarrow> thread \<Rightarrow> TxResponse multiset" where
  "thread_tx_owed V (ETx i h) = {#electrum_tx_answer V h#}"
| "thread_tx_owed V (EHeight i h hex) = {#electrum_tx_answer V h#}"
| "thread_tx_owed V (ESendTx i t) = {#t#}"
| "thread_tx_owed V (EDrop i job) = job_tx_owed V job"
| "thread_tx_owed V (ERequeue job) = job_tx_owed V job"
| "thread_tx_owed V (ECrashed e (Some job)) = job_tx_owed V job"
| "thread_tx_owed V _ = {#}"

definition electrum_addr_owed :: "view \<Rightarrow> 'c electrum_backend \<times> thread list \<Rightarrow> AddrResponse multiset" where
  "electrum_addr_owed V s = image_mset (electrum_addr_answer V) (mset (eb_addrRequests (fst s)))
     + (\<Sum>t\<in>#mset (snd s). thread_addr_owed V t) + mset (eb_addrResponses (fst s))"

definition electrum_tx_owed :: "view \<Rightarrow> 'c electrum_backend \<times> thread list \<Rightarrow> TxResponse multiset" where
  "electrum_tx_owed V s = image_mset (electrum_tx_answer V) (mset (eb_txRequests (fst s)))
     + (\<Sum>t\<in>#mset (snd s). thread_tx_owed V t) + mset (eb_txResponses (fst s))"

lemma smap_deref_Some [simp]: "smap deref (map Some xs) = Inr xs"
  by (induction xs) auto

lemma cacheTxs_ok:
  assumes "\<forall>tx\<in>set txs. et_Height tx = v_height V (et_Hash tx)" and "cache_ok V m"
  shows "\<exists>m'. cacheTxs txs m = Inr m' \<and> cache_ok V m' \<and> dom m' = dom m \<union> et_Hash ` set txs"
  using assms
proof (induction txs arbitrary: m)
  case Nil
  then show ?case by (simp add: cacheTxs_def)
next
  case (Cons tx txs)
  let ?m = "m(et_Hash tx \<mapsto> ucast (et_Height tx))"
  have s: "cache_step tx m = Inr ?m"
    using Cons.prems by (auto simp: cache_ok_def split: option.splits)
  have c: "cache_ok V ?m" using Cons.prems by (auto simp: cache_ok_def)
  have "\<forall>tx\<in>set txs. et_Height tx = v_height V (et_Hash tx)" using Cons.prems(1) by simp
  from Cons.IH [OF this c] obtain m' where "cacheTxs txs ?m = Inr m'" "cache_ok V m'"
    "dom m' = dom ?m \<union> et_Hash ` set txs" by blast
  then show ?case using s by (auto simp: cacheTxs_def simp del: cache_step.simps)
qed

lemma cache_history_ok:
  assumes "honest ops V" and "cache_ok V m" and "txs = map Some (v_history V (Address_String a))"
  shows "\<exists>m'. cache_history txs m = Inr (ar_TxHashes (electrum_addr_answer V a), m') \<and> cache_ok V m' \<and>
    dom m' = dom m \<union> set (ar_TxHashes (electrum_addr_answer V a))"
  using assms cacheTxs_ok [of "v_history V (Address_String a)" V m]
  by (force simp: honest_def cache_history_def electrum_addr_answer_def)

lemma step_inv:
  assumes "electrum_step ops dials s s'" and "electrum_inv ops V (fst s, [snd s])"
  shows "electrum_inv ops V (fst s', fst (snd s') # snd (snd s'))"
  using assms
proof (induction rule: electrum_step.induct)
  case (cache txs b hs m i a)
  then show ?case using cache_history_ok [of ops V "eb_transactions b" txs a] by (auto simp: electrum_inv_def)
next
  case (requeue job b b' )
  then show ?case
    by (auto simp: electrum_inv_def requeue_def electrum_addr_send_def electrum_tx_send_def electrum_block_send_def
        split: job.splits if_splits)
next
  case (drop b i job)
  then show ?case by (auto simp: electrum_inv_def removeNode_def split: option.splits)
next
  case (history a b i txs n)
  then show ?case using honestD(1) [OF _ history(1)] by (auto simp: electrum_inv_def set_node_def)
next
  case (get_tx h b i hex n)
  then show ?case using honestD(2) [OF _ get_tx(1)] by (auto simp: electrum_inv_def set_node_def)
qed (auto simp: electrum_inv_def set_node_def blacklist_def)

lemma step_owed:
  assumes "electrum_step ops dials s s'" and "electrum_inv ops V (fst s, [snd s])"
  shows "electrum_addr_owed V (fst s', fst (snd s') # snd (snd s')) = electrum_addr_owed V (fst s, [snd s])"
    "electrum_tx_owed V (fst s', fst (snd s') # snd (snd s')) = electrum_tx_owed V (fst s, [snd s])"
proof -
  have new: "(\<Sum>t\<in>#mset [EConnect a p. Some (a, p) \<leftarrow> os]. thread_addr_owed V t) = {#}"
    "(\<Sum>t\<in>#mset [EConnect a p. Some (a, p) \<leftarrow> os]. thread_tx_owed V t) = {#}" for os
    by (induction os) (auto split: option.splits)
  show "electrum_addr_owed V (fst s', fst (snd s') # snd (snd s')) = electrum_addr_owed V (fst s, [snd s])"
    using assms
  proof (induction rule: electrum_step.induct)
    case (ask b i ps n os)
    then show ?case using new(1) [of os] by (simp add: electrum_addr_owed_def set_node_def)
  next
    case (cache txs b hs m i a)
    then show ?case using cache_history_ok [of ops V "eb_transactions b" txs a]
      by (auto simp: electrum_inv_def electrum_addr_owed_def electrum_addr_answer_def)
  next
    case (requeue job b b')
    then show ?case
      by (auto simp: electrum_addr_owed_def requeue_def electrum_addr_send_def electrum_tx_send_def electrum_block_send_def
          split: job.splits if_splits)
  next
    case (drop b i job)
    then show ?case by (auto simp: electrum_addr_owed_def removeNode_def split: option.splits)
  qed (auto simp: electrum_addr_owed_def set_node_def blacklist_def)
  show "electrum_tx_owed V (fst s', fst (snd s') # snd (snd s')) = electrum_tx_owed V (fst s, [snd s])"
    using assms
  proof (induction rule: electrum_step.induct)
    case (ask b i ps n os)
    then show ?case using new(2) [of os] by (simp add: electrum_tx_owed_def set_node_def)
  next
    case (height h b k i hex)
    then show ?case
      by (auto simp: electrum_inv_def electrum_tx_owed_def electrum_tx_answer_def getTxHeight_def cache_ok_def split: option.splits)
  next
    case (requeue job b b')
    then show ?case
      by (auto simp: electrum_tx_owed_def requeue_def electrum_addr_send_def electrum_tx_send_def electrum_block_send_def
          split: job.splits if_splits)
  next
    case (drop b i job)
    then show ?case by (auto simp: electrum_tx_owed_def removeNode_def split: option.splits)
  qed (auto simp: electrum_tx_owed_def set_node_def blacklist_def)
qed

text \<open>From one goroutine to all of them.\<close>

lemma pool_picks:
  assumes "i < length ts"
  shows "electrum_addr_owed V (b, ts) = electrum_addr_owed V (b, [ts ! i])
      + (\<Sum>t\<in>#mset ts - {#ts ! i#}. thread_addr_owed V t)"
    "electrum_tx_owed V (b, ts) = electrum_tx_owed V (b, [ts ! i])
      + (\<Sum>t\<in>#mset ts - {#ts ! i#}. thread_tx_owed V t)"
  using assms by (simp_all add: electrum_addr_owed_def electrum_tx_owed_def sum_mset_pick [of "ts ! i" "mset ts"])

lemma pool_replaced:
  assumes "i < length ts"
  shows "electrum_addr_owed V (b, ts[i := t] @ new) = electrum_addr_owed V (b, t # new)
      + (\<Sum>t\<in>#mset ts - {#ts ! i#}. thread_addr_owed V t)"
    "electrum_tx_owed V (b, ts[i := t] @ new) = electrum_tx_owed V (b, t # new)
      + (\<Sum>t\<in>#mset ts - {#ts ! i#}. thread_tx_owed V t)"
proof -
  have "mset (ts[i := t] @ new) = mset (t # new) + (mset ts - {#ts ! i#})"
    unfolding mset_append mset_update [OF assms] by simp
  then show "electrum_addr_owed V (b, ts[i := t] @ new) = electrum_addr_owed V (b, t # new)
      + (\<Sum>t\<in>#mset ts - {#ts ! i#}. thread_addr_owed V t)"
    "electrum_tx_owed V (b, ts[i := t] @ new) = electrum_tx_owed V (b, t # new)
      + (\<Sum>t\<in>#mset ts - {#ts ! i#}. thread_tx_owed V t)"
    by (simp_all only: electrum_addr_owed_def electrum_tx_owed_def fst_conv snd_conv image_mset_union sum_mset.union) simp_all
qed

lemma goroutines_step:
  assumes "electrum_processRequests ops dials s s'" and "electrum_inv ops V s"
  shows "electrum_inv ops V s'" "electrum_addr_owed V s' = electrum_addr_owed V s"
    "electrum_tx_owed V s' = electrum_tx_owed V s"
  using assms
proof (induction rule: electrum_processRequests.induct)
  case (goroutine i ts b b' t new)
  have one: "electrum_inv ops V s \<Longrightarrow> s = (b, ts) \<Longrightarrow> electrum_inv ops V (fst (b, ts ! i), [snd (b, ts ! i)])" for s
    using goroutine(1) by (auto simp: electrum_inv_def)
  { case 1
    from step_inv [OF goroutine(2) one [OF 1 refl]] have "electrum_inv ops V (b', t # new)" by simp
    then show ?case using 1 set_update_subset_insert [of ts i t] by (fastforce simp: electrum_inv_def) }
  { case 2
    from step_owed(1) [OF goroutine(2) one [OF 2 refl]] show ?case
      using pool_picks(1) [OF goroutine(1), of V b] pool_replaced(1) [OF goroutine(1), of V b' t new] by simp }
  { case 3
    from step_owed(2) [OF goroutine(2) one [OF 3 refl]] show ?case
      using pool_picks(2) [OF goroutine(1), of V b] pool_replaced(2) [OF goroutine(1), of V b' t new] by simp }
next
  case (rendezvous i ts j n b)
  have ne: "i \<noteq> j" using rendezvous(2,4) by auto
  have m: "mset (ts[i := EReport, j := EPeers n]) = mset ts - {#EFind#} + {#EReport#} - {#EIdle n#} + {#EPeers n#}"
    using rendezvous ne by (simp add: mset_update)
  have sub: "{#EFind, EIdle n#} \<subseteq># mset ts"
  proof -
    have "mset (ts[i := EReport]) = mset ts - {#EFind#} + {#EReport#}" using rendezvous by (simp add: mset_update)
    moreover have "EIdle n \<in># mset (ts[i := EReport])"
      using rendezvous(3,4) ne by (metis length_list_update nth_list_update_neq nth_mem set_mset_mset)
    moreover have "EFind \<in># mset ts" using rendezvous(1,2) by (metis nth_mem set_mset_mset)
    ultimately show ?thesis by (simp add: insert_subset_eq_iff)
  qed
  then obtain M where M: "mset ts = M + {#EFind, EIdle n#}" by (metis mset_subset_eq_exists_conv add.commute)
  have m': "mset (ts[i := EReport, j := EPeers n]) = M + {#EReport, EPeers n#}" unfolding m M by simp
  have set: "set (ts[i := EReport, j := EPeers n]) \<subseteq> set ts \<union> {EReport, EPeers n}"
    using m' M by (auto simp flip: set_mset_mset)
  { case 1
    then show ?case using set by (fastforce simp: electrum_inv_def) }
  { case 2
    then show ?case using M m' by (simp add: electrum_addr_owed_def) }
  { case 3
    then show ?case using M m' by (simp add: electrum_tx_owed_def) }
qed

abbreviation el_addr_send :: "Address \<Rightarrow> 'c electrum_backend \<times> thread list \<Rightarrow> 'c electrum_backend \<times> thread list \<Rightarrow> bool" where
  "el_addr_send a s s' \<equiv> electrum_addr_send a (fst s) = Some (fst s') \<and> snd s' = snd s"

abbreviation el_addr_recv :: "'c electrum_backend \<times> thread list \<Rightarrow> AddrResponse \<Rightarrow> 'c electrum_backend \<times> thread list \<Rightarrow> bool" where
  "el_addr_recv s r s' \<equiv> electrum_addr_recv (fst s) = Some (r, fst s') \<and> snd s' = snd s"

abbreviation el_tx_send :: "string \<Rightarrow> 'c electrum_backend \<times> thread list \<Rightarrow> 'c electrum_backend \<times> thread list \<Rightarrow> bool" where
  "el_tx_send h s s' \<equiv> electrum_tx_send h (fst s) = Some (fst s') \<and> snd s' = snd s"

abbreviation el_tx_recv :: "'c electrum_backend \<times> thread list \<Rightarrow> TxResponse \<Rightarrow> 'c electrum_backend \<times> thread list \<Rightarrow> bool" where
  "el_tx_recv s t s' \<equiv> electrum_tx_recv (fst s) = Some (t, fst s') \<and> snd s' = snd s"

interpretation el: backend_contract "electrum_processRequests ops dials" el_addr_send el_addr_recv el_tx_send el_tx_recv
    "electrum_addr_owed V" "electrum_tx_owed V" "electrum_addr_answer V" "\<lambda>h. Some (electrum_tx_answer V h)"
    "electrum_inv ops V"
  for ops dials V
proof (unfold_locales, goal_cases)
  case (1 b b')
  then show ?case by (simp add: goroutines_step [OF 1(2,1)])
next
  case (2 b a b')
  then show ?case
    by (auto simp: electrum_addr_send_def electrum_inv_def electrum_addr_owed_def electrum_tx_owed_def split: if_splits dest!: sym [of _ "fst b'"])
next
  case (3 b r b')
  then show ?case
    by (auto simp: electrum_addr_recv_def electrum_inv_def electrum_addr_owed_def electrum_tx_owed_def split: list.splits dest!: sym [of _ "fst b'"])
next
  case (4 b h b')
  then show ?case
    by (auto simp: electrum_tx_send_def electrum_inv_def electrum_addr_owed_def electrum_tx_owed_def split: if_splits dest!: sym [of _ "fst b'"])
next
  case (5 b t b')
  then show ?case
    by (auto simp: electrum_tx_recv_def electrum_inv_def electrum_addr_owed_def electrum_tx_owed_def split: list.splits dest!: sym [of _ "fst b'"])
next
  case (6 h t)
  then show ?case by (auto simp: electrum_tx_answer_def)
qed

lemma NewElectrumBackend_Inr:
  assumes "NewElectrumBackend ops dial1 dial2 addr port network = Inr (Inr s)"
  shows "\<exists>height n. fst (getHeight ops (fst dial1) (snd dial1) addr port network) = Inr (Inr height) \<and>
    dial_node ops (fst dial2) (snd dial2) addr port network = Inr (Inr n) \<and>
    s = (\<lparr>eb_chainHeight = height, eb_nodes = [(NodeIdent addr port, 0)], eb_blacklistedNodes = {},
           eb_network = network, eb_addrRequests = [], eb_addrResponses = [], eb_txRequests = [], eb_txResponses = [],
           eb_blockRequests = [], eb_blockResponses = [], eb_transactions = Map.empty, eb_doneCh = False,
           eb_heap = [n], eb_reported = 0\<rparr>, [EIdle 0, EFind])"
proof -
  obtain r1 where r1: "fst (getHeight ops (fst dial1) (snd dial1) addr port network) = Inr r1"
    using assms by (auto simp: NewElectrumBackend_def sbind_Inr_iff)
  then obtain height where h: "r1 = Inr height" using assms by (cases r1) (auto simp: NewElectrumBackend_def)
  then obtain r2 where r2: "dial_node ops (fst dial2) (snd dial2) addr port network = Inr r2"
    using assms r1 by (auto simp: NewElectrumBackend_def sbind_Inr_iff)
  then obtain n where "r2 = Inr n" using assms r1 h by (cases r2) (auto simp: NewElectrumBackend_def)
  then show ?thesis using assms r1 h r2 by (simp add: NewElectrumBackend_def)
qed

lemma electrum_start_facts:
  assumes "NewElectrumBackend ops dial1 dial2 addr port network = Inr (Inr s)" and "honest ops V"
  shows "electrum_inv ops V s" "electrum_addr_owed V s = {#}" "electrum_tx_owed V s = {#}"
  using NewElectrumBackend_Inr [OF assms(1)] assms(2)
  by (auto simp: electrum_inv_def cache_ok_def electrum_addr_owed_def electrum_tx_owed_def)

section \<open>Invariants\<close>

text \<open>The hashes a goroutine has to do with, and the goroutines that are not about to fail on the cache.\<close>

fun job_hashes :: "job \<Rightarrow> string set" where
  "job_hashes (JTx h) = {h}"
| "job_hashes _ = {}"

fun thread_hashes :: "thread \<Rightarrow> string set" where
  "thread_hashes (ETx i h) = {h}"
| "thread_hashes (EHeight i h hex) = {h}"
| "thread_hashes (ESendAddr i r) = set (ar_TxHashes r)"
| "thread_hashes (EDrop i job) = job_hashes job"
| "thread_hashes (ERequeue job) = job_hashes job"
| "thread_hashes _ = {}"

fun is_block :: "job \<Rightarrow> bool" where
  "is_block (JBlock k) \<longleftrightarrow> True"
| "is_block _ \<longleftrightarrow> False"

fun healthy :: "thread \<Rightarrow> bool" where
  "healthy (ECrashed e (Some job)) \<longleftrightarrow> False"
| "healthy (EBlock i k) \<longleftrightarrow> False"
| "healthy (EDrop i job) \<longleftrightarrow> \<not> is_block job"
| "healthy (ERequeue job) \<longleftrightarrow> \<not> is_block job"
| "healthy _ \<longleftrightarrow> True"

definition cached :: "(string \<rightharpoonup> u64) \<Rightarrow> string set \<Rightarrow> bool" where
  "cached m X \<longleftrightarrow> X \<subseteq> dom m"

lemma cached_simps [simp]:
  "cached m {}" "cached m (insert h X) \<longleftrightarrow> m h \<noteq> None \<and> cached m X" "cached m (X \<union> Y) \<longleftrightarrow> cached m X \<and> cached m Y"
  by (auto simp: cached_def)

lemma cached_mono: "cached m X \<Longrightarrow> dom m \<subseteq> dom m' \<Longrightarrow> cached m' X"
  by (auto simp: cached_def)

definition all_cached :: "'c electrum_backend \<times> thread list \<Rightarrow> bool" where
  "all_cached s \<longleftrightarrow> eb_blockRequests (fst s) = [] \<and> cached (eb_transactions (fst s)) (set (eb_txRequests (fst s))) \<and>
     (\<forall>r\<in>set (eb_addrResponses (fst s)). cached (eb_transactions (fst s)) (set (ar_TxHashes r))) \<and>
     (\<forall>t\<in>set (snd s). healthy t \<and> cached (eb_transactions (fst s)) (thread_hashes t))"

lemma step_cached:
  assumes "electrum_step ops dials s s'" and "electrum_inv ops V (fst s, [snd s])" and "all_cached (fst s, [snd s])"
  shows "all_cached (fst s', fst (snd s') # snd (snd s')) \<and>
    dom (eb_transactions (fst s)) \<subseteq> dom (eb_transactions (fst s'))"
  using assms
proof (induction rule: electrum_step.induct)
  case (ask b i ps n os)
  have "healthy t \<and> thread_hashes t = {}" if "t \<in> set [EConnect a p. Some (a, p) \<leftarrow> os]" for t
    using that by (auto split: option.splits)
  then show ?case using ask by (auto simp: all_cached_def set_node_def)
next
  case (cache txs b hs m i a)
  then have "cache_ok V m" "dom m = dom (eb_transactions b) \<union> set hs"
    using cache_history_ok [of ops V "eb_transactions b" txs a] by (auto simp: electrum_inv_def)
  then show ?case using cache(3) cached_mono [of "eb_transactions b" _ m]
    by (auto simp: all_cached_def cached_def [of m "set hs"])
next
  case (cache_panic txs b e i a)
  then show ?case using cache_history_ok [of ops V "eb_transactions b" txs a]
    by (auto simp: electrum_inv_def)
next
  case (height_panic h b e i hex)
  then show ?case by (auto simp: all_cached_def getTxHeight_def split: option.splits)
next
  case (requeue job b b')
  then show ?case
    by (auto simp: all_cached_def requeue_def electrum_addr_send_def electrum_tx_send_def electrum_block_send_def
        split: job.splits if_splits)
next
  case (drop b i job)
  then show ?case by (auto simp: all_cached_def removeNode_def split: option.splits)
qed (auto simp: all_cached_def set_node_def blacklist_def)

lemma goroutines_cached:
  assumes "electrum_processRequests ops dials s s'" and "electrum_inv ops V s" and "all_cached s"
  shows "all_cached s' \<and> dom (eb_transactions (fst s)) \<subseteq> dom (eb_transactions (fst s'))"
  using assms
proof (induction rule: electrum_processRequests.induct)
  case (goroutine i ts b b' t new)
  have "electrum_inv ops V (fst (b, ts ! i), [snd (b, ts ! i)])" "all_cached (fst (b, ts ! i), [snd (b, ts ! i)])"
    using goroutine(1,3,4) by (auto simp: electrum_inv_def all_cached_def)
  from step_cached [OF goroutine(2) this]
  have one: "all_cached (b', t # new)" and sub: "dom (eb_transactions b) \<subseteq> dom (eb_transactions b')" by auto
  have "healthy u \<and> cached (eb_transactions b') (thread_hashes u)" if "u \<in> set (ts[i := t] @ new)" for u
  proof (cases "u \<in> set (t # new)")
    case True
    then show ?thesis using one by (auto simp: all_cached_def)
  next
    case False
    then have "u \<in> set ts" using that set_update_subset_insert [of ts i t] by auto
    then show ?thesis using goroutine(4) cached_mono [OF _ sub] by (auto simp: all_cached_def)
  qed
  then show ?case using one sub by (auto simp: all_cached_def)
next
  case (rendezvous i ts j n b)
  have "set (ts[i := EReport, j := EPeers n]) \<subseteq> insert (EPeers n) (insert EReport (set ts))"
    using set_update_subset_insert [of "ts[i := EReport]" j "EPeers n"] set_update_subset_insert [of ts i EReport] by blast
  then show ?case using rendezvous(6) by (fastforce simp: all_cached_def)
qed

abbreviation electrum_program ::
    "('k, 'p) btc_lib \<Rightarrow> 'c conn_ops \<Rightarrow> (bool \<Rightarrow> string \<Rightarrow> 'c fallible \<Rightarrow> bool) \<Rightarrow> ('c electrum_backend \<times> thread list) fetch
      \<Rightarrow> ('c electrum_backend \<times> thread list) fetch \<Rightarrow> bool" where
  "electrum_program lib ops dials \<equiv>
     fetch_step lib (electrum_processRequests ops dials) el_addr_send el_addr_recv el_tx_send el_tx_recv"

fun pending_hashes :: "receiver \<Rightarrow> string set" where
  "pending_hashes (SeeTxs r hs) = set hs"
| "pending_hashes _ = {}"

definition fetch_cached :: "'c conn_ops \<Rightarrow> view \<Rightarrow> ('c electrum_backend \<times> thread list) fetch \<Rightarrow> bool" where
  "fetch_cached ops V s \<longleftrightarrow> electrum_inv ops V (f_backend s) \<and> all_cached (f_backend s) \<and>
     cached (eb_transactions (fst (f_backend s))) (pending_hashes (f_receiver s))"

lemma sendWork_cached:
  assumes "sendWork lib el_addr_send s s'" and "fetch_cached ops V s"
  shows "fetch_cached ops V s'"
  using assms
proof (induction rule: sendWork.induct)
  case (request s change lastAddr addr b')
  have "electrum_inv ops V b'" using el.addr_send_owed [OF _ request(2), of ops V] request(3) by (simp add: fetch_cached_def)
  then show ?case using request
    by (auto simp: fetch_cached_def all_cached_def electrum_addr_send_def split: if_splits dest!: sym [of _ "fst b'"])
qed (auto simp: fetch_cached_def)

lemma recvWork_cached:
  assumes "recvWork lib el_addr_recv el_tx_send el_tx_recv s s'" and "fetch_cached ops V s"
  shows "fetch_cached ops V s'"
  using assms
proof (induction rule: recvWork.induct)
  case (address s resp b' a')
  have "electrum_inv ops V b'" using el.addr_recv_owed [OF _ address(2), of ops V] address(4) by (simp add: fetch_cached_def)
  then show ?case using address
    by (auto simp: fetch_cached_def all_cached_def electrum_addr_recv_def split: list.splits dest!: sym [of _ "fst b'"])
next
  case (address_panic s resp b' e)
  have "electrum_inv ops V b'" using el.addr_recv_owed [OF _ address_panic(2), of ops V] address_panic(4) by (simp add: fetch_cached_def)
  then show ?case using address_panic
    by (auto simp: fetch_cached_def all_cached_def electrum_addr_recv_def split: list.splits dest!: sym [of _ "fst b'"])
next
  case (unknown s resp h hs b')
  have "electrum_inv ops V b'" using el.tx_send_owed [OF _ unknown(3), of ops V] unknown(4) by (simp add: fetch_cached_def)
  then show ?case using unknown
    by (auto simp: fetch_cached_def all_cached_def electrum_tx_send_def split: if_splits dest!: sym [of _ "fst b'"])
next
  case (transaction s resp b')
  have "electrum_inv ops V b'" using el.tx_recv_owed [OF _ transaction(2), of ops V] transaction(3) by (simp add: fetch_cached_def)
  then show ?case using transaction
    by (auto simp: fetch_cached_def all_cached_def electrum_tx_recv_def split: list.splits dest!: sym [of _ "fst b'"])
qed (auto simp: fetch_cached_def)

lemma fetch_stays_cached:
  assumes "(electrum_program lib ops dials)\<^sup>*\<^sup>* s s'" and "fetch_cached ops V s"
  shows "fetch_cached ops V s'"
  using assms
proof (induction rule: rtranclp_induct)
  case (step s s')
  from step(2) show ?case
  proof cases
    case send
    then show ?thesis using sendWork_cached step by blast
  next
    case recv
    then show ?thesis using recvWork_cached step by blast
  next
    case (backend b')
    have "fetch_cached ops V s" using step by blast
    then show ?thesis
      using goroutines_cached [OF backend(3), of V] goroutines_step(1) [OF backend(3), of V]
      by (auto simp: fetch_cached_def backend(1) intro: cached_mono)
  qed
qed simp

section \<open>The nodes\<close>

text \<open>The nodes the goroutines hold, and what always holds of the map and the store of nodes.\<close>

fun thread_node :: "thread \<Rightarrow> nat option" where
  "thread_node (EIdle i) = Some i"
| "thread_node (EPeers i) = Some i"
| "thread_node (EAskPeers i) = Some i"
| "thread_node (EAddr i a) = Some i"
| "thread_node (ECache i a txs) = Some i"
| "thread_node (ESendAddr i r) = Some i"
| "thread_node (ETx i h) = Some i"
| "thread_node (EHeight i h hex) = Some i"
| "thread_node (ESendTx i t) = Some i"
| "thread_node (EBlock i k) = Some i"
| "thread_node (ESendBlock i r) = Some i"
| "thread_node (EDrop i job) = Some i"
| "thread_node (ERegister i) = Some i"
| "thread_node _ = None"

definition store_ok :: "network \<Rightarrow> (string \<times> nat) list \<Rightarrow> 'c node list \<Rightarrow> bool" where
  "store_ok network nodes heap \<longleftrightarrow> distinct (map fst nodes) \<and> (\<forall>n\<in>set heap. n_Network n = network) \<and>
     (\<forall>ident i. (ident, i) \<in> set nodes \<longrightarrow> i < length heap \<and> n_Ident (heap ! i) = ident)"

definition registry_ok :: "'c electrum_backend \<times> thread list \<Rightarrow> bool" where
  "registry_ok s \<longleftrightarrow> store_ok (eb_network (fst s)) (eb_nodes (fst s)) (eb_heap (fst s)) \<and>
     (\<forall>t\<in>set (snd s). \<forall>i. thread_node t = Some i \<longrightarrow> i < length (eb_heap (fst s)))"

lemma store_ok_update:
  assumes "store_ok network nodes heap" and "n_Ident n = n_Ident (heap ! i)" and "n_Network n = n_Network (heap ! i)"
  shows "store_ok network nodes (heap[i := n])"
proof (cases "i < length heap")
  case True
  have "n' = n \<or> n' \<in> set heap" if "n' \<in> set (heap[i := n])" for n'
    using that set_update_subset_insert [of heap i n] by auto
  moreover have "n_Network n = network" using assms True by (simp add: store_ok_def)
  moreover have "n_Ident (heap[i := n] ! j) = n_Ident (heap ! j)" for j
    using assms(2) True by (cases "j = i") auto
  ultimately show ?thesis using assms by (auto simp: store_ok_def)
qed (use assms in \<open>simp add: list_update_beyond\<close>)

lemma store_ok_delete: "store_ok network nodes heap \<Longrightarrow> store_ok network (AList.delete ident nodes) heap"
  unfolding store_ok_def using distinct_delete [of nodes ident] by (auto simp: AList.delete_eq)

lemma store_ok_insert:
  assumes "store_ok network nodes heap" and "i < length heap" and "n_Ident (heap ! i) = ident"
  shows "store_ok network (AList.update ident i nodes) heap"
proof -
  have "(k, j) \<in> set (AList.update ident i nodes) \<Longrightarrow> (k, j) = (ident, i) \<or> (k, j) \<in> set nodes" for k j
    by (induction nodes) (auto split: if_splits)
  then show ?thesis using assms distinct_update [of nodes ident i] unfolding store_ok_def by fastforce
qed

lemma store_ok_append:
  "store_ok network nodes heap \<Longrightarrow> n_Network n = network \<Longrightarrow> store_ok network nodes (heap @ [n])"
  by (auto simp: store_ok_def nth_append intro: less_SucI)

lemma Disconnect_keeps [simp]: "n_Ident (Disconnect ops n) = n_Ident n" "n_Network (Disconnect ops n) = n_Network n"
  by (simp_all add: Disconnect_def)

lemma set_node_ok:
  assumes "store_ok network nodes (eb_heap b)" and "n_Ident n = n_Ident (eb_heap b ! i) \<and> n_Network n = n_Network (eb_heap b ! i)"
  shows "store_ok network nodes (eb_heap (set_node i n b))"
  using store_ok_update [OF assms(1)] assms(2) by (simp add: set_node_def)

lemma set_node_simps [simp]: "eb_network (set_node i n b) = eb_network b" "eb_nodes (set_node i n b) = eb_nodes b"
  "length (eb_heap (set_node i n b)) = length (eb_heap b)"
  by (simp_all add: set_node_def)

lemma removeNode_ok:
  assumes "store_ok (eb_network b) (eb_nodes b) (eb_heap b)"
  shows "store_ok (eb_network b) (eb_nodes (removeNode ops ident b)) (eb_heap (removeNode ops ident b))"
    "length (eb_heap (removeNode ops ident b)) = length (eb_heap b)" "eb_network (removeNode ops ident b) = eb_network b"
  using assms by (auto simp: removeNode_def intro!: store_ok_delete store_ok_update split: option.splits)

lemma step_registry:
  assumes "electrum_step ops dials s s'" and "registry_ok (fst s, [snd s])"
  shows "registry_ok (fst s', fst (snd s') # snd (snd s')) \<and> eb_network (fst s') = eb_network (fst s) \<and>
    length (eb_heap (fst s)) \<le> length (eb_heap (fst s'))"
  using assms
proof (induction rule: electrum_step.induct)
  case (ask b i ps n os)
  have "thread_node t = None" if "t \<in> set [EConnect a p. Some (a, p) \<leftarrow> os]" for t
    using that by (auto split: option.splits)
  then show ?case using ask set_node_ok [OF _ calls_keep(7) [OF ask(1)]] by (auto simp: registry_ok_def)
next
  case (requeue job b b')
  then show ?case
    by (auto simp: registry_ok_def requeue_def electrum_addr_send_def electrum_tx_send_def electrum_block_send_def
        split: job.splits if_splits)
next
  case (dialled tcp ssl addr port b n)
  then show ?case
    using dialled_node_is_checked [OF dialled(3)] by (auto simp: registry_ok_def intro: store_ok_append)
qed (auto simp: registry_ok_def blacklist_def removeNode_ok store_ok_insert dest: calls_keep intro!: set_node_ok)

lemma goroutines_registry:
  assumes "electrum_processRequests ops dials s s'" and "registry_ok s"
  shows "registry_ok s'"
  using assms
proof (induction rule: electrum_processRequests.induct)
  case (goroutine i ts b b' t new)
  have "registry_ok (fst (b, ts ! i), [snd (b, ts ! i)])" using goroutine(1,3) by (auto simp: registry_ok_def)
  from step_registry [OF goroutine(2) this] show ?case
    using goroutine(3) set_update_subset_insert [of ts i t] by (fastforce simp: registry_ok_def)
next
  case (rendezvous i ts j n b)
  have "set (ts[i := EReport, j := EPeers n]) \<subseteq> insert (EPeers n) (insert EReport (set ts))"
    using set_update_subset_insert [of "ts[i := EReport]" j "EPeers n"] set_update_subset_insert [of ts i EReport] by blast
  moreover have "n < length (eb_heap b)" using rendezvous(3,4,5) nth_mem [of j ts] by (force simp: registry_ok_def)
  ultimately show ?case using rendezvous(5) by (fastforce simp: registry_ok_def)
qed

text \<open>A step of the backend or of its client.\<close>

inductive electrum_use ::
    "'c conn_ops \<Rightarrow> (bool \<Rightarrow> string \<Rightarrow> 'c fallible \<Rightarrow> bool) \<Rightarrow> 'c electrum_backend \<times> thread list
      \<Rightarrow> 'c electrum_backend \<times> thread list \<Rightarrow> bool"
  for ops dials where
  use_work: "electrum_processRequests ops dials s s' \<Longrightarrow> electrum_use ops dials s s'"
| use_addr_request: "electrum_addr_send a b = Some b' \<Longrightarrow> electrum_use ops dials (b, ts) (b', ts)"
| use_addr_response: "electrum_addr_recv b = Some (r, b') \<Longrightarrow> electrum_use ops dials (b, ts) (b', ts)"
| use_tx_request: "electrum_tx_send h b = Some b' \<Longrightarrow> electrum_use ops dials (b, ts) (b', ts)"
| use_tx_response: "electrum_tx_recv b = Some (t, b') \<Longrightarrow> electrum_use ops dials (b, ts) (b', ts)"
| use_block_request: "electrum_block_send k b = Some b' \<Longrightarrow> electrum_use ops dials (b, ts) (b', ts)"
| use_block_response: "electrum_block_recv b = Some (r, b') \<Longrightarrow> electrum_use ops dials (b, ts) (b', ts)"
| use_finish: "electrum_use ops dials (b, ts) (electrum_Finish ops b, ts)"

lemma Finish_registry:
  assumes "store_ok network nodes heap"
  shows "store_ok network [] (fold (\<lambda>(_, i) h. h[i := Disconnect ops (h ! i)]) al heap)"
    "length (fold (\<lambda>(_, i) h. h[i := Disconnect ops (h ! i)]) al heap) = length heap"
proof -
  have e: "store_ok network [] heap" using assms by (simp add: store_ok_def)
  then have "store_ok network [] (fold (\<lambda>(_, i) h. h[i := Disconnect ops (h ! i)]) al heap) \<and>
    length (fold (\<lambda>(_, i) h. h[i := Disconnect ops (h ! i)]) al heap) = length heap"
    by (induction al arbitrary: heap) (auto simp: store_ok_update)
  then show "store_ok network [] (fold (\<lambda>(_, i) h. h[i := Disconnect ops (h ! i)]) al heap)"
    "length (fold (\<lambda>(_, i) h. h[i := Disconnect ops (h ! i)]) al heap) = length heap" by auto
qed

lemma use_registry:
  assumes "electrum_use ops dials s s'" and "registry_ok s"
  shows "registry_ok s'"
  using assms
proof (induction rule: electrum_use.induct)
  case (use_work s s')
  then show ?case by (rule goroutines_registry)
next
  case (use_finish b ts)
  then show ?case by (auto simp: registry_ok_def electrum_Finish_def removeAllNodes_def Finish_registry)
qed (auto simp: registry_ok_def electrum_addr_send_def electrum_addr_recv_def electrum_tx_send_def electrum_tx_recv_def
    electrum_block_send_def electrum_block_recv_def split: if_splits list.splits)

text \<open>
  C27: the nodes of the Electrum backend.  Whatever the goroutines and the client do, a failing server, a
  \<^verbatim>\<open>Finish\<close> or two goroutines that connect to the same server included, the map of nodes has each identifier
  once, the node it leads to carries that identifier, every node ever connected is on the backend's network,
  and every worker's node exists.
\<close>

theorem electrum_registry:
  assumes "NewElectrumBackend ops dial1 dial2 addr port network = Inr (Inr s)"
    and "(electrum_use ops dials)\<^sup>*\<^sup>* s (b, ts)"
  shows "distinct (map fst (eb_nodes b)) \<and>
    ((ident, i) \<in> set (eb_nodes b) \<longrightarrow> i < length (eb_heap b) \<and> n_Ident (eb_heap b ! i) = ident) \<and>
    (n \<in> set (eb_heap b) \<longrightarrow> n_Network n = eb_network b) \<and>
    (t \<in> set ts \<longrightarrow> thread_node t = Some j \<longrightarrow> j < length (eb_heap b))"
proof -
  have "registry_ok s"
    using NewElectrumBackend_Inr [OF assms(1)] dialled_node_is_checked [of ops "fst dial2" "snd dial2" addr port network]
    by (auto simp: registry_ok_def store_ok_def)
  with assms(2) have "registry_ok (b, ts)"
    by (induction rule: rtranclp_induct) (auto intro: use_registry)
  then show ?thesis unfolding registry_ok_def store_ok_def by (simp only: fst_conv snd_conv) blast
qed

inductive_simps drop_steps: "electrum_step ops dials (b, EDrop i job) s'"

inductive_simps ask_steps: "electrum_step ops dials (b, EAskPeers i) s'"

text \<open>
  A worker whose call fails ends, and for an address, a transaction or a block its node is removed; but
  when the request for peers fails the worker ends and its node stays in the map, where it goes on counting
  towards \<^verbatim>\<open>maxPeers\<close> and keeps its identifier from being connected again.
\<close>

theorem failed_peers_request_keeps_node:
  assumes "ServerPeersSubscribe ops (eb_heap b ! i) = (Inl err, n)"
  shows "electrum_step ops dials (b, EAskPeers i) s' \<longleftrightarrow> s' = (set_node i n b, EExited, [])"
    and "eb_nodes (set_node i n b) = eb_nodes b"
    and "electrum_step ops dials (b, EDrop i job) s' \<longleftrightarrow> s' = (removeNode ops (n_Ident (eb_heap b ! i)) b, ERequeue job, [])"
    and "map_of (eb_nodes (removeNode ops ident b)) ident = None"
  using assms by (auto simp: ask_steps drop_steps removeNode_def delete_conv' split: option.splits)

theorem failed_peers_request_keeps_node_witness:
  "\<exists>b. eb_nodes b = [(''h|t'', 0)] \<and> (\<exists>b'. electrum_step (scripted (\<lambda>_. answer 1 JNull)) (\<lambda>_ _ _. True) (b, EAskPeers 0) (b', EExited, []) \<and>
     eb_nodes b' = [(''h|t'', 0)])"
proof -
  let ?n = "\<lparr>n_Ident = ''h|t'', n_Network = Testnet, n_transport = None, n_nextId = 0\<rparr> :: (string list \<times> bool) node"
  obtain b :: "(string list \<times> bool) electrum_backend" where b: "eb_nodes b = [(''h|t'', 0)]" "eb_heap b = [?n]"
    by (rule that [of "\<lparr>eb_chainHeight = 7, eb_nodes = [(''h|t'', 0)], eb_blacklistedNodes = {}, eb_network = Testnet,
      eb_addrRequests = [], eb_addrResponses = [], eb_txRequests = [], eb_txResponses = [], eb_blockRequests = [],
      eb_blockResponses = [], eb_transactions = Map.empty, eb_doneCh = False, eb_heap = [?n], eb_reported = 0\<rparr>"]) simp_all
  have "ServerPeersSubscribe (scripted (\<lambda>_. answer 1 JNull)) (eb_heap b ! 0) = (Inl ErrNodeShutdown, ?n\<lparr>n_nextId := 1\<rparr>)"
    by (simp add: b ServerPeersSubscribe_def request_def SendMessage_def)
  from failed_peers_request_keeps_node(1,2) [OF this] b show ?thesis by metis
qed

section \<open>When no worker is left\<close>

text \<open>A pool without workers and without goroutines that are about to become one.\<close>

definition stuck :: "'c electrum_backend \<times> thread list \<Rightarrow> bool" where
  "stuck s \<longleftrightarrow> (\<forall>t\<in>set (snd s). t = EExited \<or> t = EFind)"

lemma stuck_stays:
  assumes "(electrum_processRequests ops dials)\<^sup>*\<^sup>* s s'" and "stuck s"
  shows "s' = s"
  using assms
proof (induction rule: rtranclp_induct)
  case (step s' s'')
  have no: "\<not> electrum_step ops dials (b, t) r" if "t = EExited \<or> t = EFind" for b t r
    using that by (auto elim: electrum_step.cases)
  have "\<not> electrum_processRequests ops dials s s''"
  proof
    assume "electrum_processRequests ops dials s s''"
    then show False
    proof cases
      case (goroutine i ts b b' t new)
      then show False using no step.prems nth_mem [of i ts] by (auto simp: stuck_def)
    next
      case (rendezvous i ts j n b)
      then show False using step.prems nth_mem [of j ts] by (auto simp: stuck_def)
    qed
  qed
  then show ?case using step by simp
qed simp


section \<open>What the client gets\<close>

text \<open>
  C24: nothing is lost and nothing is answered twice.  However often servers fail and requests are queued
  again, the answers received so far together with those still owed are the answers to the requests made,
  each exactly once.
\<close>

theorem electrum_answers_once:
  assumes "NewElectrumBackend ops dial1 dial2 addr port network = Inr (Inr s)" and "honest ops V"
    and "client_run (electrum_processRequests ops dials) el_addr_send el_addr_recv el_tx_send el_tx_recv s as rs hs ts s'"
  shows "image_mset (electrum_addr_answer V) (mset as) = mset rs + electrum_addr_owed V s' \<and>
    image_mset (electrum_tx_answer V) (mset hs) = mset ts + electrum_tx_owed V s'"
  using el.client_run_owed [OF assms(3) electrum_start_facts [OF assms(1,2)]] by simp

text \<open>
  C25: the cache of heights is never missed.  When the servers agree with each other, no worker ever panics
  while it answers the accounter: the height of a transaction is cached before the accounter can ask for
  the transaction, and no two histories disagree about it.
\<close>

theorem electrum_cache_never_missed:
  assumes "NewElectrumBackend ops dial1 dial2 addr port network = Inr (Inr b)" and "honest ops V"
    and "(electrum_program lib ops dials)\<^sup>*\<^sup>* (fetch_start a rep b) s"
  shows "ECrashed e (Some job) \<notin> set (snd (f_backend s))"
proof -
  have "all_cached b" using NewElectrumBackend_Inr [OF assms(1)] by (auto simp: all_cached_def)
  then have "fetch_cached ops V (fetch_start a rep b)"
    using electrum_start_facts(1) [OF assms(1,2)] by (simp add: fetch_cached_def fetch_start_def)
  from fetch_stays_cached [OF assms(3) this] show ?thesis
    by (fastforce simp: fetch_cached_def all_cached_def)
qed

end
