(* ===== verification/Btcd.thy ===== *)
theory Btcd
  imports Ideal
begin

text \<open>
  \<^verbatim>\<open>backend/btcd_backend.go\<close>: a pool of workers that answer requests from a btcd node.  The RPC client
  is a record of functions, the answers of the node.  A worker is a program counter with the local
  variables that are live there; the two caches are shared by all workers, and each critical section
  on a cache is a step of its own (\<^verbatim>\<open>getBlockHeight\<close> with its RPC is one step, for its cache only
  ever holds what the RPC answers).
\<close>

section \<open>Hashes\<close>

definition NewHashFromStr :: "string \<Rightarrow> u8 list fallible" where
  "NewHashFromStr hash =
     (if length hash > 2 * HashSize then Inl (Errorf ''max hash string length is %v bytes'' [Num (int (2 * HashSize))])
      else
        let srcBytes = (if even (length hash) then hash else CHR ''0'' # hash);
            (bs, ok) = hex_decode srcBytes
        in if ok then Inr (rev (replicate (HashSize - length bs) 0 @ bs))
           else Inl (Errorf ''encoding/hex: invalid byte'' []))"

lemma length_hex_encode [simp]: "length (hex_encode bs) = 2 * length bs"
  by (induction bs) auto

lemma NewHashFromStr_Hash_String: "length h = 32 \<Longrightarrow> NewHashFromStr (Hash_String h) = Inr h"
  by (simp add: NewHashFromStr_def Hash_String_def HashSize_def)

section \<open>The node\<close>

datatype rpc_error = RPCError int string | OtherError go_error

type_synonym 'a rpc = "rpc_error + 'a"

text \<open>What the program reads of a transaction in an answer.\<close>

record raw_tx =
  rt_Txid :: string
  rt_BlockHash :: string
  rt_Hex :: string

record btcd_client =
  GetBlockCount :: "u64 rpc"
  GetBlockHash :: "u64 \<Rightarrow> u8 list rpc"
  GetBlockHeader :: "u8 list \<Rightarrow> go_time rpc"
  GetBlockVerbose :: "u8 list \<Rightarrow> u64 rpc"  \<comment> \<open>the field \<^verbatim>\<open>Height\<close>\<close>
  GetRawTransactionVerbose :: "u8 list \<Rightarrow> raw_tx rpc"
  SearchRawTransactionsVerbose :: "btc_address \<Rightarrow> nat \<Rightarrow> nat \<Rightarrow> raw_tx list rpc"

definition ErrRPCInvalidAddressOrKey :: int where
  "ErrRPCInvalidAddressOrKey = -5"

fun rpc_as_error :: "rpc_error \<Rightarrow> go_error" where
  "rpc_as_error (RPCError code msg) = Errorf ''%d: %s'' [Num code, Str msg]"
| "rpc_as_error (OtherError e) = e"

fun unknown_key :: "rpc_error \<Rightarrow> bool" where
  "unknown_key (RPCError code msg) \<longleftrightarrow> code = ErrRPCInvalidAddressOrKey"
| "unknown_key (OtherError e) \<longleftrightarrow> False"

section \<open>State\<close>

definition maxTxsPerAddr :: nat where "maxTxsPerAddr = 1000"
definition addrRequestsChanSize :: nat where "addrRequestsChanSize = 100"
definition blockRequestChanSize :: nat where "blockRequestChanSize = 100"
definition concurrency :: nat where "concurrency = 100"

record btcd_backend =
  bb_chainHeight :: u32
  bb_network :: network
  bb_blockHeightLookup :: "string \<rightharpoonup> u64"
  bb_addrRequests :: "Address list"
  bb_addrResponses :: "AddrResponse list"
  bb_txRequests :: "string list"
  bb_txResponses :: "TxResponse list"
  bb_blockRequests :: "u32 list"
  bb_blockResponses :: "BlockResponse list"
  bb_cachedTransactions :: "string \<rightharpoonup> TxResponse"
  bb_doneCh :: bool

text \<open>\<^verbatim>\<open>NewBtcdBackend\<close>; \<^verbatim>\<open>rpc_New\<close> is the outcome of creating the client.\<close>

definition NewBtcdBackend ::
    "(string \<Rightarrow> string \<Rightarrow> string \<Rightarrow> btcd_client fallible) \<Rightarrow> string \<Rightarrow> string \<Rightarrow> string \<Rightarrow> string \<Rightarrow> network
      \<Rightarrow> (btcd_client \<times> btcd_backend) fallible result" where
  "NewBtcdBackend rpc_New host port user pass network =
     (case rpc_New (host @ '':'' @ port) user pass of
        Inl err \<Rightarrow> Inr (Inl (Wrapf err ''could not create a Btcd RPC client'' []))
      | Inr client \<Rightarrow>
     (case GetBlockHash client 0 of
        Inl err \<Rightarrow> Inr (Inl (Wrapf (rpc_as_error err) ''GetBlockHash(0) failed'' []))
      | Inr genesis \<Rightarrow>
          sbind (GenesisBlock network) (\<lambda>expected.
          if Hash_String genesis \<noteq> expected then
            Inr (Inl (Errorf ''Unexpected genesis block %s != %s'' [Str (Hash_String genesis), Str expected]))
          else (case GetBlockCount client of
              Inl err \<Rightarrow> Inr (Inl (Wrapf (rpc_as_error err) ''could not connect to the Btcd server'' []))
            | Inr height \<Rightarrow> Inr (Inr (client,
                \<lparr>bb_chainHeight = ucast height, bb_network = network, bb_blockHeightLookup = Map.empty,
                 bb_addrRequests = [], bb_addrResponses = [], bb_txRequests = [], bb_txResponses = [],
                 bb_blockRequests = [], bb_blockResponses = [], bb_cachedTransactions = Map.empty,
                 bb_doneCh = False\<rparr>))))))"

definition btcd_addr_send :: "Address \<Rightarrow> btcd_backend \<Rightarrow> btcd_backend option" where
  "btcd_addr_send addr b =
     (if length (bb_addrRequests b) < addrRequestsChanSize
      then Some (b\<lparr>bb_addrRequests := bb_addrRequests b @ [addr]\<rparr>) else None)"

definition btcd_tx_send :: "string \<Rightarrow> btcd_backend \<Rightarrow> btcd_backend option" where
  "btcd_tx_send txHash b =
     (if length (bb_txRequests b) < 2 * maxTxsPerAddr
      then Some (b\<lparr>bb_txRequests := bb_txRequests b @ [txHash]\<rparr>) else None)"

definition btcd_block_send :: "u32 \<Rightarrow> btcd_backend \<Rightarrow> btcd_backend option" where
  "btcd_block_send height b =
     (if length (bb_blockRequests b) < 2 * blockRequestChanSize
      then Some (b\<lparr>bb_blockRequests := bb_blockRequests b @ [height]\<rparr>) else None)"

definition btcd_addr_recv :: "btcd_backend \<Rightarrow> (AddrResponse \<times> btcd_backend) option" where
  "btcd_addr_recv b =
     (case bb_addrResponses b of [] \<Rightarrow> None | r # rs \<Rightarrow> Some (r, b\<lparr>bb_addrResponses := rs\<rparr>))"

definition btcd_tx_recv :: "btcd_backend \<Rightarrow> (TxResponse \<times> btcd_backend) option" where
  "btcd_tx_recv b =
     (case bb_txResponses b of [] \<Rightarrow> None | r # rs \<Rightarrow> Some (r, b\<lparr>bb_txResponses := rs\<rparr>))"

definition btcd_block_recv :: "btcd_backend \<Rightarrow> (BlockResponse \<times> btcd_backend) option" where
  "btcd_block_recv b =
     (case bb_blockResponses b of [] \<Rightarrow> None | r # rs \<Rightarrow> Some (r, b\<lparr>bb_blockResponses := rs\<rparr>))"

definition btcd_Finish :: "btcd_backend \<Rightarrow> btcd_backend" where
  "btcd_Finish b = b\<lparr>bb_doneCh := True\<rparr>"

definition btcd_ChainHeight :: "btcd_backend \<Rightarrow> u32" where
  "btcd_ChainHeight b = bb_chainHeight b"

section \<open>The handlers\<close>

definition getBlockHeight :: "btcd_client \<Rightarrow> string \<Rightarrow> (string \<rightharpoonup> u64) \<Rightarrow> (u64 \<times> (string \<rightharpoonup> u64)) fallible" where
  "getBlockHeight client hash lookup =
     (case lookup hash of
        Some height \<Rightarrow> Inr (height, lookup)
      | None \<Rightarrow>
          sbind (NewHashFromStr hash) (\<lambda>h.
          case GetBlockVerbose client h of
            Inl err \<Rightarrow>
              if unknown_key err then Inl (Wrapf (rpc_as_error err) (''blockchain doesn't have block '' @ hash) [])
              else Inl (Wrapf (rpc_as_error err) (''could not fetch block '' @ hash) [])
          | Inr height \<Rightarrow> Inr (height, lookup(hash \<mapsto> height))))"

text \<open>
  \<^verbatim>\<open>processAddrRequest\<close> up to the call of \<^verbatim>\<open>cacheTxs\<close>: \<open>None\<close> when the node does not know the address.
\<close>

definition searchAddr ::
    "('k, 'p) btc_lib \<Rightarrow> btcd_client \<Rightarrow> Address \<Rightarrow> raw_tx list option fallible result" where
  "searchAddr lib client address =
     sbind (Address_Script lib address) (\<lambda>addr.
     sbind (Address_Address lib address) (\<lambda>a.
     Inr (case SearchRawTransactionsVerbose client a 0 (maxTxsPerAddr + 1) of
            Inl err \<Rightarrow>
              if unknown_key err then Inr None
              else Inl (Wrapf (rpc_as_error err) (''could not fetch transactions for '' @ addr) [])
          | Inr txs \<Rightarrow>
              if length txs > maxTxsPerAddr then
                Inl (Errorf ''address %s has more than max allowed transactions of %d''
                  [Str addr, Num (int maxTxsPerAddr)])
              else Inr (Some txs))))"

text \<open>\<^verbatim>\<open>processTxRequest\<close> for a transaction that is not cached.\<close>

definition fetchTx :: "btcd_client \<Rightarrow> string \<Rightarrow> (string \<rightharpoonup> u64) \<Rightarrow> (TxResponse \<times> (string \<rightharpoonup> u64)) fallible" where
  "fetchTx client txHash lookup =
     sbind (NewHashFromStr txHash) (\<lambda>hash.
     case GetRawTransactionVerbose client hash of
       Inl err \<Rightarrow>
         if unknown_key err then Inl (Wrapf (rpc_as_error err) (''blockchain doesn't have transaction '' @ txHash) [])
         else Inl (Wrapf (rpc_as_error err) (''could not fetch transaction '' @ txHash) [])
     | Inr txResp \<Rightarrow>
         sbind (getBlockHeight client (rt_BlockHash txResp) lookup) (\<lambda>(height, lookup).
         Inr (\<lparr>tr_Hash = txHash, tr_Height = height, tr_Hex = rt_Hex txResp\<rparr>, lookup)))"

definition block_error :: "rpc_error \<Rightarrow> u32 \<Rightarrow> go_error" where
  "block_error err height =
     (if unknown_key err then Wrapf (rpc_as_error err) ''blockchain doesn't have block %d'' [Num (uint height)]
      else Wrapf (rpc_as_error err) ''could not fetch block %d'' [Num (uint height)])"

definition btcd_processBlockRequest :: "btcd_client \<Rightarrow> u32 \<Rightarrow> BlockResponse fallible" where
  "btcd_processBlockRequest client height =
     (case GetBlockHash client (ucast height) of
        Inl err \<Rightarrow> Inl (block_error err height)
      | Inr hash \<Rightarrow>
          (case GetBlockHeader client hash of
             Inl err \<Rightarrow> Inl (block_error err height)
           | Inr timestamp \<Rightarrow> Inr \<lparr>br_Height = height, br_Timestamp = timestamp\<rparr>))"

section \<open>The workers\<close>

datatype btcd_worker =
    BIdle
  | BAddr Address                               \<comment> \<open>in \<^verbatim>\<open>processAddrRequest\<close>\<close>
  | BCaching Address "string list" "raw_tx list"  \<comment> \<open>at the head of the loop of \<^verbatim>\<open>cacheTxs\<close>\<close>
  | BHeight Address "string list" raw_tx "raw_tx list"  \<comment> \<open>the transaction is not cached\<close>
  | BStore Address "string list" TxResponse "raw_tx list"
  | BSendAddr AddrResponse
  | BTx string                                  \<comment> \<open>in \<^verbatim>\<open>processTxRequest\<close>\<close>
  | BFetchTx string
  | BSendTx TxResponse
  | BBlock u32
  | BSendBlock BlockResponse
  | BCrashed fault job

fun after_search :: "Address \<Rightarrow> raw_tx list option fallible result \<Rightarrow> btcd_worker" where
  "after_search a (Inl e) = BCrashed e (JAddr a)"
| "after_search a (Inr (Inl err)) = BCrashed (PanicErr (Wrapf err ''processAddrRequest failed: %+v'' [])) (JAddr a)"
| "after_search a (Inr (Inr None)) = BSendAddr \<lparr>ar_Address = a, ar_TxHashes = []\<rparr>"
| "after_search a (Inr (Inr (Some txs))) = BCaching a (map rt_Txid txs) txs"

text \<open>
  The step of one worker.  A cached transaction ends \<^verbatim>\<open>cacheTxs\<close> (its loop returns instead of going
  on), and the closed \<^verbatim>\<open>doneCh\<close> only ends the \<^verbatim>\<open>select\<close>, so the worker is idle again.
\<close>

inductive btcd_worker_step ::
    "('k, 'p) btc_lib \<Rightarrow> btcd_client \<Rightarrow> btcd_backend \<times> btcd_worker \<Rightarrow> btcd_backend \<times> btcd_worker \<Rightarrow> bool"
  for lib client where
  take_addr: "bb_addrRequests b = a # q \<Longrightarrow>
     btcd_worker_step lib client (b, BIdle) (b\<lparr>bb_addrRequests := q\<rparr>, BAddr a)"
| take_tx: "bb_txRequests b = h # q \<Longrightarrow>
     btcd_worker_step lib client (b, BIdle) (b\<lparr>bb_txRequests := q\<rparr>, BTx h)"
| take_block: "bb_blockRequests b = k # q \<Longrightarrow>
     btcd_worker_step lib client (b, BIdle) (b\<lparr>bb_blockRequests := q\<rparr>, BBlock k)"
| finished: "bb_doneCh b \<Longrightarrow> btcd_worker_step lib client (b, BIdle) (b, BIdle)"
| search: "btcd_worker_step lib client (b, BAddr a) (b, after_search a (searchAddr lib client a))"
| cached: "bb_cachedTransactions b (rt_Txid tx) \<noteq> None \<Longrightarrow>
     btcd_worker_step lib client (b, BCaching a hs (tx # txs)) (b, BSendAddr \<lparr>ar_Address = a, ar_TxHashes = hs\<rparr>)"
| not_cached: "bb_cachedTransactions b (rt_Txid tx) = None \<Longrightarrow>
     btcd_worker_step lib client (b, BCaching a hs (tx # txs)) (b, BHeight a hs tx txs)"
| height: "getBlockHeight client (rt_BlockHash tx) (bb_blockHeightLookup b) = Inr (height, lookup) \<Longrightarrow>
     btcd_worker_step lib client (b, BHeight a hs tx txs)
       (b\<lparr>bb_blockHeightLookup := lookup\<rparr>,
        BStore a hs \<lparr>tr_Hash = rt_Txid tx, tr_Height = height, tr_Hex = rt_Hex tx\<rparr> txs)"
| no_height: "getBlockHeight client (rt_BlockHash tx) (bb_blockHeightLookup b) = Inl err \<Longrightarrow>
     btcd_worker_step lib client (b, BHeight a hs tx txs)
       (b, BCrashed (PanicErr (Wrapf err ''error getting block height for hash %s: %s'' [Str (rt_BlockHash tx)])) (JAddr a))"
| store: "btcd_worker_step lib client (b, BStore a hs t txs)
     (b\<lparr>bb_cachedTransactions := (bb_cachedTransactions b)(tr_Hash t \<mapsto> t)\<rparr>, BCaching a hs txs)"
| all_cached: "btcd_worker_step lib client (b, BCaching a hs []) (b, BSendAddr \<lparr>ar_Address = a, ar_TxHashes = hs\<rparr>)"
| send_addr: "length (bb_addrResponses b) < addrRequestsChanSize \<Longrightarrow>
     btcd_worker_step lib client (b, BSendAddr r) (b\<lparr>bb_addrResponses := bb_addrResponses b @ [r]\<rparr>, BIdle)"
| cached_tx: "bb_cachedTransactions b h = Some t \<Longrightarrow>
     btcd_worker_step lib client (b, BTx h) (b, BSendTx t)"
| not_cached_tx: "bb_cachedTransactions b h = None \<Longrightarrow>
     btcd_worker_step lib client (b, BTx h) (b, BFetchTx h)"
| fetch_tx: "fetchTx client h (bb_blockHeightLookup b) = Inr (t, lookup) \<Longrightarrow>
     btcd_worker_step lib client (b, BFetchTx h) (b\<lparr>bb_blockHeightLookup := lookup\<rparr>, BSendTx t)"
| no_tx: "fetchTx client h (bb_blockHeightLookup b) = Inl err \<Longrightarrow>
     btcd_worker_step lib client (b, BFetchTx h)
       (b, BCrashed (PanicErr (Wrapf err ''processTxRequest failed: %+v'' [])) (JTx h))"
| send_tx: "length (bb_txResponses b) < 2 * maxTxsPerAddr \<Longrightarrow>
     btcd_worker_step lib client (b, BSendTx t) (b\<lparr>bb_txResponses := bb_txResponses b @ [t]\<rparr>, BIdle)"
| fetch_block: "btcd_processBlockRequest client k = Inr r \<Longrightarrow>
     btcd_worker_step lib client (b, BBlock k) (b, BSendBlock r)"
| no_block: "btcd_processBlockRequest client k = Inl err \<Longrightarrow>
     btcd_worker_step lib client (b, BBlock k)
       (b, BCrashed (PanicErr (Wrapf err ''processBlockRequest failed: %+v'' [])) (JBlock k))"
| send_block: "length (bb_blockResponses b) < 2 * blockRequestChanSize \<Longrightarrow>
     btcd_worker_step lib client (b, BSendBlock r) (b\<lparr>bb_blockResponses := bb_blockResponses b @ [r]\<rparr>, BIdle)"

text \<open>The pool: one of the workers makes a step.\<close>

inductive btcd_processRequests ::
    "('k, 'p) btc_lib \<Rightarrow> btcd_client \<Rightarrow> btcd_backend \<times> btcd_worker list \<Rightarrow> btcd_backend \<times> btcd_worker list \<Rightarrow> bool"
  for lib client where
  worker: "i < length ws \<Longrightarrow> btcd_worker_step lib client (b, ws ! i) (b', w) \<Longrightarrow>
     btcd_processRequests lib client (b, ws) (b', ws[i := w])"

definition btcd_started :: "btcd_backend \<Rightarrow> btcd_backend \<times> btcd_worker list" where
  "btcd_started b = (b, replicate concurrency BIdle)"

section \<open>What the answers are\<close>

text \<open>The height of a block, a transaction and the history of an address as the node knows them.\<close>

definition height_at :: "btcd_client \<Rightarrow> string \<Rightarrow> u64 option" where
  "height_at client hash = Option.bind (case NewHashFromStr hash of Inl _ \<Rightarrow> None | Inr h \<Rightarrow> Some h)
     (\<lambda>h. case GetBlockVerbose client h of Inl _ \<Rightarrow> None | Inr height \<Rightarrow> Some height)"

definition tx_response :: "btcd_client \<Rightarrow> string \<Rightarrow> raw_tx \<Rightarrow> TxResponse option" where
  "tx_response client h tx =
     map_option (\<lambda>height. \<lparr>tr_Hash = h, tr_Height = height, tr_Hex = rt_Hex tx\<rparr>) (height_at client (rt_BlockHash tx))"

definition node_tx :: "btcd_client \<Rightarrow> string \<Rightarrow> raw_tx option" where
  "node_tx client h = Option.bind (case NewHashFromStr h of Inl _ \<Rightarrow> None | Inr hash \<Rightarrow> Some hash)
     (\<lambda>hash. case GetRawTransactionVerbose client hash of Inl _ \<Rightarrow> None | Inr tx \<Rightarrow> Some tx)"

definition btcd_tx_answer :: "btcd_client \<Rightarrow> string \<Rightarrow> TxResponse option" where
  "btcd_tx_answer client h = Option.bind (node_tx client h) (tx_response client h)"

definition btcd_addr_answer :: "('k, 'p) btc_lib \<Rightarrow> btcd_client \<Rightarrow> Address \<Rightarrow> AddrResponse" where
  "btcd_addr_answer lib client a = \<lparr>ar_Address = a, ar_TxHashes =
     (case searchAddr lib client a of Inr (Inr (Some txs)) \<Rightarrow> map rt_Txid txs | _ \<Rightarrow> [])\<rparr>"

text \<open>
  The documented behaviour the backend relies on: the transactions of an address history are the ones
  the node returns by their identifiers.
\<close>

definition node_ok :: "('k, 'p) btc_lib \<Rightarrow> btcd_client \<Rightarrow> bool" where
  "node_ok lib client \<longleftrightarrow>
     (\<forall>a txs tx. searchAddr lib client a = Inr (Inr (Some txs)) \<longrightarrow> tx \<in> set txs \<longrightarrow>
        node_tx client (rt_Txid tx) = Some tx)"

definition lookup_ok :: "btcd_client \<Rightarrow> (string \<rightharpoonup> u64) \<Rightarrow> bool" where
  "lookup_ok client lookup \<longleftrightarrow> (\<forall>k v. lookup k = Some v \<longrightarrow> height_at client k = Some v)"

lemma getBlockHeight_cases:
  assumes "getBlockHeight client hash lookup = Inr (height, lookup')"
  shows "lookup hash = Some height \<and> lookup' = lookup \<or>
    height_at client hash = Some height \<and> lookup' = lookup(hash \<mapsto> height)"
proof (cases "lookup hash")
  case None
  then obtain h where h: "NewHashFromStr hash = Inr h"
    using assms by (cases "NewHashFromStr hash") (simp_all add: getBlockHeight_def)
  then show ?thesis
    using assms None by (cases "GetBlockVerbose client h") (auto simp: getBlockHeight_def height_at_def split: if_splits)
next
  case (Some v)
  then show ?thesis using assms by (simp add: getBlockHeight_def)
qed

lemma getBlockHeight_Inr:
  assumes "getBlockHeight client hash lookup = Inr (height, lookup')" and "lookup_ok client lookup"
  shows "height_at client hash = Some height" "lookup_ok client lookup'"
  using getBlockHeight_cases [OF assms(1)] assms(2) by (auto simp: lookup_ok_def split: if_splits)

lemma fetchTx_Inr:
  assumes "fetchTx client h lookup = Inr (t, lookup')" and "lookup_ok client lookup"
  shows "btcd_tx_answer client h = Some t" "lookup_ok client lookup'"
proof -
  obtain hash where hash: "NewHashFromStr h = Inr hash"
    using assms(1) by (cases "NewHashFromStr h") (simp_all add: fetchTx_def)
  obtain tx where tx: "GetRawTransactionVerbose client hash = Inr tx"
    using assms(1) by (cases "GetRawTransactionVerbose client hash") (simp_all add: fetchTx_def hash split: if_splits)
  obtain height where height: "getBlockHeight client (rt_BlockHash tx) lookup = Inr (height, lookup')"
    and t: "t = \<lparr>tr_Hash = h, tr_Height = height, tr_Hex = rt_Hex tx\<rparr>"
    using assms(1) by (auto simp: fetchTx_def hash tx sbind_Inr_iff)
  show "btcd_tx_answer client h = Some t" "lookup_ok client lookup'"
    using getBlockHeight_Inr [OF height assms(2)]
    by (simp_all add: btcd_tx_answer_def node_tx_def tx_response_def hash tx t)
qed

fun worker_ok :: "('k, 'p) btc_lib \<Rightarrow> btcd_client \<Rightarrow> btcd_worker \<Rightarrow> bool" where
  "worker_ok lib client (BCaching a hs txs) \<longleftrightarrow> btcd_addr_answer lib client a = \<lparr>ar_Address = a, ar_TxHashes = hs\<rparr> \<and>
     (\<forall>tx\<in>set txs. node_tx client (rt_Txid tx) = Some tx)"
| "worker_ok lib client (BHeight a hs tx txs) \<longleftrightarrow> btcd_addr_answer lib client a = \<lparr>ar_Address = a, ar_TxHashes = hs\<rparr> \<and>
     (\<forall>tx\<in>set (tx # txs). node_tx client (rt_Txid tx) = Some tx)"
| "worker_ok lib client (BStore a hs t txs) \<longleftrightarrow> btcd_addr_answer lib client a = \<lparr>ar_Address = a, ar_TxHashes = hs\<rparr> \<and>
     btcd_tx_answer client (tr_Hash t) = Some t \<and> (\<forall>tx\<in>set txs. node_tx client (rt_Txid tx) = Some tx)"
| "worker_ok lib client _ \<longleftrightarrow> True"

definition btcd_inv :: "('k, 'p) btc_lib \<Rightarrow> btcd_client \<Rightarrow> btcd_backend \<times> btcd_worker list \<Rightarrow> bool" where
  "btcd_inv lib client s \<longleftrightarrow> node_ok lib client \<and> lookup_ok client (bb_blockHeightLookup (fst s)) \<and>
     (\<forall>h t. bb_cachedTransactions (fst s) h = Some t \<longrightarrow> btcd_tx_answer client h = Some t) \<and>
     (\<forall>w\<in>set (snd s). worker_ok lib client w)"

fun owed_tx :: "btcd_client \<Rightarrow> string \<Rightarrow> TxResponse multiset" where
  "owed_tx client h = (case btcd_tx_answer client h of None \<Rightarrow> {#} | Some t \<Rightarrow> {#t#})"

text \<open>A crashed worker still owes the answer it was preparing.\<close>

fun worker_addr_owed :: "('k, 'p) btc_lib \<Rightarrow> btcd_client \<Rightarrow> btcd_worker \<Rightarrow> AddrResponse multiset" where
  "worker_addr_owed lib client (BAddr a) = {#btcd_addr_answer lib client a#}"
| "worker_addr_owed lib client (BCaching a hs txs) = {#btcd_addr_answer lib client a#}"
| "worker_addr_owed lib client (BHeight a hs tx txs) = {#btcd_addr_answer lib client a#}"
| "worker_addr_owed lib client (BStore a hs t txs) = {#btcd_addr_answer lib client a#}"
| "worker_addr_owed lib client (BSendAddr r) = {#r#}"
| "worker_addr_owed lib client (BCrashed e (JAddr a)) = {#btcd_addr_answer lib client a#}"
| "worker_addr_owed lib client _ = {#}"

fun worker_tx_owed :: "btcd_client \<Rightarrow> btcd_worker \<Rightarrow> TxResponse multiset" where
  "worker_tx_owed client (BTx h) = owed_tx client h"
| "worker_tx_owed client (BFetchTx h) = owed_tx client h"
| "worker_tx_owed client (BSendTx t) = {#t#}"
| "worker_tx_owed client (BCrashed e (JTx h)) = owed_tx client h"
| "worker_tx_owed client _ = {#}"

definition btcd_addr_owed :: "('k, 'p) btc_lib \<Rightarrow> btcd_client \<Rightarrow> btcd_backend \<times> btcd_worker list \<Rightarrow> AddrResponse multiset" where
  "btcd_addr_owed lib client s = image_mset (btcd_addr_answer lib client) (mset (bb_addrRequests (fst s)))
     + (\<Sum>w\<in>#mset (snd s). worker_addr_owed lib client w) + mset (bb_addrResponses (fst s))"

definition btcd_tx_owed :: "btcd_client \<Rightarrow> btcd_backend \<times> btcd_worker list \<Rightarrow> TxResponse multiset" where
  "btcd_tx_owed client s = (\<Sum>h\<in>#mset (bb_txRequests (fst s)). owed_tx client h)
     + (\<Sum>w\<in>#mset (snd s). worker_tx_owed client w) + mset (bb_txResponses (fst s))"

lemma after_search_ok:
  assumes "node_ok lib client"
  shows "worker_ok lib client (after_search a (searchAddr lib client a))"
    "worker_addr_owed lib client (after_search a (searchAddr lib client a)) = {#btcd_addr_answer lib client a#}"
    "worker_tx_owed client (after_search a (searchAddr lib client a)) = {#}"
  using assms
  by (cases "(a, searchAddr lib client a)" rule: after_search.cases;
      force simp: node_ok_def btcd_addr_answer_def)+

lemma worker_step_inv:
  assumes "btcd_worker_step lib client s s'" and "btcd_inv lib client (fst s, [snd s])"
  shows "btcd_inv lib client (fst s', [snd s'])"
  using assms
proof (induction rule: btcd_worker_step.induct)
  case (search b a)
  then show ?case using after_search_ok by (auto simp: btcd_inv_def)
next
  case (height tx b height lookup a hs txs)
  then show ?case using getBlockHeight_Inr [OF height(1)]
    by (auto simp: btcd_inv_def btcd_tx_answer_def tx_response_def)
next
  case (fetch_tx h b t lookup)
  then show ?case using fetchTx_Inr [OF fetch_tx(1)] by (auto simp: btcd_inv_def)
qed (auto simp: btcd_inv_def)

lemma worker_step_owed:
  assumes "btcd_worker_step lib client s s'" and "btcd_inv lib client (fst s, [snd s])"
  shows "btcd_addr_owed lib client (fst s', [snd s']) = btcd_addr_owed lib client (fst s, [snd s])"
    "btcd_tx_owed client (fst s', [snd s']) = btcd_tx_owed client (fst s, [snd s])"
  using assms
proof (induction rule: btcd_worker_step.induct)
  case (search b a)
  { case 1 then show ?case using after_search_ok by (auto simp: btcd_inv_def btcd_addr_owed_def) }
  { case 2 then show ?case using after_search_ok by (auto simp: btcd_inv_def btcd_tx_owed_def) }
next
  case (fetch_tx h b t lookup)
  { case 1 then show ?case by (auto simp: btcd_addr_owed_def) }
  { case 2 then show ?case using fetchTx_Inr [OF fetch_tx(1)] by (auto simp: btcd_inv_def btcd_tx_owed_def) }
qed (auto simp: btcd_inv_def btcd_addr_owed_def btcd_tx_owed_def)


text \<open>From one worker to the pool.\<close>

lemma pool_owed:
  assumes "i < length ws"
  shows "btcd_addr_owed lib client (b, ws) = btcd_addr_owed lib client (b, [ws ! i])
      + (\<Sum>v\<in>#mset ws - {#ws ! i#}. worker_addr_owed lib client v)"
    "btcd_tx_owed client (b, ws) = btcd_tx_owed client (b, [ws ! i])
      + (\<Sum>v\<in>#mset ws - {#ws ! i#}. worker_tx_owed client v)"
  using assms by (simp_all add: btcd_addr_owed_def btcd_tx_owed_def sum_mset_pick [of "ws ! i" "mset ws"])

lemma pool_step:
  assumes "btcd_processRequests lib client s s'" and "btcd_inv lib client s"
  shows "btcd_inv lib client s'" "btcd_addr_owed lib client s' = btcd_addr_owed lib client s"
    "btcd_tx_owed client s' = btcd_tx_owed client s"
  using assms
proof (induction rule: btcd_processRequests.induct)
  case (worker i ws b b' w)
  have others: "mset (ws[i := w]) - {#ws[i := w] ! i#} = mset ws - {#ws ! i#}"
    using worker(1) by (simp add: mset_update)
  { case 1
    then have "btcd_inv lib client (b, [ws ! i])" using worker(1) by (auto simp: btcd_inv_def)
    then have "btcd_inv lib client (b', [w])" using worker_step_inv [OF worker(2)] by simp
    then show ?case using 1 set_update_subset_insert [of ws i w] by (fastforce simp: btcd_inv_def) }
  { case 2
    then have "btcd_inv lib client (b, [ws ! i])" using worker(1) by (auto simp: btcd_inv_def)
    then show ?case
      using worker_step_owed(1) [OF worker(2)] worker(1) others
        pool_owed(1) [of i ws lib client b] pool_owed(1) [of i "ws[i := w]" lib client b'] by simp }
  { case 3
    then have "btcd_inv lib client (b, [ws ! i])" using worker(1) by (auto simp: btcd_inv_def)
    then show ?case
      using worker_step_owed(2) [OF worker(2)] worker(1) others
        pool_owed(2) [of i ws client b] pool_owed(2) [of i "ws[i := w]" client b'] by simp }
qed

abbreviation bd_addr_send :: "Address \<Rightarrow> btcd_backend \<times> btcd_worker list \<Rightarrow> btcd_backend \<times> btcd_worker list \<Rightarrow> bool" where
  "bd_addr_send a s s' \<equiv> btcd_addr_send a (fst s) = Some (fst s') \<and> snd s' = snd s"

abbreviation bd_addr_recv :: "btcd_backend \<times> btcd_worker list \<Rightarrow> AddrResponse \<Rightarrow> btcd_backend \<times> btcd_worker list \<Rightarrow> bool" where
  "bd_addr_recv s r s' \<equiv> btcd_addr_recv (fst s) = Some (r, fst s') \<and> snd s' = snd s"

abbreviation bd_tx_send :: "string \<Rightarrow> btcd_backend \<times> btcd_worker list \<Rightarrow> btcd_backend \<times> btcd_worker list \<Rightarrow> bool" where
  "bd_tx_send h s s' \<equiv> btcd_tx_send h (fst s) = Some (fst s') \<and> snd s' = snd s"

abbreviation bd_tx_recv :: "btcd_backend \<times> btcd_worker list \<Rightarrow> TxResponse \<Rightarrow> btcd_backend \<times> btcd_worker list \<Rightarrow> bool" where
  "bd_tx_recv s t s' \<equiv> btcd_tx_recv (fst s) = Some (t, fst s') \<and> snd s' = snd s"

interpretation bd: backend_contract "btcd_processRequests lib client" bd_addr_send bd_addr_recv bd_tx_send bd_tx_recv
    "btcd_addr_owed lib client" "btcd_tx_owed client" "btcd_addr_answer lib client" "btcd_tx_answer client"
    "btcd_inv lib client"
  for lib client
proof (unfold_locales, goal_cases)
  case (1 b b')
  then show ?case by (simp add: pool_step [OF 1(2,1)])
next
  case (2 b a b')
  then show ?case
    by (auto simp: btcd_addr_send_def btcd_inv_def btcd_addr_owed_def btcd_tx_owed_def split: if_splits dest!: sym [of _ "fst b'"])
next
  case (3 b r b')
  then show ?case
    by (auto simp: btcd_addr_recv_def btcd_inv_def btcd_addr_owed_def btcd_tx_owed_def split: list.splits dest!: sym [of _ "fst b'"])
next
  case (4 b h b')
  then show ?case
    by (auto simp: btcd_tx_send_def btcd_inv_def btcd_addr_owed_def btcd_tx_owed_def split: if_splits option.splits dest!: sym [of _ "fst b'"])
next
  case (5 b t b')
  then show ?case
    by (auto simp: btcd_tx_recv_def btcd_inv_def btcd_addr_owed_def btcd_tx_owed_def split: list.splits dest!: sym [of _ "fst b'"])
next
  case (6 h t)
  then show ?case by (auto simp: btcd_tx_answer_def tx_response_def bind_eq_Some_conv)
qed

lemma btcd_start_facts:
  assumes "NewBtcdBackend rpc_New host port user pass network = Inr (Inr (client, b))" and "node_ok lib client"
  shows "btcd_inv lib client (btcd_started b)" "btcd_addr_owed lib client (btcd_started b) = {#}"
    "btcd_tx_owed client (btcd_started b) = {#}"
proof -
  have "bb_blockHeightLookup b = Map.empty" "bb_cachedTransactions b = Map.empty" "bb_addrRequests b = []"
    "bb_addrResponses b = []" "bb_txRequests b = []" "bb_txResponses b = []"
    using assms(1) by (auto simp: NewBtcdBackend_def sbind_Inr_iff split: sum.splits if_splits)
  then show "btcd_inv lib client (btcd_started b)" "btcd_addr_owed lib client (btcd_started b) = {#}"
    "btcd_tx_owed client (btcd_started b) = {#}"
    using assms(2)
    by (simp_all add: btcd_inv_def lookup_ok_def btcd_started_def btcd_addr_owed_def btcd_tx_owed_def concurrency_def)
qed

section \<open>Properties\<close>

text \<open>
  The text of a hash reads back as the hash, and whatever text is accepted gives 32 bytes.
\<close>

theorem hash_text_roundtrip:
  "(length h = 32 \<longrightarrow> NewHashFromStr (Hash_String h) = Inr h) \<and>
   (NewHashFromStr s = Inr h' \<longrightarrow> length h' = 32)"
proof -
  have "2 * length bs \<le> length cs" if "hex_decode cs = (bs, ok)" for cs bs ok
    using that by (induction cs arbitrary: bs ok rule: hex_decode.induct) (auto split: option.splits prod.splits)
  from this [of s] this [of "CHR ''0'' # s"] have "NewHashFromStr s = Inr h' \<Longrightarrow> length h' = 32"
    by (force simp: NewHashFromStr_def HashSize_def Let_def split: if_splits prod.splits)
  then show ?thesis using NewHashFromStr_Hash_String by blast
qed

theorem hash_text_roundtrip_witness:
  "NewHashFromStr (Hash_String (replicate 32 7)) = Inr (replicate 32 7) \<and> length (replicate 32 (7 :: u8)) = 32"
  using hash_text_roundtrip [of "replicate 32 7"] by simp

text \<open>A node of the test network whose chain has the given height, and that answers nothing else.\<close>

definition empty_node :: "u64 \<Rightarrow> btcd_client" where
  "empty_node height =
     \<lparr>GetBlockCount = Inr height,
      GetBlockHash = (\<lambda>n. if n = 0 then Inr (projr (NewHashFromStr (projr (GenesisBlock Testnet))))
         else Inl (RPCError (-1) ''Block number out of range'')),
      GetBlockHeader = (\<lambda>_. Inl (RPCError (-5) ''Block not found'')),
      GetBlockVerbose = (\<lambda>_. Inl (RPCError (-5) ''Block not found'')),
      GetRawTransactionVerbose = (\<lambda>_. Inl (RPCError (-5) ''No information available about transaction'')),
      SearchRawTransactionsVerbose = (\<lambda>_ _ _. Inl (RPCError (-5) ''No information available about address''))\<rparr>"

text \<open>
  A backend is only ever built on a node of the right chain: its block 0 is the genesis block of the
  network, the chain height is the node's, and no worker owes an answer yet.
\<close>

theorem btcd_right_chain:
  assumes "NewBtcdBackend rpc_New host port user pass network = Inr (Inr (client, b))"
  shows "\<exists>genesis height. GetBlockHash client 0 = Inr genesis \<and> GenesisBlock network = Inr (Hash_String genesis) \<and>
    GetBlockCount client = Inr height \<and> btcd_ChainHeight b = ucast height \<and>
    network \<in> {Mainnet, Testnet} \<and> btcd_addr_owed lib client (btcd_started b) = {#}"
proof -
  have "GenesisBlock network = Inr g \<Longrightarrow> network \<in> {Mainnet, Testnet}" for g
    by (simp add: GenesisBlock_def split: if_splits)
  then show ?thesis
    using assms
    by (auto simp: NewBtcdBackend_def sbind_Inr_iff btcd_ChainHeight_def btcd_addr_owed_def btcd_started_def
        concurrency_def split: sum.splits if_splits)
qed

theorem btcd_right_chain_witness:
  "GetBlockCount (empty_node 7) = Inr 7 \<and> (\<exists>b. btcd_ChainHeight b = 7 \<and> btcd_addr_owed sample_lib (empty_node 7) (btcd_started b) = {#})"
proof -
  define g where "g = projr (GetBlockHash (empty_node 7) 0)"
  have e: "GenesisBlock Testnet = Inr (Hash_String g)" unfolding g_def by code_simp
  have "GetBlockHash (empty_node 7) 0 = Inr g" "GetBlockCount (empty_node 7) = Inr 7"
    by (simp_all add: empty_node_def g_def)
  then obtain b where "NewBtcdBackend (\<lambda>_ _ _. Inr (empty_node 7)) ''h'' ''1'' ''u'' ''p'' Testnet = Inr (Inr (empty_node 7, b))"
    by (simp add: NewBtcdBackend_def e)
  from btcd_right_chain [OF this, of sample_lib] show ?thesis by (auto simp: empty_node_def)
qed

text \<open>A step of the backend or of its client: a worker's step, a request or a response that is taken.\<close>

inductive btcd_use ::
    "('k, 'p) btc_lib \<Rightarrow> btcd_client \<Rightarrow> btcd_backend \<times> btcd_worker list \<Rightarrow> btcd_backend \<times> btcd_worker list \<Rightarrow> bool"
  for lib client where
  use_work: "btcd_processRequests lib client s s' \<Longrightarrow> btcd_use lib client s s'"
| use_addr_request: "btcd_addr_send a b = Some b' \<Longrightarrow> btcd_use lib client (b, ws) (b', ws)"
| use_addr_response: "btcd_addr_recv b = Some (r, b') \<Longrightarrow> btcd_use lib client (b, ws) (b', ws)"
| use_tx_request: "btcd_tx_send h b = Some b' \<Longrightarrow> btcd_use lib client (b, ws) (b', ws)"
| use_tx_response: "btcd_tx_recv b = Some (t, b') \<Longrightarrow> btcd_use lib client (b, ws) (b', ws)"
| use_block_request: "btcd_block_send k b = Some b' \<Longrightarrow> btcd_use lib client (b, ws) (b', ws)"
| use_block_response: "btcd_block_recv b = Some (r, b') \<Longrightarrow> btcd_use lib client (b, ws) (b', ws)"
| use_finish: "btcd_use lib client (b, ws) (btcd_Finish b, ws)"

lemma btcd_use_inv:
  assumes "btcd_use lib client s s'" and "btcd_inv lib client s"
  shows "btcd_inv lib client s'"
  using assms
proof (induction rule: btcd_use.induct)
  case (use_work s s')
  then show ?case by (simp add: pool_step(1))
qed (auto simp: btcd_inv_def btcd_addr_send_def btcd_addr_recv_def btcd_tx_send_def btcd_tx_recv_def
    btcd_block_send_def btcd_block_recv_def btcd_Finish_def split: if_splits list.splits)

lemma btcd_reach_inv:
  assumes "(btcd_use lib client)\<^sup>*\<^sup>* s s'" and "btcd_inv lib client s"
  shows "btcd_inv lib client s'"
  using assms by (induction rule: rtranclp_induct) (auto intro: btcd_use_inv)

text \<open>
  C22: the caches of the btcd backend never disagree with the node: whatever the client and the hundred
  workers have done, every cached height is the height of that block, and every cached transaction is
  the one that fetching it afresh would give.
\<close>

theorem btcd_caches_agree:
  assumes "NewBtcdBackend rpc_New host port user pass network = Inr (Inr (client, b))" and "node_ok lib client"
    and "(btcd_use lib client)\<^sup>*\<^sup>* (btcd_started b) (b', ws)"
  shows "(bb_blockHeightLookup b' k = Some v \<longrightarrow> height_at client k = Some v) \<and>
    (bb_cachedTransactions b' h = Some t \<longrightarrow> (\<exists>lookup. fetchTx client h Map.empty = Inr (t, lookup)))"
proof -
  have "btcd_inv lib client (b', ws)"
    using btcd_reach_inv [OF assms(3) btcd_start_facts(1) [OF assms(1,2)]] .
  moreover have "\<exists>lookup. fetchTx client h Map.empty = Inr (t, lookup)" if "btcd_tx_answer client h = Some t"
    using that by (auto simp: btcd_tx_answer_def node_tx_def tx_response_def height_at_def fetchTx_def getBlockHeight_def
        bind_eq_Some_conv split: sum.splits)
  ultimately show ?thesis by (auto simp: btcd_inv_def lookup_ok_def)
qed

text \<open>
  C30: a transaction that is not in a block yet stops the program.  Its block hash is empty, which reads
  as the hash of 32 zero bytes; no block has it, so the worker that caches the transaction panics, and
  nothing else can happen to that worker.
\<close>

theorem unconfirmed_transaction_crashes:
  assumes "rt_BlockHash tx = ''''" and "bb_blockHeightLookup b '''' = None"
    and "GetBlockVerbose client (replicate 32 0) = Inl err"
  shows "btcd_worker_step lib client (b, BHeight a hs tx txs) s' \<longleftrightarrow>
    (\<exists>e. getBlockHeight client '''' (bb_blockHeightLookup b) = Inl e \<and>
       s' = (b, BCrashed (PanicErr (Wrapf e ''error getting block height for hash %s: %s'' [Str ''''])) (JAddr a)))"
proof -
  have "NewHashFromStr '''' = Inr (replicate 32 0)" by (simp add: NewHashFromStr_def HashSize_def)
  then have "\<exists>e. getBlockHeight client '''' (bb_blockHeightLookup b) = Inl e"
    using assms(2,3) by (simp add: getBlockHeight_def)
  then show ?thesis
    using assms(1) btcd_worker_step.no_height [of client tx b _ lib a hs txs] by (auto elim!: btcd_worker_step.cases)
qed

theorem unconfirmed_transaction_crashes_witness:
  "\<exists>b e. btcd_worker_step sample_lib (empty_node 7)
     (b, BHeight (NewAddress [] [] Testnet 0 0) [''t''] \<lparr>rt_Txid = ''t'', rt_BlockHash = [], rt_Hex = ''00''\<rparr> []) (b, BCrashed e (JAddr (NewAddress [] [] Testnet 0 0)))"
proof -
  let ?tx = "\<lparr>rt_Txid = ''t'', rt_BlockHash = [], rt_Hex = ''00''\<rparr>"
  obtain b :: btcd_backend where b: "bb_blockHeightLookup b [] = None"
    by (rule that [of "\<lparr>bb_chainHeight = 7, bb_network = Testnet, bb_blockHeightLookup = Map.empty, bb_addrRequests = [],
      bb_addrResponses = [], bb_txRequests = [], bb_txResponses = [], bb_blockRequests = [], bb_blockResponses = [],
      bb_cachedTransactions = Map.empty, bb_doneCh = False\<rparr>"]) simp
  have v: "GetBlockVerbose (empty_node 7) h = Inl (RPCError (-5) ''Block not found'')" for h
    by (simp add: empty_node_def)
  then obtain e where e: "getBlockHeight (empty_node 7) [] (bb_blockHeightLookup b) = Inl e"
    using b by (simp add: getBlockHeight_def NewHashFromStr_def HashSize_def ErrRPCInvalidAddressOrKey_def)
  note iff = unconfirmed_transaction_crashes [of ?tx b "empty_node 7", OF _ b v]
  show ?thesis
    by (intro exI, subst iff) (use e in auto)
qed

lemma btcd_Finish_simps:
  "btcd_Finish (b\<lparr>bb_addrRequests := as\<rparr>) = (btcd_Finish b)\<lparr>bb_addrRequests := as\<rparr>"
  "btcd_Finish (b\<lparr>bb_txRequests := hs\<rparr>) = (btcd_Finish b)\<lparr>bb_txRequests := hs\<rparr>"
  "btcd_Finish (b\<lparr>bb_blockRequests := ks\<rparr>) = (btcd_Finish b)\<lparr>bb_blockRequests := ks\<rparr>"
  "bb_addrRequests (btcd_Finish b) = bb_addrRequests b" "bb_txRequests (btcd_Finish b) = bb_txRequests b"
  "bb_blockRequests (btcd_Finish b) = bb_blockRequests b" "bb_doneCh (btcd_Finish b)"
  by (cases b; simp add: btcd_Finish_def)+

text \<open>
  \<^verbatim>\<open>Finish\<close> does not stop the workers.  The \<^verbatim>\<open>break\<close> on the closed channel only leaves the
  \<^verbatim>\<open>select\<close>: an idle worker of a finished backend goes round its loop without end, and it still takes
  the requests that are queued.
\<close>

theorem btcd_workers_never_stop:
  "btcd_worker_step lib client (btcd_Finish b, BIdle) (btcd_Finish b, BIdle) \<and>
   (btcd_worker_step lib client (btcd_Finish b, BIdle) s' \<longleftrightarrow>
      s' = (btcd_Finish b, BIdle) \<or> (\<exists>s. btcd_worker_step lib client (b, BIdle) s \<and> s' = (btcd_Finish (fst s), snd s)))"
proof -
  have "btcd_worker_step lib client (btcd_Finish b, BIdle) s'"
    if "btcd_worker_step lib client (b, BIdle) s" "s' = (btcd_Finish (fst s), snd s)" for s
    using that by cases (auto simp: btcd_Finish_simps intro: btcd_worker_step.intros)
  moreover have "s' = (btcd_Finish b, BIdle) \<or> (\<exists>s. btcd_worker_step lib client (b, BIdle) s \<and> s' = (btcd_Finish (fst s), snd s))"
    if "btcd_worker_step lib client (btcd_Finish b, BIdle) s'"
    using that
  proof cases
    case (take_addr a q)
    then show ?thesis
      by (intro disjI2 exI [of _ "(b\<lparr>bb_addrRequests := q\<rparr>, BAddr a)"]) (simp add: btcd_Finish_simps btcd_worker_step.take_addr)
  next
    case (take_tx h q)
    then show ?thesis
      by (intro disjI2 exI [of _ "(b\<lparr>bb_txRequests := q\<rparr>, BTx h)"]) (simp add: btcd_Finish_simps btcd_worker_step.take_tx)
  next
    case (take_block k q)
    then show ?thesis
      by (intro disjI2 exI [of _ "(b\<lparr>bb_blockRequests := q\<rparr>, BBlock k)"]) (simp add: btcd_Finish_simps btcd_worker_step.take_block)
  qed simp
  ultimately show ?thesis by (auto intro: btcd_worker_step.finished simp: btcd_Finish_simps)
qed

end
