(* ===== verification/Blockfinder.thy ===== *)
theory Blockfinder
  imports Fixture
begin

text \<open>
  \<^verbatim>\<open>blockfinder/blockfinder.go\<close>: the median of eleven block times and the binary search for a time.
  The backend is the function \<open>deliver\<close>: what the client receives, in the order it is received,
  after sending block requests for a list of heights.  The loops run on 32-bit heights and need
  not end, so they are \<open>partial_function (option)\<close>, where \<open>None\<close> is the loop that never returns.
\<close>

section \<open>Search\<close>

text \<open>The field \<open>bf_blocks\<close> is made and never used; the channel of the responses belongs to the backend.\<close>

record 'b blockfinder =
  bf_blocks :: "u32 \<rightharpoonup> go_time"
  bf_backend :: 'b

definition blockfinder_New :: "'b \<Rightarrow> 'b blockfinder" where
  "blockfinder_New b = \<lparr>bf_blocks = Map.empty, bf_backend = b\<rparr>"

text \<open>The heights requested by the first loop of \<^verbatim>\<open>searchSync\<close>.\<close>

partial_function (option) request_range :: "u32 \<Rightarrow> u32 \<Rightarrow> u32 list option" where
  [code]: "request_range i hi =
     (if i \<le> hi then Option.bind (request_range (i + 1) hi) (\<lambda>rest. Some (i # rest)) else Some [])"

text \<open>
  The second loop receives eleven responses, and waits forever when fewer arrive.
\<close>

definition median_of :: "BlockResponse list \<Rightarrow> int result" where
  "median_of responses =
     (if length responses < 11 then Inl Blocked
      else at_index (go_sort (<) (map br_Timestamp (take 11 responses))) 5)"

definition searchSync :: "(u32 list \<Rightarrow> BlockResponse list result) \<Rightarrow> u32 \<Rightarrow> int result option" where
  "searchSync deliver height =
     Option.bind (request_range (height - 5) (height + 5)) (\<lambda>heights. Some (sbind (deliver heights) median_of))"

partial_function (option) bisect ::
    "(u32 list \<Rightarrow> BlockResponse list result) \<Rightarrow> int \<Rightarrow> u32 \<Rightarrow> int \<Rightarrow> u32 \<Rightarrow> int \<Rightarrow> (u32 \<times> int) result option" where
  [code]: "bisect deliver target lo loMedian hi hiMedian =
     (if hi - lo > 1 then
        let avg = (hi + lo) div 2 in
        Option.bind (searchSync deliver avg) (\<lambda>r.
          case r of
            Inl e \<Rightarrow> Some (Inl e)
          | Inr avgTimestamp \<Rightarrow>
              if avgTimestamp < loMedian \<or> avgTimestamp > hiMedian then Some (Inl (Panic ''non-monotonic medians'' []))
              else if target = avgTimestamp then Some (Inr (avg, avgTimestamp))
              else if target > avgTimestamp then bisect deliver target avg avgTimestamp hi hiMedian
              else bisect deliver target lo loMedian avg avgTimestamp)
      else Some (Inr (lo, loMedian)))"

definition Search ::
    "(u32 list \<Rightarrow> BlockResponse list result) \<Rightarrow> u32 \<Rightarrow> go_time \<Rightarrow> (u32 \<times> int \<times> go_time) result option" where
  "Search deliver chainHeight timestamp =
     (let target = timestamp; lo = 10 in
      Option.bind (searchSync deliver lo) (\<lambda>r1. case r1 of Inl e \<Rightarrow> Some (Inl e) | Inr loMedian \<Rightarrow>
      let hi = chainHeight - 11 in
      Option.bind (searchSync deliver hi) (\<lambda>r2. case r2 of Inl e \<Rightarrow> Some (Inl e) | Inr hiMedian \<Rightarrow>
      Option.bind (bisect deliver target lo loMedian hi hiMedian) (\<lambda>r3. case r3 of Inl e \<Rightarrow> Some (Inl e)
        | Inr (lo, loMedian) \<Rightarrow>
          Some (sbind (deliver [lo]) (\<lambda>rs.
            case rs of [] \<Rightarrow> Inl Blocked | blockHeader # _ \<Rightarrow> Inr (lo, loMedian, br_Timestamp blockHeader)))))))"

section \<open>The loops end\<close>

lemma request_range_empty: "hi < i \<Longrightarrow> request_range i hi = Some []"
  by (simp add: request_range.simps [of i hi] not_le [symmetric])

text \<open>The heights from \<open>i\<close> on, \<open>n\<close> of them.\<close>

definition span :: "u32 \<Rightarrow> nat \<Rightarrow> u32 list" where
  "span i n = map (\<lambda>k. i + of_nat k) [0..<n]"

lemma span_Suc: "span i (Suc n) = i # span (i + 1) n"
  by (simp add: span_def upt_conv_Cons map_Suc_upt [symmetric] comp_def algebra_simps del: upt_Suc)

lemma request_range_span:
  assumes "unat i + n < 2 ^ 32" and "unat hi + 1 = unat i + n"
  shows "request_range i hi = Some (span i n)"
  using assms
proof (induction n arbitrary: i)
  case 0
  then show ?case by (simp add: span_def request_range_empty word_less_nat_alt)
next
  case (Suc n)
  have i: "unat (i + 1) = unat i + 1"
    using Suc.prems(1) by (subst unat_add_no_wrap) simp_all
  have "request_range (i + 1) hi = Some (span (i + 1) n)"
    by (rule Suc.IH) (use Suc.prems i in simp_all)
  then show ?case
    using Suc.prems by (simp add: request_range.simps [of i hi] span_Suc word_le_nat_alt)
qed

lemma request_range_ends:
  assumes "request_range i hi = Some hs"
  shows "hi \<noteq> - 1"
  using assms
  by (induct rule: request_range.raw_induct [rotated, consumes 1])
    (auto simp: bind_eq_Some_conv split: if_splits)

lemma request_range_diverges: "request_range i (- 1) = None"
  using request_range_ends by (cases "request_range i (- 1)") auto

section \<open>The binary search\<close>

text \<open>
  What the search returns, for any function \<open>M\<close> of medians: either it met \<open>target\<close> itself, or its
  result is the last height whose median is below \<open>target\<close> as far as the interval goes.
\<close>

definition bracketed :: "(u32 \<Rightarrow> int) \<Rightarrow> int \<Rightarrow> u32 \<Rightarrow> u32 \<Rightarrow> u32 \<Rightarrow> bool" where
  "bracketed M target lo hi r \<longleftrightarrow>
     lo \<le> r \<and> r < hi \<and> (M r = target \<or> ((r = lo \<or> M r < target) \<and> (r + 1 = hi \<or> target < M (r + 1))))"

definition monotone_medians :: "(u32 \<Rightarrow> int) \<Rightarrow> u32 \<Rightarrow> u32 \<Rightarrow> bool" where
  "monotone_medians M lo hi \<longleftrightarrow> (\<forall>g h. lo \<le> g \<longrightarrow> g \<le> h \<longrightarrow> h \<le> hi \<longrightarrow> M g \<le> M h)"

lemma avg_between:
  fixes lo hi :: u32
  assumes "lo < hi" and "hi - lo > 1" and "unat hi + unat lo < 2 ^ 32"
  shows "unat ((hi + lo) div 2) = (unat hi + unat lo) div 2"
    and "lo < (hi + lo) div 2" and "(hi + lo) div 2 < hi"
proof -
  show u: "unat ((hi + lo) div 2) = (unat hi + unat lo) div 2"
    using assms(3) by (simp add: unat_div unat_add_no_wrap)
  have "unat (hi - lo) = unat hi - unat lo"
    using assms(1) by (intro unat_sub_no_wrap) (simp add: word_less_nat_alt)
  then have "unat hi - unat lo > 1" using assms(2) by (simp add: word_less_nat_alt)
  then show "lo < (hi + lo) div 2" and "(hi + lo) div 2 < hi"
    using u by (simp_all add: word_less_nat_alt)
qed

lemma bracketed_right:
  "bracketed M t avg hi r \<Longrightarrow> lo < avg \<Longrightarrow> M avg < t \<Longrightarrow> bracketed M t lo hi r"
  by (auto simp: bracketed_def)

lemma bracketed_left:
  "bracketed M t lo avg r \<Longrightarrow> avg < hi \<Longrightarrow> t < M avg \<Longrightarrow> bracketed M t lo hi r"
  by (auto simp: bracketed_def)

lemma bisect_spec:
  assumes "lo < hi" and "unat hi < 2 ^ 31"
    and med: "\<And>h. lo \<le> h \<Longrightarrow> h \<le> hi \<Longrightarrow> searchSync deliver h = Some (Inr (M h))"
  shows "\<exists>res. bisect deliver t lo (M lo) hi (M hi) = Some res \<and>
    (case res of
       Inl e \<Rightarrow> e = Panic ''non-monotonic medians'' [] \<and> \<not> monotone_medians M lo hi
     | Inr (r, m) \<Rightarrow> m = M r \<and> bracketed M t lo hi r)"
  using assms
proof (induction "unat hi - unat lo" arbitrary: lo hi rule: less_induct)
  case less
  let ?avg = "(hi + lo) div 2"
  show ?case
  proof (cases "hi - lo > 1")
    case False
    have "unat (hi - lo) = unat hi - unat lo"
      using less.prems(1) by (intro unat_sub_no_wrap) (simp add: word_less_nat_alt)
    then have "unat hi = unat lo + 1" using False less.prems(1) by (simp add: word_less_nat_alt)
    then have "lo + 1 = hi" using less.prems(1) by (simp add: word_unat_eq_iff unat_inc_no_wrap)
    then show ?thesis using False less.prems(1) by (simp add: bisect.simps bracketed_def)
  next
    case True
    have "unat hi + unat lo < 2 ^ 32" using less.prems(1,2) by (simp add: word_less_nat_alt)
    note avg = avg_between [OF less.prems(1) True this]
    have smaller: "unat hi - unat ?avg < unat hi - unat lo" "unat ?avg - unat lo < unat hi - unat lo"
      using avg(2,3) by (auto simp: word_less_nat_alt intro: diff_less_mono2 diff_less_mono)
    have m: "searchSync deliver ?avg = Some (Inr (M ?avg))"
      using avg by (intro less.prems(3)) simp_all
    note unfold = bisect.simps [of deliver t lo "M lo" hi "M hi"]
    consider "M ?avg < M lo \<or> M ?avg > M hi" | "\<not> (M ?avg < M lo \<or> M ?avg > M hi)" "t = M ?avg"
      | "\<not> (M ?avg < M lo \<or> M ?avg > M hi)" "t > M ?avg" | "\<not> (M ?avg < M lo \<or> M ?avg > M hi)" "t < M ?avg"
      by fastforce
    then show ?thesis
    proof cases
      case 1
      have "\<not> monotone_medians M lo hi"
      proof
        assume "monotone_medians M lo hi"
        then have "M lo \<le> M ?avg" "M ?avg \<le> M hi"
          using avg less.prems(1) unfolding monotone_medians_def by auto
        then show False using 1 by linarith
      qed
      then show ?thesis using True 1 by (auto simp: unfold m Let_def)
    next
      case 2
      have "bisect deliver t lo (M lo) hi (M hi) = Some (Inr (?avg, M ?avg))"
        by (subst bisect.simps) (use True 2 m in \<open>simp add: Let_def\<close>)
      then show ?thesis using avg 2 by (simp add: bracketed_def)
    next
      case 3
      obtain res where res: "bisect deliver t ?avg (M ?avg) hi (M hi) = Some res"
        and spec: "case res of Inl e \<Rightarrow> e = Panic ''non-monotonic medians'' [] \<and> \<not> monotone_medians M ?avg hi
          | Inr (r, m) \<Rightarrow> m = M r \<and> bracketed M t ?avg hi r"
        using less.hyps [OF smaller(1) avg(3) less.prems(2)] less.prems(3) avg(2) by fastforce
      have "monotone_medians M lo hi \<Longrightarrow> monotone_medians M ?avg hi"
        using avg(2) unfolding monotone_medians_def by auto
      then show ?thesis
        using True 3 res spec bracketed_right [OF _ avg(2)] by (auto simp: unfold m Let_def split: sum.splits)
    next
      case 4
      obtain res where res: "bisect deliver t lo (M lo) ?avg (M ?avg) = Some res"
        and spec: "case res of Inl e \<Rightarrow> e = Panic ''non-monotonic medians'' [] \<and> \<not> monotone_medians M lo ?avg
          | Inr (r, m) \<Rightarrow> m = M r \<and> bracketed M t lo ?avg r"
        using less.hyps [OF smaller(2) avg(2)] less.prems avg by (fastforce simp: word_less_nat_alt)
      have "monotone_medians M lo hi \<Longrightarrow> monotone_medians M lo ?avg"
        using avg(3) unfolding monotone_medians_def by auto
      then show ?thesis
        using True 4 res spec bracketed_left [OF _ avg(3)] by (auto simp: unfold m Let_def split: sum.splits)
    qed
  qed
qed

section \<open>The blocks behind the responses\<close>

text \<open>
  What the search needs of a backend: requests for heights it has are answered once each, in any
  order, with the times of those blocks.
\<close>

locale block_source =
  fixes deliver :: "u32 list \<Rightarrow> BlockResponse list result"
    and avail :: "u32 set"
    and time :: "u32 \<Rightarrow> go_time"
  assumes deliver_times: "set hs \<subseteq> avail \<Longrightarrow>
    \<exists>rs. deliver hs = Inr rs \<and> mset (map br_Timestamp rs) = mset (map time hs)"

definition median :: "(u32 \<Rightarrow> go_time) \<Rightarrow> u32 \<Rightarrow> int" where
  "median time h = sort (map time (span (h - 5) 11)) ! 5"

lemma length_span [simp]: "length (span i n) = n"
  by (simp add: span_def)

lemma unat_sub_const: "k \<le> unat h \<Longrightarrow> k < 2 ^ 32 \<Longrightarrow> unat (h - of_nat k :: u32) = unat h - k"
  by (subst unat_sub_no_wrap) (simp_all add: unat_of_nat)

lemma request_range_window:
  assumes "5 \<le> unat h" and "unat h + 6 < 2 ^ 32"
  shows "request_range (h - 5) (h + 5) = Some (span (h - 5) 11)"
proof -
  have "unat (h - 5) = unat h - 5" using assms(1) unat_sub_const [of 5 h] by simp
  moreover have "unat (h + 5) = unat h + 5" using assms(2) by (subst unat_add_no_wrap) simp_all
  ultimately show ?thesis using assms by (intro request_range_span) simp_all
qed

lemma set_span_window:
  assumes "5 \<le> unat h" and "unat h + 6 < 2 ^ 32" and "i \<in> set (span (h - 5) 11)"
  shows "unat h - 5 \<le> unat i \<and> unat i \<le> unat h + 5"
proof -
  obtain k where k: "k < 11" and i: "i = (h - 5) + of_nat k" using assms(3) by (auto simp: span_def)
  have "unat (h - 5) = unat h - 5" using assms(1) unat_sub_const [of 5 h] by simp
  moreover have "unat (of_nat k :: u32) = k" using k by (simp add: unat_of_nat)
  ultimately have "unat i = unat h - 5 + k"
    unfolding i using assms(2) k by (subst unat_add_no_wrap) simp_all
  then show ?thesis using k assms(1) by linarith
qed

lemma go_sort_sort: "go_sort (<) xs = sort (xs :: int list)"
  by (simp add: int_sort.go_sort_eq id_def)

lemma sort_mset: "mset xs = mset ys \<Longrightarrow> sort xs = sort (ys :: int list)"
  by (metis mset_sort properties_for_sort sorted_sort)

context block_source
begin

lemma searchSync_median:
  assumes h: "5 \<le> unat h" "unat h + 6 < 2 ^ 32"
    and "\<And>i. unat h - 5 \<le> unat i \<Longrightarrow> unat i \<le> unat h + 5 \<Longrightarrow> i \<in> avail"
  shows "searchSync deliver h = Some (Inr (median time h))"
proof -
  have "set (span (h - 5) 11) \<subseteq> avail"
    using set_span_window [OF h] assms(3) by blast
  then obtain rs where rs: "deliver (span (h - 5) 11) = Inr rs"
    and ts: "mset (map br_Timestamp rs) = mset (map time (span (h - 5) 11))"
    using deliver_times by blast
  have len: "length rs = 11" using mset_eq_length [OF ts] by simp
  have "go_sort (<) (map br_Timestamp rs) = sort (map time (span (h - 5) 11))"
    unfolding go_sort_sort using ts by (rule sort_mset)
  moreover have "length (go_sort (<) (map br_Timestamp rs)) = 11"
    using len by (simp add: go_sort_sort)
  ultimately show ?thesis
    using len by (simp add: searchSync_def request_range_window [OF h] rs median_of_def at_index_def median_def)
qed

lemma Search_bracketed:
  assumes ch: "22 \<le> unat chainHeight" "unat chainHeight < 2 ^ 31"
    and avail: "\<And>i. 5 \<le> unat i \<Longrightarrow> unat i \<le> unat chainHeight - 6 \<Longrightarrow> i \<in> avail"
    and mono: "monotone_medians (median time) 10 (chainHeight - 11)"
  shows "\<exists>r. Search deliver chainHeight t = Some (Inr (r, median time r, time r)) \<and>
     bracketed (median time) t 10 (chainHeight - 11) r"
proof -
  let ?hi = "chainHeight - 11"
  have hi: "unat ?hi = unat chainHeight - 11" using ch(1) unat_sub_const [of 11 chainHeight] by simp
  have med: "searchSync deliver h = Some (Inr (median time h))" if "10 \<le> h" "h \<le> ?hi" for h
  proof (rule searchSync_median)
    have b: "10 \<le> unat h" "unat h \<le> unat chainHeight - 11"
      using that by (simp_all add: word_le_nat_alt hi)
    then show "5 \<le> unat h" "unat h + 6 < 2 ^ 32" using ch by simp_all
    show "i \<in> avail" if "unat h - 5 \<le> unat i" "unat i \<le> unat h + 5" for i
      using that b ch by (intro avail) simp_all
  qed
  have lt: "10 < ?hi" using ch by (simp add: word_less_nat_alt hi)
  have small: "unat ?hi < 2 ^ 31" using ch by (simp add: hi)
  obtain res where res: "bisect deliver t 10 (median time 10) ?hi (median time ?hi) = Some res"
    and spec: "case res of Inl e \<Rightarrow> e = Panic ''non-monotonic medians'' [] \<and> \<not> monotone_medians (median time) 10 ?hi
      | Inr (r, m) \<Rightarrow> m = median time r \<and> bracketed (median time) t 10 ?hi r"
    using bisect_spec [OF lt small med] by blast
  then obtain r where r: "res = Inr (r, median time r)" and br: "bracketed (median time) t 10 ?hi r"
    using mono by (auto split: sum.splits)
  have "10 \<le> unat r" "unat r \<le> unat chainHeight - 11"
    using br by (simp_all add: bracketed_def word_le_nat_alt word_less_nat_alt hi)
  then have "set [r] \<subseteq> avail" using ch by (auto intro!: avail)
  then obtain rs where rs: "deliver [r] = Inr rs" "mset (map br_Timestamp rs) = mset (map time [r])"
    using deliver_times by blast
  then obtain b where "rs = [b]" "br_Timestamp b = time r" by (cases rs) auto
  then have "Search deliver chainHeight t = Some (Inr (r, median time r, time r))"
    using med [of 10] med [of ?hi] lt by (simp add: Search_def Let_def res r rs)
  then show ?thesis using br by blast
qed

end

section \<open>A fixture as the source\<close>

definition fixture_deliver :: "fixture_backend \<Rightarrow> u32 list \<Rightarrow> BlockResponse list result" where
  "fixture_deliver fb = smap (fixture_processBlockRequest fb)"

definition fixture_time :: "fixture_backend \<Rightarrow> u32 \<Rightarrow> go_time" where
  "fixture_time fb h = br_Timestamp (the (fb_blockIndex fb h))"

interpretation fixture_blocks: block_source "fixture_deliver fb" "dom (fb_blockIndex fb)" "fixture_time fb" for fb
proof
  fix hs
  assume "set hs \<subseteq> dom (fb_blockIndex fb)"
  then have "fixture_deliver fb hs = Inr (map (\<lambda>h. the (fb_blockIndex fb h)) hs)"
    unfolding fixture_deliver_def
    by (intro smap_Inr_map) (auto simp: fixture_processBlockRequest_def split: option.splits)
  then show "\<exists>rs. fixture_deliver fb hs = Inr rs \<and>
      mset (map br_Timestamp rs) = mset (map (fixture_time fb) hs)"
    by (auto simp: fixture_time_def [abs_def] multiset.map_comp comp_def)
qed

text \<open>
  The same as the goroutines do it: the client sends its requests one by one and then receives,
  while the worker of the fixture backend takes requests and answers them.
\<close>

inductive block_exchange ::
    "u32 list \<times> BlockResponse list \<times> fixture_backend \<times> worker
      \<Rightarrow> u32 list \<times> BlockResponse list \<times> fixture_backend \<times> worker \<Rightarrow> bool" where
  request: "fixture_block_send h fb = Some fb' \<Longrightarrow> block_exchange (h # hs, rs, fb, w) (hs, rs, fb', w)"
| response: "fixture_block_recv fb = Some (r, fb') \<Longrightarrow> block_exchange ([], rs, fb, w) ([], rs @ [r], fb', w)"
| backend: "fixture_processRequests (fb, w) (fb', w') \<Longrightarrow> block_exchange (hs, rs, fb, w) (hs, rs, fb', w')"

fun held_block :: "worker \<Rightarrow> BlockResponse list" where
  "held_block (SendBlock r) = [r]"
| "held_block _ = []"

definition exchange_inv ::
    "fixture_backend \<Rightarrow> u32 list \<Rightarrow> u32 list \<times> BlockResponse list \<times> fixture_backend \<times> worker \<Rightarrow> bool" where
  "exchange_inv fb0 hs0 = (\<lambda>(hs, rs, fb, w).
     fb_blockIndex fb = fb_blockIndex fb0 \<and>
     ((\<exists>taken. hs0 = taken @ fb_blockRequests fb @ hs \<and>
         list_all2 (\<lambda>h r. fixture_processBlockRequest fb0 h = Inr r) taken
           (rs @ fb_blockResponses fb @ held_block w)) \<or>
      (\<exists>e. w = Crashed e) \<and>
        length rs + length (fb_blockResponses fb) + length (fb_blockRequests fb) + length hs < length hs0))"

lemma processBlockRequest_index:
  "fb_blockIndex fb = fb_blockIndex fb0 \<Longrightarrow> fixture_processBlockRequest fb h = fixture_processBlockRequest fb0 h"
  by (simp add: fixture_processBlockRequest_def)

lemma exchange_inv_work:
  assumes "fixture_processRequests (fb, w) (fb', w')" and "exchange_inv fb0 hs0 (hs, rs, fb, w)"
  shows "exchange_inv fb0 hs0 (hs, rs, fb', w')"
  using assms
proof (induction "(fb, w)" "(fb', w')" rule: fixture_processRequests.induct)
  case (take_tx h q)
  then show ?case by (auto simp: exchange_inv_def split: option.splits)
next
  case (take_block h q)
  then obtain taken where hs0: "hs0 = taken @ fb_blockRequests fb @ hs"
    and all: "list_all2 (\<lambda>h r. fixture_processBlockRequest fb0 h = Inr r) taken (rs @ fb_blockResponses fb)"
    and idx: "fb_blockIndex fb = fb_blockIndex fb0"
    by (auto simp: exchange_inv_def)
  note ans = processBlockRequest_index [OF idx, of h]
  show ?case
  proof (cases "fixture_processBlockRequest fb0 h")
    case (Inl e)
    have "length taken = length rs + length (fb_blockResponses fb)"
      using list_all2_lengthD [OF all] by simp
    then show ?thesis using take_block Inl hs0 idx by (auto simp: exchange_inv_def ans)
  next
    case (Inr r)
    have "list_all2 (\<lambda>h r. fixture_processBlockRequest fb0 h = Inr r) (taken @ [h]) (rs @ fb_blockResponses fb @ [r])"
      using list_all2_appendI [OF all, of "[h]" "[r]"] Inr by simp
    moreover have "hs0 = (taken @ [h]) @ q @ hs" using hs0 take_block by simp
    ultimately show ?thesis using take_block Inr idx by (auto simp: exchange_inv_def ans)
  qed
qed (auto simp: exchange_inv_def)

lemma exchange_inv_step:
  "block_exchange s s' \<Longrightarrow> exchange_inv fb0 hs0 s \<Longrightarrow> exchange_inv fb0 hs0 s'"
proof (induction rule: block_exchange.induct)
  case (request h fb fb' hs rs w)
  then show ?case by (auto simp: exchange_inv_def fixture_block_send_def split: if_splits)
next
  case (response fb r fb' rs w)
  then show ?case by (auto simp: exchange_inv_def fixture_block_recv_def split: list.splits)
next
  case (backend fb w fb' w' hs rs)
  then show ?case by (rule exchange_inv_work)
qed

section \<open>Properties\<close>

text \<open>
  C15: the function \<open>fixture_deliver\<close> the search runs on is what the channels do.  Whenever the
  client, in any interleaving with the worker of the fixture backend, has sent all its block
  requests and received as many responses, it received exactly the blocks it asked for, in order.
\<close>

theorem exchange_delivers:
  assumes "block_exchange\<^sup>*\<^sup>* (hs, [], fb, Idle) ([], rs, fb', w')"
    and "fb_blockRequests fb = []" and "fb_blockResponses fb = []" and "length rs = length hs"
  shows "fixture_deliver fb hs = Inr rs \<and> fb_blockRequests fb' = [] \<and> fb_blockResponses fb' = []"
proof -
  have "exchange_inv fb hs (hs, [], fb, Idle)" using assms(2,3) by (simp add: exchange_inv_def)
  with assms(1) have inv: "exchange_inv fb hs ([], rs, fb', w')"
    by (induction rule: rtranclp_induct) (auto intro: exchange_inv_step)
  then obtain taken where d: "hs = taken @ fb_blockRequests fb'"
    and all: "list_all2 (\<lambda>h r. fixture_processBlockRequest fb h = Inr r) taken
        (rs @ fb_blockResponses fb' @ held_block w')"
    using assms(4) by (auto simp: exchange_inv_def)
  have "length taken = length rs + length (fb_blockResponses fb') + length (held_block w')"
    using list_all2_lengthD [OF all] by simp
  then have "fb_blockRequests fb' = []" "fb_blockResponses fb' = []" "held_block w' = []"
    using d assms(4) by auto
  then show ?thesis using d all by (simp add: fixture_deliver_def smap_Inr_iff)
qed

definition sample_blocks :: fixture_backend where
  "sample_blocks = empty_fixture\<lparr>fb_height := 22,
     fb_blockIndex := (\<lambda>h. Some \<lparr>br_Height = h, br_Timestamp = 100 * uint h\<rparr>)\<rparr>"

theorem exchange_delivers_witness:
  "fixture_deliver sample_blocks [7] = Inr [\<lparr>br_Height = 7, br_Timestamp = 700\<rparr>]"
proof -
  let ?b = "\<lparr>br_Height = 7 :: u32, br_Timestamp = 700\<rparr>"
  have ex: "\<exists>fb' w'. block_exchange\<^sup>*\<^sup>* ([7], [], sample_blocks, Idle) ([], [?b], fb', w')"
  proof -
    let ?f = "\<lambda>q p. sample_blocks\<lparr>fb_blockRequests := q, fb_blockResponses := p\<rparr>"
    have "block_exchange ([7], [], sample_blocks, Idle) ([], [], ?f [7] [], Idle)"
      by (rule block_exchange.request) (simp add: fixture_block_send_def sample_blocks_def empty_fixture_def)
    moreover have "block_exchange ([], [], ?f [7] [], Idle) ([], [], ?f [] [], SendBlock ?b)"
      using take_block [of "?f [7] []" 7 "[]"]
      by (intro block_exchange.backend) (simp add: fixture_processBlockRequest_def sample_blocks_def empty_fixture_def)
    moreover have "block_exchange ([], [], ?f [] [], SendBlock ?b) ([], [], ?f [] [?b], Idle)"
      using send_block [of "?f [] []" ?b]
      by (intro block_exchange.backend) (simp add: sample_blocks_def empty_fixture_def)
    moreover have "block_exchange ([], [], ?f [] [?b], Idle) ([], [] @ [?b], ?f [] [], Idle)"
      by (rule block_exchange.response) (simp add: fixture_block_recv_def sample_blocks_def empty_fixture_def)
    ultimately have "block_exchange\<^sup>*\<^sup>* ([7], [], sample_blocks, Idle) ([], [] @ [?b], ?f [] [], Idle)"
      by (meson converse_rtranclp_into_rtranclp rtranclp.rtrancl_refl)
    then show ?thesis by (intro exI) simp
  qed
  then obtain fb' w' where "block_exchange\<^sup>*\<^sup>* ([7], [], sample_blocks, Idle) ([], [?b], fb', w')" by blast
  then show ?thesis
    using exchange_delivers by (simp add: sample_blocks_def empty_fixture_def)
qed

text \<open>
  C13: the search finds the block.  Over a fixture that holds the blocks from 5 to six below the
  chain height, with medians that never decrease, \<^verbatim>\<open>Search\<close> always returns a height \<open>r\<close> from 10 to
  twelve below the chain height with its median and its time: either the median of \<open>r\<close> is the
  target, or \<open>r\<close> is the last height with a median below the target (or the first candidate when
  none is).  No block above six below the chain height is needed.
\<close>

theorem Search_finds_block:
  assumes "22 \<le> unat (fb_height fb)" and "unat (fb_height fb) < 2 ^ 31"
    and "\<And>i. 5 \<le> unat i \<Longrightarrow> unat i \<le> unat (fb_height fb) - 6 \<Longrightarrow> i \<in> dom (fb_blockIndex fb)"
    and "monotone_medians (median (fixture_time fb)) 10 (fb_height fb - 11)"
  shows "\<exists>r. Search (fixture_deliver fb) (fixture_ChainHeight fb) t
      = Some (Inr (r, median (fixture_time fb) r, fixture_time fb r)) \<and>
     bracketed (median (fixture_time fb)) t 10 (fb_height fb - 11) r"
  unfolding fixture_ChainHeight_def by (rule fixture_blocks.Search_bracketed [OF assms])

lemma sample_medians: "median (fixture_time sample_blocks) 10 = 1000" "median (fixture_time sample_blocks) 11 = 1100"
  by code_simp+

lemma sample_monotone: "monotone_medians (median (fixture_time sample_blocks)) 10 11"
proof -
  have two: "g = 10 \<or> g = 11" if "10 \<le> g" "g \<le> 11" for g :: u32
    using that by (auto simp: word_le_nat_alt word_unat_eq_iff)
  have "median (fixture_time sample_blocks) g \<le> median (fixture_time sample_blocks) h"
    if "10 \<le> g" "g \<le> h" "h \<le> 11" for g h
  proof -
    have "g = 10 \<or> g = 11" "h = 10 \<or> h = 11"
      using two [of g] two [of h] that by (meson order.trans)+
    then show ?thesis using that(2) by (elim disjE) (simp_all add: sample_medians)
  qed
  then show ?thesis unfolding monotone_medians_def by blast
qed

theorem Search_finds_block_witness:
  "\<exists>r. Search (fixture_deliver sample_blocks) 22 5000 = Some (Inr (r, median (fixture_time sample_blocks) r, 100 * uint r))"
proof -
  have h: "fb_height sample_blocks = 22" and i: "fb_blockIndex sample_blocks i \<noteq> None"
    and t: "fixture_time sample_blocks r = 100 * uint r" for i r
    by (simp_all add: sample_blocks_def fixture_time_def)
  show ?thesis
    using Search_finds_block [of sample_blocks 5000] sample_monotone i
    by (auto simp: h t fixture_ChainHeight_def)
qed

text \<open>
  C19: the newest candidate is never returned.  When even the median of the block eleven below the
  chain height lies before the target, the search still returns the block before it, although the
  type's comment says it finds the last block before the given time.
\<close>

theorem Search_misses_last_block:
  assumes "22 \<le> unat (fb_height fb)" and "unat (fb_height fb) < 2 ^ 31"
    and "\<And>i. 5 \<le> unat i \<Longrightarrow> unat i \<le> unat (fb_height fb) - 6 \<Longrightarrow> i \<in> dom (fb_blockIndex fb)"
    and "monotone_medians (median (fixture_time fb)) 10 (fb_height fb - 11)"
    and "median (fixture_time fb) (fb_height fb - 11) < t"
  shows "\<exists>m s. Search (fixture_deliver fb) (fixture_ChainHeight fb) t = Some (Inr (fb_height fb - 12, m, s))"
proof -
  let ?M = "median (fixture_time fb)"
  obtain r where r: "Search (fixture_deliver fb) (fixture_ChainHeight fb) t = Some (Inr (r, ?M r, fixture_time fb r))"
    and b: "bracketed ?M t 10 (fb_height fb - 11) r"
    using fixture_blocks.Search_bracketed [OF assms(1-4)] unfolding fixture_ChainHeight_def by blast
  have up: "?M h < t" if "10 \<le> h" "h \<le> fb_height fb - 11" for h
    using assms(4,5) that unfolding monotone_medians_def by (meson order.refl order.strict_trans1)
  have lt: "10 \<le> r" "r < fb_height fb - 11" using b by (auto simp: bracketed_def)
  have "unat (r + 1) = unat r + 1" using lt(2) by (simp add: unat_inc_no_wrap)
  then have "10 \<le> r + 1" "r + 1 \<le> fb_height fb - 11"
    using lt by (auto simp: word_le_nat_alt word_less_nat_alt)
  then have "r + 1 = fb_height fb - 11"
    using b up [of r] up [of "r + 1"] lt order.strict_implies_order [OF lt(2)] by (fastforce simp: bracketed_def)
  then have "r = fb_height fb - 12" by (simp add: eq_diff_eq add.commute)
  then show ?thesis using r by blast
qed

theorem Search_misses_last_block_witness:
  "\<exists>m s. Search (fixture_deliver sample_blocks) 22 5000 = Some (Inr (10, m, s)) \<and> median (fixture_time sample_blocks) 11 < 5000"
proof -
  have h: "fb_height sample_blocks = 22" and i: "fb_blockIndex sample_blocks i \<noteq> None" for i
    by (simp_all add: sample_blocks_def)
  show ?thesis
    using Search_misses_last_block [of sample_blocks 5000] sample_monotone sample_medians i
    by (auto simp: h fixture_ChainHeight_def)
qed

text \<open>
  The median does not depend on the order in which the eleven responses arrive.
\<close>

theorem median_of_arrival_order:
  assumes "mset rs' = mset rs" and "length rs \<le> 11"
  shows "median_of rs' = median_of rs"
proof -
  have "mset (map br_Timestamp rs') = mset (map br_Timestamp rs)" using assms(1) by simp
  then have "go_sort (<) (map br_Timestamp rs') = go_sort (<) (map br_Timestamp rs)"
    unfolding go_sort_sort by (rule sort_mset)
  then show ?thesis
    using assms(2) mset_eq_length [OF assms(1)] by (simp add: median_of_def)
qed

theorem median_of_arrival_order_witness:
  "median_of (map (\<lambda>k. \<lparr>br_Height = k, br_Timestamp = uint k\<rparr>) [9, 3, 1, 11, 5, 2, 8, 4, 10, 6, 7]) = Inr 6"
proof -
  have "median_of (map (\<lambda>k. \<lparr>br_Height = k, br_Timestamp = uint k\<rparr>) [1, 2, 3, 4, 5, 6, 7, 8, 9, 10, 11]) = Inr 6"
    by code_simp
  then show ?thesis
    using median_of_arrival_order [of "map (\<lambda>k. \<lparr>br_Height = k, br_Timestamp = uint k\<rparr>) [9, 3, 1, 11, 5, 2, 8, 4, 10, 6, 7]"
      "map (\<lambda>k. \<lparr>br_Height = k, br_Timestamp = uint k\<rparr>) [1, 2, 3, 4, 5, 6, 7, 8, 9, 10, 11]"] by simp
qed


end
