(* ===== verification/Commands.thy ===== *)
theory Commands
  imports ComputeBalance ElectrumPool Btcd Blockfinder
begin

text \<open>
  \<^verbatim>\<open>main.go\<close>: the four commands.  A command is a function of its flags and of the text on the standard
  input; what it gives is the lines it prints at the end, or a panic.  Prompts and progress lines are left
  out.  \<^verbatim>\<open>compute-balance\<close> is a relation, for it runs the concurrent fetch of \<open>ComputeBalance\<close> over the
  backend it has built.
\<close>

section \<open>Reading the keys\<close>

type_synonym line = "string \<times> fmt_arg list"

text \<open>\<^verbatim>\<open>ReadString\<close> of a buffered reader: the text up to and with the delimiter, or all that is left.\<close>

definition ReadString :: "char \<Rightarrow> string \<Rightarrow> string \<times> string" where
  "ReadString d s =
     (case dropWhile (\<lambda>c. c \<noteq> d) s of
        [] \<Rightarrow> (s, [])
      | c # rest \<Rightarrow> (takeWhile (\<lambda>c. c \<noteq> d) s @ [c], rest))"

fun read_keys :: "nat \<Rightarrow> string \<Rightarrow> string list" where
  "read_keys 0 s = []"
| "read_keys (Suc n) s = (let (xpub, s) = ReadString (CHR 0x0A) s in trim_space xpub # read_keys n s)"

text \<open>\<^verbatim>\<open>make([]string, 0, n)\<close> and the loop that reads \<open>n\<close> keys, for an \<open>n\<close> that fits into memory.\<close>

definition enter_keys :: "int \<Rightarrow> string \<Rightarrow> string list result" where
  "enter_keys n s = (if n < 0 then Inl (Panic ''makeslice: cap out of range'' []) else Inr (read_keys (nat n) s))"

fun same_prefix :: "string \<Rightarrow> string list \<Rightarrow> line option result" where
  "same_prefix x0 [] = Inr None"
| "same_prefix x0 (x # xs) =
     sbind (str_prefix 4 x0) (\<lambda>p0. sbind (str_prefix 4 x) (\<lambda>p.
       if p0 \<noteq> p then Inr (Some (''Prefixes must match: %s %s'', [Str x0, Str x])) else same_prefix x0 xs))"

definition check_prefixes :: "string list \<Rightarrow> line option result" where
  "check_prefixes xpubs = (case xpubs of [] \<Rightarrow> Inr None | x0 # xs \<Rightarrow> same_prefix x0 xs)"

text \<open>Ask for the keys and go on with them when their prefixes match.\<close>

definition with_keys :: "int \<Rightarrow> string \<Rightarrow> (line list \<Rightarrow> 'a) \<Rightarrow> (string list \<Rightarrow> 'a result) \<Rightarrow> 'a result" where
  "with_keys n stdin stop go =
     sbind (enter_keys n stdin) (\<lambda>xpubs.
     sbind (check_prefixes xpubs) (\<lambda>r.
     case r of Some l \<Rightarrow> Inr (stop [l]) | None \<Rightarrow> go xpubs))"

text \<open>Unless debugging, the standard input has to be a terminal; \<open>stat\<close> is whether it is.\<close>

definition forbid_pipe :: "bool \<Rightarrow> bool fallible \<Rightarrow> (line list \<Rightarrow> 'a) \<Rightarrow> 'a result \<Rightarrow> 'a result" where
  "forbid_pipe debug stat stop go =
     (if debug then go
      else sbind (PanicOnError stat) (\<lambda>terminal. if terminal then go else Inr (stop [(''Piping stdin forbidden.'', [])])))"

section \<open>keytree and find-address\<close>

definition child_of :: "('k, 'p) btc_lib \<Rightarrow> u32 \<Rightarrow> string \<Rightarrow> string result" where
  "child_of lib path xpub =
     sbind (PanicOnError (NewKeyFromString lib xpub)) (\<lambda>key.
     sbind (PanicOnError (Child lib key path)) (\<lambda>key. Inr (KeyString lib key)))"

definition child_lines :: "string list \<Rightarrow> line list" where
  "child_lines xpubs = map (\<lambda>(i, xpub). (''Child pubkey #%d: %s'', [Num (int i + 1), Str xpub])) (enumerate 0 xpubs)"

definition doKeytree :: "('k, 'p) btc_lib \<Rightarrow> bool \<Rightarrow> bool fallible \<Rightarrow> int \<Rightarrow> u32 list \<Rightarrow> string \<Rightarrow> line list result" where
  "doKeytree lib debug stat n paths stdin =
     forbid_pipe debug stat id (with_keys n stdin id (\<lambda>xpubs.
       sbind (sfold (\<lambda>path. smap (child_of lib path)) paths xpubs) (\<lambda>xpubs. Inr (child_lines xpubs))))"

text \<open>One iteration of the search: the receiving address, then the change address.\<close>

definition find_at :: "('k, 'p) btc_lib \<Rightarrow> AddressDeriver \<Rightarrow> string \<Rightarrow> u32 \<Rightarrow> Address option result" where
  "find_at lib d target i =
     sbind (Derive lib d 0 i) (\<lambda>a0.
     if Address_String a0 = target then Inr (Some a0)
     else sbind (Derive lib d 1 i) (\<lambda>a1. Inr (if Address_String a1 = target then Some a1 else None)))"

function find_from :: "('k, 'p) btc_lib \<Rightarrow> AddressDeriver \<Rightarrow> string \<Rightarrow> u32 \<Rightarrow> Address option result" where
  "find_from lib d target i =
     (if i < 0xffffffff then
        sbind (find_at lib d target i) (\<lambda>r. case r of Some a \<Rightarrow> Inr (Some a) | None \<Rightarrow> find_from lib d target (i + 1))
      else Inr None)"
  by pat_completeness auto
termination
  by (relation "measure (\<lambda>(lib, d, target, i). 0x100000000 - unat i)") (simp_all, frule unat_inc_no_wrap, simp add: word_less_nat_alt)

declare find_from.simps [simp del]

definition doFindAddr ::
    "('k, 'p) btc_lib \<Rightarrow> bool \<Rightarrow> bool fallible \<Rightarrow> int \<Rightarrow> int \<Rightarrow> string \<Rightarrow> string \<Rightarrow> line list result" where
  "doFindAddr lib debug stat m n target stdin =
     sbind (PanicOnError (VerifyMandN m n)) (\<lambda>_.
     forbid_pipe debug stat id (with_keys n stdin id (\<lambda>xpubs.
       sbind (sbind (at_index xpubs 0) XpubToNetwork) (\<lambda>network.
       sbind (find_from lib (NewAddressDeriver network xpubs m []) target 0) (\<lambda>r.
       Inr (case r of
           Some a \<Rightarrow> [(''found: %s %s'', [Str (Path a), Str (Address_String a)])]
         | None \<Rightarrow> [(''not found'', [])]))))))"

section \<open>Building a backend\<close>

datatype 'c some_backend =
    OnElectrum "'c electrum_backend \<times> thread list"
  | OnBtcd btcd_client "btcd_backend \<times> btcd_worker list"
  | OnFixture "fixture_backend \<times> worker"
  | OnRecorder "'c some_backend" "recorder_backend \<times> worker"

fun ChainHeight :: "'c some_backend \<Rightarrow> u32" where
  "ChainHeight (OnElectrum s) = electrum_ChainHeight (fst s)"
| "ChainHeight (OnBtcd client s) = btcd_ChainHeight (fst s)"
| "ChainHeight (OnFixture s) = fixture_ChainHeight (fst s)"
| "ChainHeight (OnRecorder b s) = ChainHeight b"

text \<open>The network and the files: what dialling, the RPC client, opening and reading a file give.\<close>

record 'c world =
  w_conn :: "'c conn_ops"
  w_dial1 :: "(string \<Rightarrow> 'c fallible) \<times> (string \<Rightarrow> 'c fallible)"
  w_dial2 :: "(string \<Rightarrow> 'c fallible) \<times> (string \<Rightarrow> 'c fallible)"
  w_rpc :: "string \<Rightarrow> string \<Rightarrow> string \<Rightarrow> btcd_client fallible"
  w_Open :: "string \<Rightarrow> unit fallible"
  w_index :: "string \<Rightarrow> json_index fallible"

record backend_flags =
  fl_backend :: string
  fl_addr :: string
  fl_rpcuser :: string
  fl_rpcpass :: string
  fl_fixtureFile :: string

definition build_electrum :: "'c world \<Rightarrow> backend_flags \<Rightarrow> network \<Rightarrow> 'c some_backend fallible result" where
  "build_electrum W fl network =
     sbind (GetDefaultServer network Electrum (fl_addr fl)) (\<lambda>(addr, port).
     sbind (NewElectrumBackend (w_conn W) (w_dial1 W) (w_dial2 W) addr port network) (\<lambda>r.
     Inr (map_sum id OnElectrum r)))"

definition build_btcd :: "'c world \<Rightarrow> backend_flags \<Rightarrow> network \<Rightarrow> 'c some_backend fallible result" where
  "build_btcd W fl network =
     sbind (GetDefaultServer network Btcd (fl_addr fl)) (\<lambda>(addr, port).
     sbind (NewBtcdBackend (w_rpc W) addr port (fl_rpcuser fl) (fl_rpcpass fl) network) (\<lambda>r.
     Inr (map_sum id (\<lambda>(client, b). OnBtcd client (btcd_started b)) r)))"

definition build_recorder :: "string \<Rightarrow> 'c some_backend fallible result \<Rightarrow> 'c some_backend fallible result" where
  "build_recorder file r = sbind r (\<lambda>r. Inr (map_sum id (\<lambda>b. OnRecorder b (NewRecorderBackend file, Idle)) r))"

definition computeBalanceBuildBackend :: "'c world \<Rightarrow> backend_flags \<Rightarrow> network \<Rightarrow> 'c some_backend fallible result" where
  "computeBalanceBuildBackend W fl network =
     (if fl_backend fl = ''electrum'' then build_electrum W fl network
      else if fl_backend fl = ''btcd'' then build_btcd W fl network
      else if fl_backend fl = ''electrum-recorder'' then
        (if fl_fixtureFile fl = [] then Inl (Panic ''electrum-recorder backend requires output --fixture-file.'' [])
         else build_recorder (fl_fixtureFile fl) (build_electrum W fl network))
      else if fl_backend fl = ''btcd-recorder'' then
        (if fl_fixtureFile fl = [] then Inl (Panic ''btcd-recorder backend requires output --fixture-file.'' [])
         else build_recorder (fl_fixtureFile fl) (build_btcd W fl network))
      else if fl_backend fl = ''fixture'' then
        (if fl_fixtureFile fl = [] then Inl (Panic ''fixture backend requires input --fixture-file.'' [])
         else Inr (map_sum id (\<lambda>fb. OnFixture (fb, Idle)) (NewFixtureBackend (w_Open W) (w_index W) (fl_fixtureFile fl))))
      else Inr (Inl (Errorf ''unreachable'' [])))"

text \<open>The function for the other command is a copy that reads the other flags.\<close>

definition findBlockBuildBackend :: "'c world \<Rightarrow> backend_flags \<Rightarrow> network \<Rightarrow> 'c some_backend fallible result" where
  "findBlockBuildBackend W fl network = computeBalanceBuildBackend W fl network"

section \<open>find-block\<close>

text \<open>
  \<open>deliver\<close> is how the backend answers a list of requests for headers, \<open>None\<close> a search that does not end.
  The quotes around the times are left out of the lines.
\<close>

definition doFindBlock ::
    "(string \<Rightarrow> go_time fallible) \<Rightarrow> ('c some_backend \<Rightarrow> u32 list \<Rightarrow> BlockResponse list result) \<Rightarrow> bool
      \<Rightarrow> 'c world \<Rightarrow> backend_flags \<Rightarrow> string \<Rightarrow> line list result option" where
  "doFindBlock time_Parse deliver debug W fl timestamp =
     (case sbind (PanicOnError (time_Parse timestamp)) (\<lambda>t.
           sbind (sbind (findBlockBuildBackend W fl Mainnet) PanicOnError) (\<lambda>b. Inr (t, b))) of
        Inl e \<Rightarrow> Some (Inl e)
      | Inr (t, b) \<Rightarrow>
          let bf = blockfinder_New b in
          map_option (\<lambda>r. sbind r (\<lambda>(block, median, timestamp).
            Inr ((''Closest block to %s is block #%d with a median time of %s'', [Num t, Num (uint block), Num median])
              # (if debug then [(''timestamp: %s'', [Num timestamp])] else []))))
            (Search (deliver (bf_backend bf)) (ChainHeight (bf_backend bf)) t))"

section \<open>compute-balance\<close>

definition minConfirmations :: u32 where "minConfirmations = 6"

record flags =
  cb_debug :: bool
  cb_m :: int
  cb_n :: int
  cb_type :: string
  cb_blockHeight :: u32
  cb_lookahead :: u32
  cb_backend :: backend_flags

datatype 'c prepared = Stop "line list" | Run "'c some_backend" AddressDeriver u32

text \<open>\<^verbatim>\<open>doComputeBalance\<close> once it knows the network and the deriver, up to the accounter.\<close>

definition choose_height :: "u32 \<Rightarrow> u32 \<Rightarrow> u32 result" where
  "choose_height blockHeight chainHeight =
     (let h = (if blockHeight = 0 then chainHeight - minConfirmations else blockHeight) in
      if chainHeight - minConfirmations < h
      then Inl (Panic ''blockHeight %d is too high (> %d - %d)'' [Num (uint h), Num (uint chainHeight), Num (uint minConfirmations)])
      else Inr h)"

definition computeBalance_with :: "'c world \<Rightarrow> flags \<Rightarrow> network \<Rightarrow> string list \<Rightarrow> string \<Rightarrow> 'c prepared result" where
  "computeBalance_with W fl network xpubs singleAddress =
     (let d = NewAddressDeriver network xpubs (cb_m fl) singleAddress in
      sbind (sbind (computeBalanceBuildBackend W (cb_backend fl) network) PanicOnError) (\<lambda>b.
      sbind (choose_height (cb_blockHeight fl) (ChainHeight b)) (\<lambda>h. Inr (Run b d h))))"

definition prepareBalance :: "'c world \<Rightarrow> flags \<Rightarrow> bool fallible \<Rightarrow> string \<Rightarrow> 'c prepared result" where
  "prepareBalance W fl stat stdin =
     sbind (PanicOnError (VerifyMandN (cb_m fl) (cb_n fl))) (\<lambda>_.
     forbid_pipe (cb_debug fl) stat Stop
       (if cb_type fl = ''single-address'' then
          (let singleAddress = fst (ReadString (CHR 0x0A) stdin) in
           sbind (AddressToNetwork singleAddress) (\<lambda>network. computeBalance_with W fl network [] singleAddress))
        else with_keys (cb_n fl) stdin Stop (\<lambda>xpubs.
          sbind (sbind (at_index xpubs 0) XpubToNetwork) (\<lambda>network. computeBalance_with W fl network xpubs []))))"

section \<open>Lemmas\<close>

lemma with_keys_Inr:
  "with_keys n stdin stop go = Inr r \<longleftrightarrow>
     (\<exists>xpubs. enter_keys n stdin = Inr xpubs \<and>
        (check_prefixes xpubs = Inr None \<and> go xpubs = Inr r \<or>
         (\<exists>l. check_prefixes xpubs = Inr (Some l) \<and> r = stop [l])))"
  by (auto simp: with_keys_def sbind_Inr_iff split: option.splits)

lemma forbid_pipe_Inr:
  "forbid_pipe debug stat stop go = Inr r \<longleftrightarrow>
     (debug \<or> stat = Inr True) \<and> go = Inr r \<or>
     \<not> debug \<and> stat = Inr False \<and> r = stop [(''Piping stdin forbidden.'', [])]"
  by (cases stat) (auto simp: forbid_pipe_def sbind_Inr_iff PanicOnError_Inr_iff)

lemma length_read_keys [simp]: "length (read_keys n s) = n"
  by (induction n arbitrary: s) (auto split: prod.splits)

lemma enter_keys_Inr: "enter_keys n s = Inr xs \<longleftrightarrow> 0 \<le> n \<and> xs = read_keys (nat n) s"
  by (auto simp: enter_keys_def)

lemma same_prefix_None:
  "same_prefix x0 xs = Inr None \<longleftrightarrow> (\<forall>x\<in>set xs. 4 \<le> length x0 \<and> 4 \<le> length x \<and> take 4 x = take 4 x0)"
  by (induction xs) (auto simp: str_prefix_def sbind_def)

lemma computeBalance_with_Inr:
  "computeBalance_with W fl network xpubs single = Inr p \<longleftrightarrow>
     (\<exists>B h. p = Run B (NewAddressDeriver network xpubs (cb_m fl) single) h \<and>
        computeBalanceBuildBackend W (cb_backend fl) network = Inr (Inr B) \<and>
        choose_height (cb_blockHeight fl) (ChainHeight B) = Inr h)"
  by (auto simp: computeBalance_with_def Let_def sbind_Inr_iff PanicOnError_Inr_iff)

lemma choose_height_Inr:
  "choose_height bh c = Inr h \<longleftrightarrow> h = (if bh = 0 then c - minConfirmations else bh) \<and> h \<le> c - minConfirmations"
  by (auto simp: choose_height_def Let_def not_less)

text \<open>What a run of \<^verbatim>\<open>compute-balance\<close> that gets to the accounter has established.\<close>

lemma prepared:
  assumes "prepareBalance W fl stat stdin = Inr (Run B d h)"
  obtains network xpubs single where "1 \<le> cb_m fl" "cb_m fl \<le> cb_n fl" "cb_n fl \<le> 20"
    "d = NewAddressDeriver network xpubs (cb_m fl) single"
    "computeBalanceBuildBackend W (cb_backend fl) network = Inr (Inr B)"
    "choose_height (cb_blockHeight fl) (ChainHeight B) = Inr h"
    "cb_type fl = ''single-address'' \<Longrightarrow>
       xpubs = [] \<and> single = fst (ReadString (CHR 0x0A) stdin) \<and> AddressToNetwork single = Inr network"
    "cb_type fl \<noteq> ''single-address'' \<Longrightarrow> single = [] \<and> int (length xpubs) = cb_n fl \<and>
       (\<forall>x\<in>set xpubs. XpubToNetwork x = Inr network)"
proof -
  have mn: "1 \<le> cb_m fl" "cb_m fl \<le> cb_n fl" "cb_n fl \<le> 20"
    using assms by (auto simp: prepareBalance_def sbind_Inr_iff PanicOnError_Inr_iff VerifyMandN_def split: if_splits)
  show ?thesis
  proof (cases "cb_type fl = ''single-address''")
    case True
    then obtain network where n: "AddressToNetwork (fst (ReadString (CHR 0x0A) stdin)) = Inr network"
      and c: "computeBalance_with W fl network [] (fst (ReadString (CHR 0x0A) stdin)) = Inr (Run B d h)"
      using assms by (auto simp: prepareBalance_def forbid_pipe_Inr sbind_Inr_iff Let_def)
    show ?thesis by (rule that [OF mn]) (use True n c in \<open>auto simp: computeBalance_with_Inr\<close>)
  next
    case False
    let ?xs = "read_keys (nat (cb_n fl)) stdin"
    have len: "int (length ?xs) = cb_n fl" using mn by simp
    then obtain x0 xs where x: "?xs = x0 # xs" using mn by (cases ?xs) auto
    obtain network where n: "XpubToNetwork x0 = Inr network" and c: "computeBalance_with W fl network ?xs [] = Inr (Run B d h)"
      and p: "same_prefix x0 xs = Inr None"
      using assms False x
      by (auto simp: prepareBalance_def forbid_pipe_Inr sbind_Inr_iff with_keys_Inr enter_keys_Inr at_index_Inr_iff check_prefixes_def)
    have "\<forall>x\<in>set ?xs. XpubToNetwork x = Inr network"
      using n p unfolding x by (auto simp: same_prefix_None XpubToNetwork_def str_prefix_def split: if_splits)
    then show ?thesis by (intro that [OF mn]) (use False len c in \<open>auto simp: computeBalance_with_Inr\<close>)
  qed
qed

section \<open>Properties of the input\<close>

text \<open>
  C35: what \<^verbatim>\<open>compute-balance\<close> hands to the accounter is well formed.  The quorum is at least one and at
  most the number of keys, of which there are at most twenty; all keys have the prefix of the network the
  backend was built for; and for a single address there are no keys.
\<close>

theorem prepared_is_well_formed:
  assumes "prepareBalance W fl stat stdin = Inr (Run B d h)"
  shows "d_network d \<in> {Mainnet, Testnet} \<and> 1 \<le> d_m d \<and> d_m d \<le> cb_n fl \<and> cb_n fl \<le> 20 \<and>
    computeBalanceBuildBackend W (cb_backend fl) (d_network d) = Inr (Inr B) \<and>
    (if cb_type fl = ''single-address''
     then d_xpubs d = [] \<and> AddressToNetwork (d_singleAddress d) = Inr (d_network d)
     else d_singleAddress d = [] \<and> int (length (d_xpubs d)) = cb_n fl \<and>
       (\<forall>x\<in>set (d_xpubs d). XpubToNetwork x = Inr (d_network d)))"
proof -
  obtain network xpubs single where a: "1 \<le> cb_m fl" "cb_m fl \<le> cb_n fl" "cb_n fl \<le> 20"
    "d = NewAddressDeriver network xpubs (cb_m fl) single"
    "computeBalanceBuildBackend W (cb_backend fl) network = Inr (Inr B)"
    and s: "cb_type fl = ''single-address'' \<Longrightarrow> xpubs = [] \<and> AddressToNetwork single = Inr network"
    and x: "cb_type fl \<noteq> ''single-address'' \<Longrightarrow> single = [] \<and> int (length xpubs) = cb_n fl \<and>
       (\<forall>x\<in>set xpubs. XpubToNetwork x = Inr network)"
    by (rule prepared [OF assms]) blast
  have "network \<in> {Mainnet, Testnet}"
  proof (cases "cb_type fl = ''single-address''")
    case True
    then show ?thesis using s AddressToNetwork_range by blast
  next
    case False
    then have "xpubs \<noteq> []" using x a(1,2) by auto
    then have "XpubToNetwork (hd xpubs) = Inr network" using x False by simp
    then show ?thesis by (rule XpubToNetwork_range)
  qed
  then show ?thesis using a s x by (simp add: NewAddressDeriver_def)
qed

text \<open>
  C36: the height a balance is computed at.  On a chain of at least six blocks it is at least six below
  the height of the chain, and it is the one that was asked for, or exactly six below when none was;
  on a shorter chain the subtraction wraps around and the balance is computed at a height of more than
  four billion.
\<close>

theorem balance_height_is_confirmed:
  assumes "prepareBalance W fl stat stdin = Inr (Run B d h)"
  shows "(6 \<le> ChainHeight B \<longrightarrow> unat h + 6 \<le> unat (ChainHeight B)) \<and>
    (cb_blockHeight fl \<noteq> 0 \<longrightarrow> h = cb_blockHeight fl) \<and>
    (cb_blockHeight fl = 0 \<longrightarrow>
       unat h = (if 6 \<le> ChainHeight B then unat (ChainHeight B) - 6 else 2 ^ 32 + unat (ChainHeight B) - 6))"
proof -
  have "choose_height (cb_blockHeight fl) (ChainHeight B) = Inr h" by (rule prepared [OF assms])
  then have h: "h = (if cb_blockHeight fl = 0 then ChainHeight B - 6 else cb_blockHeight fl)" "h \<le> ChainHeight B - 6"
    unfolding choose_height_Inr minConfirmations_def by blast+
  have "unat (ChainHeight B - 6) = (if 6 \<le> ChainHeight B then unat (ChainHeight B) - 6 else 2 ^ 32 + unat (ChainHeight B) - 6)"
    by (simp add: unat_sub_if' word_le_nat_alt)
  then show ?thesis using h by (cases "cb_blockHeight fl = 0"; cases "6 \<le> ChainHeight B") (simp_all add: word_le_nat_alt)
qed


section \<open>The search\<close>

lemma isl_sbind: "(\<And>x. isl (f x)) \<Longrightarrow> isl (sbind r f)"
  by (cases r) simp_all

lemma isl_sbind_left: "isl r \<Longrightarrow> isl (sbind r f)"
  by (cases r) simp_all

lemma isl_PanicOnError [simp]: "isl (PanicOnError r) = isl r"
  by (cases r) (auto simp: PanicOnError_def)

lemma hardened_panics:
  assumes "\<And>k. isl (Child lib k i)" and "xpubs \<noteq> []"
  shows "isl (Derive lib (NewAddressDeriver network xpubs m []) c i)"
proof -
  have key: "isl (childKey lib x c i)" for x
    unfolding childKey_def by (intro isl_sbind) (simp add: assms(1))
  obtain x xs where x: "xpubs = x # xs" using assms(2) by (cases xpubs) auto
  have "isl (singleDerive lib d c i)" for d
    unfolding singleDerive_def by (intro isl_sbind isl_sbind_left key)
  moreover have "isl (multiSigSegwitDerive lib (NewAddressDeriver network (x # xs) m []) c i)"
    unfolding multiSigSegwitDerive_def by (intro isl_sbind_left) (simp add: NewAddressDeriver_def pubKeyBytes_def isl_sbind_left key)
  ultimately show ?thesis
    by (simp add: Derive_def x NewAddressDeriver_def isl_sbind_left Let_def)
qed

definition no_match :: "('k, 'p) btc_lib \<Rightarrow> AddressDeriver \<Rightarrow> string \<Rightarrow> u32 \<Rightarrow> u32 \<Rightarrow> bool" where
  "no_match lib d target c i \<longleftrightarrow> (case Derive lib d c i of Inl _ \<Rightarrow> False | Inr a \<Rightarrow> Address_String a \<noteq> target)"

lemma find_at_Inr:
  "find_at lib d target i = Inr r \<longleftrightarrow>
     (case r of None \<Rightarrow> no_match lib d target 0 i \<and> no_match lib d target 1 i
      | Some a \<Rightarrow> Address_String a = target \<and> (Derive lib d 0 i = Inr a \<or> no_match lib d target 0 i \<and> Derive lib d 1 i = Inr a))"
  by (cases "Derive lib d 0 i"; cases "Derive lib d 1 i"; cases r) (auto simp: find_at_def no_match_def)

text \<open>The match of \<open>find_from\<close> is the first one, by index and then by change.\<close>

definition first_match :: "('k, 'p) btc_lib \<Rightarrow> AddressDeriver \<Rightarrow> string \<Rightarrow> u32 \<Rightarrow> u32 \<Rightarrow> u32 \<Rightarrow> Address \<Rightarrow> bool" where
  "first_match lib d target i0 c i a \<longleftrightarrow>
     (c = 0 \<or> c = 1) \<and> i0 \<le> i \<and> Derive lib d c i = Inr a \<and> Address_String a = target \<and>
     (\<forall>j c'. i0 \<le> j \<longrightarrow> c' = 0 \<or> c' = 1 \<longrightarrow> j < i \<or> j = i \<and> c' < c \<longrightarrow> no_match lib d target c' j)"

lemma first_match_Suc:
  assumes "first_match lib d target (i + 1) c j a" and "find_at lib d target i = Inr None" and "i < i + 1"
  shows "first_match lib d target i c j a"
proof -
  have "k = i \<or> i + 1 \<le> k" if "i \<le> k" for k using that inc_le [of i k] by (cases "k = i") auto
  then show ?thesis using assms unfolding first_match_def find_at_Inr by fastforce
qed

lemma find_from_first:
  assumes "find_from lib d target i = Inr r" and "i \<le> 0x80000000"
    and "\<And>i. 0x80000000 \<le> i \<Longrightarrow> isl (Derive lib d 0 i)"
  shows "\<exists>c j a. r = Some a \<and> j < 0x80000000 \<and> first_match lib d target i c j a"
  using assms
proof (induction lib d target i rule: find_from.induct)
  case (1 lib d target i)
  have i: "i < 0xffffffff" using "1.prems"(2) by (rule le_less_trans) simp
  then obtain r' where r': "find_at lib d target i = Inr r'"
    and go: "(case r' of Some a \<Rightarrow> Inr (Some a) | None \<Rightarrow> find_from lib d target (i + 1)) = Inr r"
    using "1.prems"(1) by (subst (asm) find_from.simps) (auto simp: sbind_Inr_iff)
  have "\<not> isl (Derive lib d 0 i)" using r' by (auto simp: find_at_def sbind_Inr_iff)
  then have lt: "i < 0x80000000" using "1.prems"(2,3) by (meson not_le)
  show ?case
  proof (cases r')
    case None
    have "i + 1 \<le> 0x80000000" by (rule inc_le [OF lt])
    moreover have "i < i + 1" using unat_inc_no_wrap [OF i] by (simp add: word_less_nat_alt)
    ultimately show ?thesis
      using "1.IH" [OF i r' None _ _ "1.prems"(3)] go first_match_Suc r' unfolding None by fastforce
  next
    case (Some a)
    have "\<exists>c. first_match lib d target i c i a"
    proof (cases "Derive lib d 0 i = Inr a")
      case True
      then have "first_match lib d target i 0 i a" using r' Some by (auto simp: find_at_Inr first_match_def)
      then show ?thesis ..
    next
      case False
      then have "first_match lib d target i 1 i a" using r' Some by (auto simp: find_at_Inr first_match_def)
      then show ?thesis ..
    qed
    then show ?thesis using go Some lt by auto
  qed
qed

section \<open>Deriving keys one by one\<close>

text \<open>A key derived along a path without being printed and read again on the way.\<close>

definition derived_key :: "('k, 'p) btc_lib \<Rightarrow> u32 list \<Rightarrow> string \<Rightarrow> string result" where
  "derived_key lib paths xpub =
     sbind (PanicOnError (NewKeyFromString lib xpub)) (\<lambda>key.
     sbind (sfold (\<lambda>i key. PanicOnError (Child lib key i)) paths key) (\<lambda>key. Inr (KeyString lib key)))"

lemma derived_key_step:
  assumes "\<And>k. NewKeyFromString lib (KeyString lib k) = Inr k"
  shows "derived_key lib [i] = child_of lib i"
    "derived_key lib (i # ps) x = Inr z \<longleftrightarrow> (\<exists>y. child_of lib i x = Inr y \<and> derived_key lib ps y = Inr z)"
  by (auto simp: derived_key_def child_of_def sbind_Inr_iff PanicOnError_Inr_iff assms fun_eq_iff)
    (simp add: sbind_def split: sum.splits)

lemma keys_derived:
  assumes "\<And>k. NewKeyFromString lib (KeyString lib k) = Inr k" and "paths \<noteq> []"
  shows "sfold (\<lambda>path. smap (child_of lib path)) paths xpubs = Inr ys \<longleftrightarrow> smap (derived_key lib paths) xpubs = Inr ys"
  using assms(2)
proof (induction paths arbitrary: xpubs rule: induct_list012)
  case (2 i)
  then show ?case by (auto simp: derived_key_step [OF assms(1)] sbind_Inr_iff)
next
  case (3 i j ps)
  have "list_all2 (\<lambda>x z. derived_key lib (i # j # ps) x = Inr z)
      = list_all2 ((\<lambda>x y. child_of lib i x = Inr y) OO (\<lambda>y z. derived_key lib (j # ps) y = Inr z))"
    by (simp add: relcompp_apply derived_key_step(2) [OF assms(1), of i "j # ps"] fun_eq_iff OO_def)
  then show ?case
    using 3(2) by (auto simp: sbind_Inr_iff smap_Inr_iff list.rel_compp relcompp_apply)
qed simp

section \<open>Properties\<close>

text \<open>
  C38: \<^verbatim>\<open>find-address\<close> finds the first match.  When it ends without a panic it has refused the input or
  prints an address of the wallet that is the one looked for, at an index below 2^31, and every
  address that is tried before it (by index, the receiving address first) is another one.  It never
  prints that the address was not found: the search panics at the first hardened index.
\<close>

theorem find_address_first_match:
  assumes "doFindAddr lib debug stat m n target stdin = Inr ls"
    and "\<And>k i. 0x80000000 \<le> i \<Longrightarrow> isl (Child lib k i)"
  shows "(\<not> debug \<and> ls = [(''Piping stdin forbidden.'', [])]) \<or>
    (\<exists>x\<in>set (read_keys (nat n) stdin). \<exists>y\<in>set (read_keys (nat n) stdin).
       take 4 x \<noteq> take 4 y \<and> ls = [(''Prefixes must match: %s %s'', [Str x, Str y])]) \<or>
    (\<exists>network c i a.
       XpubToNetwork (hd (read_keys (nat n) stdin)) = Inr network \<and> i < 0x80000000 \<and>
       first_match lib (NewAddressDeriver network (read_keys (nat n) stdin) m []) target 0 c i a \<and>
       ls = [(''found: %s %s'', [Str (derive_path c i), Str target])])"
proof -
  let ?xs = "read_keys (nat n) stdin"
  have mn: "1 \<le> m" "m \<le> n"
    using assms(1) by (auto simp: doFindAddr_def sbind_Inr_iff PanicOnError_Inr_iff VerifyMandN_def split: if_splits)
  have "length ?xs = nat n" by simp
  then obtain x0 xs where x: "?xs = x0 # xs" using mn by (cases ?xs) auto
  consider (piped) "\<not> debug" "ls = [(''Piping stdin forbidden.'', [])]"
    | (mismatch) l where "same_prefix x0 xs = Inr (Some l)" "ls = [l]"
    | (search) network r where "XpubToNetwork x0 = Inr network"
      "find_from lib (NewAddressDeriver network ?xs m []) target 0 = Inr r"
      "ls = (case r of Some a \<Rightarrow> [(''found: %s %s'', [Str (Path a), Str (Address_String a)])] | None \<Rightarrow> [(''not found'', [])])"
    using assms(1) x
    by (auto simp: doFindAddr_def sbind_Inr_iff forbid_pipe_Inr with_keys_Inr enter_keys_Inr at_index_Inr_iff check_prefixes_def)
  then show ?thesis
  proof cases
    case mismatch
    have "\<exists>y\<in>set xs. take 4 x0 \<noteq> take 4 y \<and> l = (''Prefixes must match: %s %s'', [Str x0, Str y])"
      using mismatch(1) by (induction xs) (auto simp: str_prefix_def sbind_Inr_iff split: if_splits)
    then show ?thesis using mismatch(2) unfolding x by auto
  next
    case search
    have "?xs \<noteq> []" by (simp add: x)
    then have "isl (Derive lib (NewAddressDeriver network ?xs m []) 0 i)" if "0x80000000 \<le> i" for i
      using hardened_panics assms(2) [OF that] by blast
    from find_from_first [OF search(2) _ this] obtain c j a where a: "r = Some a" "j < 0x80000000"
      "first_match lib (NewAddressDeriver network ?xs m []) target 0 c j a" by auto
    then have "Path a = derive_path c j" "Address_String a = target"
      using Derive_metadata [of lib "NewAddressDeriver network ?xs m []" c j a] by (auto simp: first_match_def NewAddressDeriver_def)
    then show ?thesis using a search by (auto simp: x)
  qed auto
qed

text \<open>
  C39: \<^verbatim>\<open>keytree\<close> derives each key along the path.  Although it goes step by step through all the keys, and
  writes every key as text and reads it again between two steps, what it prints is what deriving each
  key along the whole path gives, and it panics only when that does.
\<close>

theorem keytree_derives_each_key:
  assumes "\<And>k. NewKeyFromString lib (KeyString lib k) = Inr k" and "paths \<noteq> []"
  shows "doKeytree lib debug stat n paths stdin = Inr ls \<longleftrightarrow>
    forbid_pipe debug stat id (with_keys n stdin id (\<lambda>xpubs.
      sbind (smap (derived_key lib paths) xpubs) (\<lambda>xpubs. Inr (child_lines xpubs)))) = Inr ls"
  unfolding doKeytree_def forbid_pipe_Inr with_keys_Inr sbind_Inr_iff keys_derived [OF assms] ..

section \<open>A wallet on the command line\<close>

text \<open>The fixture of \<open>demo_index\<close>, and one key typed by the user.\<close>

definition demo_world :: "string \<Rightarrow> (string list \<times> bool) world" where
  "demo_world txhex = \<lparr>w_conn = scripted (\<lambda>_. answer 1 JNull), w_dial1 = (\<lambda>_. Inl ErrNetwork, \<lambda>_. Inl ErrNetwork),
     w_dial2 = (\<lambda>_. Inl ErrNetwork, \<lambda>_. Inl ErrNetwork), w_rpc = (\<lambda>_ _ _. Inl ErrNetwork), w_Open = (\<lambda>_. Inr ()),
     w_index = (\<lambda>_. Inr (demo_index txhex))\<rparr>"

definition demo_flags :: flags where
  "demo_flags = \<lparr>cb_debug = False, cb_m = 1, cb_n = 1, cb_type = ''multisig'', cb_blockHeight = 25, cb_lookahead = 2,
     cb_backend = \<lparr>fl_backend = ''fixture'', fl_addr = [], fl_rpcuser = [], fl_rpcpass = [], fl_fixtureFile = ''f''\<rparr>\<rparr>"

definition typed :: "string \<Rightarrow> string" where "typed s = s @ [CHR 0x0A]"

lemma demo_keys: "read_keys (Suc 0) (typed ''tpubA'') = [''tpubA'']"
  by code_simp

declare read_keys.simps [simp del]

lemma demo_entered: "enter_keys 1 (typed ''tpubA'') = Inr [''tpubA'']"
  by (simp add: enter_keys_def demo_keys)

lemma demo_built: "computeBalanceBuildBackend (demo_world txhex) (cb_backend demo_flags) network
    = Inr (Inr (OnFixture (fixture_started (demo_index txhex))))"
proof -
  have "NewFixtureBackend (w_Open (demo_world txhex)) (w_index (demo_world txhex)) ''f'' = Inr (fixture_of (demo_index txhex))"
    by (simp add: NewFixtureBackend_Inr_iff demo_world_def)
  then show ?thesis by (simp add: computeBalanceBuildBackend_def demo_flags_def)
qed

lemma demo_prepared: "prepareBalance (demo_world txhex) demo_flags (Inr True) (typed ''tpubA'')
    = Inr (Run (OnFixture (fixture_started (demo_index txhex))) demo_deriver 25)"
proof -
  have h: "fixture_ChainHeight (fixture_of (demo_index txhex)) = 1000"
    by (simp add: fixture_ChainHeight_def fixture_of_simps demo_index_def)
  have "computeBalance_with (demo_world txhex) demo_flags Testnet [''tpubA''] []
      = Inr (Run (OnFixture (fixture_started (demo_index txhex))) demo_deriver 25)"
    unfolding computeBalance_with_Inr demo_built
    by (simp add: h choose_height_Inr minConfirmations_def demo_flags_def demo_deriver_def)
  then show ?thesis
    by (simp add: prepareBalance_def demo_flags_def VerifyMandN_def forbid_pipe_def with_keys_def demo_entered
        check_prefixes_def at_index_def XpubToNetwork_def str_prefix_def)
qed

theorem prepared_is_well_formed_witness:
  "d_network demo_deriver \<in> {Mainnet, Testnet} \<and> int (length (d_xpubs demo_deriver)) = 1"
  using prepared_is_well_formed [OF demo_prepared [of "[]"]] by (simp add: demo_flags_def)

theorem balance_height_is_confirmed_witness:
  "unat (25 :: u32) + 6 \<le> unat (ChainHeight (OnFixture (fixture_started (demo_index [])) :: (string list \<times> bool) some_backend))"
  using balance_height_is_confirmed [OF demo_prepared [of "[]"]]
  by (simp add: fixture_ChainHeight_def fixture_of_simps demo_index_def demo_flags_def)

theorem keytree_derives_each_key_witness:
  "\<exists>ls. doKeytree demo_lib False (Inr True) 1 [1, 2] (typed ''tpubA'') = Inr ls \<and> length ls = 1"
proof -
  have "of_char (char_of (unat x)) = x" for x :: u8
    using of_nat_of_char [of "char_of (unat x)", where 'a = "8 word"] unsigned_less [of x, where ?'a = nat] by simp
  then have law: "NewKeyFromString demo_lib (KeyString demo_lib k) = Inr k" for k
    by (simp add: demo_lib_def sample_lib_def comp_def)
  have ok: "derived_key demo_lib [1, 2] ''tpubA'' = Inr (''tpub'' @ KeyString sample_lib [0x41, 1, 2])" by code_simp
  show ?thesis
    unfolding keytree_derives_each_key [of demo_lib "[1, 2]", OF law list.distinct(2)]
    by (simp add: forbid_pipe_Inr with_keys_Inr demo_entered check_prefixes_def ok child_lines_def)
qed

theorem find_address_first_match_witness:
  "\<exists>c i a. first_match (demo_lib\<lparr>Child := (\<lambda>k i. if 0x80000000 \<le> i then Inl (Errorf ''hardened'' []) else Inr (k @ [ucast i]))\<rparr>)
     demo_deriver ''410100'' 0 c i a"
proof -
  let ?lib = "demo_lib\<lparr>Child := (\<lambda>k i. if 0x80000000 \<le> i then Inl (Errorf ''hardened'' []) else Inr (k @ [ucast i]))\<rparr>"
  obtain a where "find_at ?lib demo_deriver ''410100'' 0 = Inr (Some a)"
  proof -
    have "(case find_at ?lib demo_deriver ''410100'' 0 of Inr (Some a) \<Rightarrow> True | _ \<Rightarrow> False)" by code_simp
    then show ?thesis using that by (auto split: sum.splits option.splits)
  qed
  then have f: "find_from ?lib demo_deriver ''410100'' 0 = Inr (Some a)" by (subst find_from.simps) simp
  have "doFindAddr ?lib True (Inr True) 1 1 ''410100'' (typed ''tpubA'') = Inr [(''found: %s %s'', [Str (Path a), Str (Address_String a)])]"
    using f by (simp add: doFindAddr_def VerifyMandN_def forbid_pipe_def with_keys_def demo_entered
        check_prefixes_def at_index_def XpubToNetwork_def str_prefix_def demo_deriver_def)
  from find_address_first_match [OF this] show ?thesis
    by (auto simp: demo_keys XpubToNetwork_def str_prefix_def demo_deriver_def)
qed

end
