(* ===== verification/BtcdBalance.thy ===== *)
theory BtcdBalance
  imports ComputeBalance Btcd
begin

text \<open>
  \<^verbatim>\<open>ComputeBalance\<close> of \<^verbatim>\<open>accounter/accounter.go\<close> over the workers of \<^verbatim>\<open>backend/btcd_backend.go\<close>: the end to
  end theorem, an executable schedule of the pool and a wallet on which it is run.
\<close>

abbreviation btcd_program ::
    "('k, 'p) btc_lib \<Rightarrow> btcd_client \<Rightarrow> (btcd_backend \<times> btcd_worker list) fetch
      \<Rightarrow> (btcd_backend \<times> btcd_worker list) fetch \<Rightarrow> bool" where
  "btcd_program lib client \<equiv>
     fetch_step lib (btcd_processRequests lib client) bd_addr_send bd_addr_recv bd_tx_send bd_tx_recv"

section \<open>An executable schedule\<close>

text \<open>The first worker of the pool does all the work; an idle one takes an address first.\<close>

definition run_worker ::
    "('k, 'p) btc_lib \<Rightarrow> btcd_client \<Rightarrow> btcd_backend \<Rightarrow> btcd_worker \<Rightarrow> (btcd_backend \<times> btcd_worker) option" where
  "run_worker lib client b w =
     (case w of
        BIdle \<Rightarrow> (case bb_addrRequests b of a # q \<Rightarrow> Some (b\<lparr>bb_addrRequests := q\<rparr>, BAddr a)
          | [] \<Rightarrow> (case bb_txRequests b of h # q \<Rightarrow> Some (b\<lparr>bb_txRequests := q\<rparr>, BTx h) | [] \<Rightarrow> None))
      | BAddr a \<Rightarrow> Some (b, after_search a (searchAddr lib client a))
      | BCaching a hs [] \<Rightarrow> Some (b, BSendAddr \<lparr>ar_Address = a, ar_TxHashes = hs\<rparr>)
      | BCaching a hs (tx # txs) \<Rightarrow>
          (case bb_cachedTransactions b (rt_Txid tx) of
             None \<Rightarrow> Some (b, BHeight a hs tx txs)
           | Some _ \<Rightarrow> Some (b, BSendAddr \<lparr>ar_Address = a, ar_TxHashes = hs\<rparr>))
      | BHeight a hs tx txs \<Rightarrow>
          (case getBlockHeight client (rt_BlockHash tx) (bb_blockHeightLookup b) of
             Inr (height, lookup) \<Rightarrow> Some (b\<lparr>bb_blockHeightLookup := lookup\<rparr>,
               BStore a hs \<lparr>tr_Hash = rt_Txid tx, tr_Height = height, tr_Hex = rt_Hex tx\<rparr> txs)
           | Inl _ \<Rightarrow> None)
      | BStore a hs t txs \<Rightarrow> Some (b\<lparr>bb_cachedTransactions := (bb_cachedTransactions b)(tr_Hash t \<mapsto> t)\<rparr>, BCaching a hs txs)
      | BSendAddr r \<Rightarrow>
          if length (bb_addrResponses b) < addrRequestsChanSize
          then Some (b\<lparr>bb_addrResponses := bb_addrResponses b @ [r]\<rparr>, BIdle) else None
      | BTx h \<Rightarrow> (case bb_cachedTransactions b h of Some t \<Rightarrow> Some (b, BSendTx t) | None \<Rightarrow> Some (b, BFetchTx h))
      | BSendTx t \<Rightarrow>
          if length (bb_txResponses b) < 2 * maxTxsPerAddr
          then Some (b\<lparr>bb_txResponses := bb_txResponses b @ [t]\<rparr>, BIdle) else None
      | _ \<Rightarrow> None)"

lemma run_worker_sound: "run_worker lib client b w = Some (b', w') \<Longrightarrow> btcd_worker_step lib client (b, w) (b', w')"
  by (auto simp: run_worker_def split: btcd_worker.splits list.splits option.splits sum.splits if_splits
      intro: btcd_worker_step.intros btcd_worker_step.cached [unfolded not_None_eq])

definition btcd_ops :: "('k, 'p) btc_lib \<Rightarrow> btcd_client \<Rightarrow> (btcd_backend \<times> btcd_worker list) ops" where
  "btcd_ops lib client =
     \<lparr>op_addr_send = (\<lambda>a (b, ws). map_option (\<lambda>b. (b, ws)) (btcd_addr_send a b)),
      op_addr_recv = (\<lambda>(b, ws). map_option (\<lambda>(r, b). (r, b, ws)) (btcd_addr_recv b)),
      op_tx_send = (\<lambda>h (b, ws). map_option (\<lambda>b. (b, ws)) (btcd_tx_send h b)),
      op_tx_recv = (\<lambda>(b, ws). map_option (\<lambda>(t, b). (t, b, ws)) (btcd_tx_recv b)),
      op_work = (\<lambda>(b, ws). case ws of [] \<Rightarrow> None
        | w # rest \<Rightarrow> map_option (\<lambda>(b, w). (b, w # rest)) (run_worker lib client b w))\<rparr>"

interpretation btcd_sched: scheduler "btcd_processRequests lib client" bd_addr_send bd_addr_recv bd_tx_send bd_tx_recv
    "btcd_ops lib client"
  for lib client
proof
  fix b b'
  assume "op_work (btcd_ops lib client) b = Some b'"
  then obtain c w rest c' w' where "b = (c, w # rest)" "b' = (c', w' # rest)" and "run_worker lib client c w = Some (c', w')"
    by (auto simp: btcd_ops_def split: prod.splits list.splits)
  then show "btcd_processRequests lib client b b'"
    using btcd_processRequests.worker [of 0 "w # rest" lib client c c' w'] by (simp add: run_worker_sound)
qed (auto simp: btcd_ops_def split: prod.splits)

section \<open>A wallet on a btcd node\<close>

definition demo_raw :: "string \<Rightarrow> raw_tx" where
  "demo_raw txhex = \<lparr>rt_Txid = ''aa'', rt_BlockHash = ''bb'', rt_Hex = txhex\<rparr>"

definition demo_node :: "string \<Rightarrow> btcd_client" where
  "demo_node txhex = (empty_node 1000)
     \<lparr>GetBlockVerbose := (\<lambda>h. Inr 10),
      GetRawTransactionVerbose := (\<lambda>h. Inr (demo_raw txhex)),
      SearchRawTransactionsVerbose := (\<lambda>a skip count. if ScriptAddress a = [0x41, 0, 1] then Inr [demo_raw txhex]
        else Inl (RPCError (-5) ''No information available about address''))\<rparr>"

definition demo_btcd :: "string \<Rightarrow> btcd_backend" where
  "demo_btcd txhex = snd (projr (projr (NewBtcdBackend (\<lambda>_ _ _. Inr (demo_node txhex)) ''localhost'' ''18334'' ''u'' ''p'' Testnet)))"

definition demo_btcd_run :: "string \<Rightarrow> (btcd_backend \<times> btcd_worker list) fetch" where
  "demo_btcd_run txhex = run demo_lib (btcd_ops demo_lib (demo_node txhex)) 200
     (fetch_start (New demo_deriver 2 25) new_reporter (btcd_started (demo_btcd txhex)))"

lemma demo_btcd_observed: "observed (demo_btcd_run txhex) = (Returned, False, [3, 2])"
  by code_simp


lemma demo_btcd_state:
  "f_receiver (demo_btcd_run txhex) = Returned" "\<not> panicked (demo_btcd_run txhex)"
  "ac_lastAddresses (f_acc (demo_btcd_run txhex)) = [3, 2]"
  using demo_btcd_observed [of txhex] by (simp_all add: observed_def)

lemma demo_btcd_reached:
  "(btcd_program demo_lib (demo_node txhex))\<^sup>*\<^sup>*
     (fetch_start (New demo_deriver 2 25) new_reporter (btcd_started (demo_btcd txhex))) (demo_btcd_run txhex)"
  unfolding demo_btcd_run_def by (rule btcd_sched.run_sound)

lemma demo_btcd_new:
  "NewBtcdBackend (\<lambda>_ _ _. Inr (demo_node txhex)) ''localhost'' ''18334'' ''u'' ''p'' Testnet
     = Inr (Inr (demo_node txhex, demo_btcd txhex))"
proof -
  have e: "GenesisBlock Testnet = Inr (Hash_String (projr (GetBlockHash (empty_node 1000) 0)))" by code_simp
  have "GetBlockHash (demo_node txhex) 0 = Inr (projr (GetBlockHash (empty_node 1000) 0))"
    "GetBlockCount (demo_node txhex) = Inr 1000"
    by (simp_all add: demo_node_def empty_node_def)
  then show ?thesis by (simp add: NewBtcdBackend_def demo_btcd_def e)
qed

lemma demo_search:
  assumes "a \<in> set demo_addresses"
  shows "\<exists>b \<in> {(0, 0), (0, 1), (0, 2), (1, 0), (1, 1)}. Address_Script demo_lib a = Inr (demo_script b) \<and>
    btcd_addr_answer demo_lib (demo_node txhex) a = \<lparr>ar_Address = a, ar_TxHashes = if b = (0, 1) then [''aa''] else []\<rparr> \<and>
    unat (Change a) < 2"
proof -
  let ?f = "\<lambda>a. (Address_Script demo_lib a, btcd_addr_answer demo_lib (demo_node txhex) a, unat (Change a) < 2)"
  let ?g = "\<lambda>(a, b). (Inr (demo_script b), \<lparr>ar_Address = a, ar_TxHashes = if b = (0, 1) then [''aa''] else []\<rparr>, True)"
  let ?bs = "[(0, 0), (0, 1), (0, 2), (1, 0), (1, 1)]"
  have "map ?f demo_addresses = map ?g (zip demo_addresses ?bs)"
    by code_simp
  then have eq: "map ?f demo_addresses = map ?g (zip demo_addresses ?bs)" .
  have "length demo_addresses = length ?bs" by (simp add: demo_addresses_def asked_change_def)
  moreover obtain i where "i < length demo_addresses" "a = demo_addresses ! i"
    using assms by (auto simp: in_set_conv_nth)
  ultimately have "?f a = ?g (a, ?bs ! i)" and "?bs ! i \<in> set ?bs"
    using arg_cong [OF eq, of "\<lambda>xs. xs ! i"] by (simp_all del: list.set)
  then obtain b where f: "?f a = ?g (a, b)" and b: "b \<in> set ?bs" by blast
  show ?thesis
    by (rule bexI [of _ b]) (use f b in \<open>simp_all only: prod.inject prod.case list.set simp_thms\<close>)
qed


lemma demo_node_ok: "node_ok demo_lib (demo_node txhex)"
proof -
  have "NewHashFromStr ''aa'' = Inr (0xaa # replicate 31 0)" by code_simp
  then have "node_tx (demo_node txhex) ''aa'' = Some (demo_raw txhex)"
    by (simp add: node_tx_def demo_node_def)
  moreover have "tx = demo_raw txhex"
    if "searchAddr demo_lib (demo_node txhex) a = Inr (Inr (Some txs))" "tx \<in> set txs" for a txs tx
    using that by (auto simp: searchAddr_def demo_node_def sbind_Inr_iff split: if_splits)
  moreover have "rt_Txid (demo_raw txhex) = ''aa''" by (simp add: demo_raw_def)
  ultimately show ?thesis unfolding node_ok_def by metis
qed

lemma demo_btcd_fits: "counts_fit demo_lib demo_deriver (btcd_addr_answer demo_lib (demo_node txhex)) [3, 2]"
proof -
  have "length (ar_TxHashes (btcd_addr_answer demo_lib (demo_node txhex) a)) \<le> 1" for a
    by (auto simp: btcd_addr_answer_def searchAddr_def demo_node_def sbind_Inr_iff split: sum.splits option.splits if_splits)
  then show ?thesis
    using short_answers [of "btcd_addr_answer demo_lib (demo_node txhex)" "asked demo_lib demo_deriver [3, 2]"]
    by (simp add: counts_fit_def answers_def size_asked)
qed

text \<open>
  C21: the balance of a wallet on a btcd node.  Over a node of the right chain whose address histories
  are made of its own transactions and tell the truth about a ledger, the only thing
  \<open>ComputeBalance\<close> can give is the sum of the wallet's confirmed unspent coins, whatever the
  interleaving of the accounter and the hundred workers, and although the cache is filled only in
  part.
\<close>

theorem btcd_wallet_balance:
  assumes "NewBtcdBackend rpc_New host port user pass network = Inr (Inr (client, b))" and "node_ok lib client"
    and "ComputeBalance (btcd_program lib client) (fetch_start (New d la bh) rep (btcd_started b)) r"
    and "least_bounds lib d la (btcd_addr_answer lib client) K"
    and "servable lib d (btcd_addr_answer lib client) K"
    and "counts_fit lib d (btcd_addr_answer lib client) K"
    and "truthful lib d L (btcd_addr_answer lib client) (btcd_tx_answer client) K"
    and "valid_history (wallet_scripts lib d K) (confirmed bh L)"
    and "amounts_ok (wallet_scripts lib d K) (confirmed bh L)"
  shows "\<exists>w. r = Inr w \<and>
    uint w = (\<Sum>op\<in>unspent_coins (wallet_scripts lib d K) (confirmed bh L). amount (confirmed bh L) op)"
  by (rule bd.ComputeBalance_correct [OF assms(3) btcd_start_facts [OF assms(1,2)] assms(4-9)])

definition demo_btcd_ledger :: ledger where
  "demo_btcd_ledger = [''aa'' \<mapsto> (10, demo_msg)]"

lemma demo_btcd_least: "least_bounds demo_lib demo_deriver 2 (btcd_addr_answer demo_lib (demo_node txhex)) [3, 2]"
  using bd.fetch_completed [OF demo_btcd_reached btcd_start_facts [OF demo_btcd_new demo_node_ok] demo_btcd_state(2,1),
      of txhex] demo_btcd_fits [of txhex]
  by (simp add: least_bounds_def fetched_def within_def demo_btcd_state)

lemma demo_btcd_servable: "servable demo_lib demo_deriver (btcd_addr_answer demo_lib (demo_node txhex)) [3, 2]"
proof -
  have "\<not> isl (Address_Script demo_lib (ar_Address r)) \<and> unat (Change (ar_Address r)) < 2"
    if "r \<in># answers demo_lib demo_deriver (btcd_addr_answer demo_lib (demo_node txhex)) [3, 2]" for r
    using that by (auto simp: answers_def demo_asked dest!: demo_search [of _ txhex])
  then show ?thesis using demo_servable [of "''''"] by (simp add: servable_def)
qed

lemma demo_btcd_listed:
  "h \<in> listed demo_lib demo_deriver (btcd_addr_answer demo_lib (demo_node txhex)) [3, 2] \<Longrightarrow> h = ''aa''"
  by (auto simp: listed_def answers_def demo_asked dest!: demo_search [of _ txhex] split: if_splits)

lemma demo_btcd_truthful: "truthful demo_lib demo_deriver demo_btcd_ledger
    (btcd_addr_answer demo_lib (demo_node demo_hex)) (btcd_tx_answer (demo_node demo_hex)) [3, 2]"
proof -
  have h: "NewHashFromStr ''aa'' = Inr (0xaa # replicate 31 0)" "NewHashFromStr ''bb'' = Inr (0xbb # replicate 31 0)"
    by code_simp+
  then have "btcd_tx_answer (demo_node demo_hex) ''aa'' = map_option (response_of ''aa'') (demo_btcd_ledger ''aa'')"
    by (simp add: btcd_tx_answer_def node_tx_def tx_response_def height_at_def demo_node_def demo_raw_def
        demo_btcd_ledger_def response_of_def)
  moreover have "wf_tx demo_msg"
    using demo_truthful by (auto simp: truthful_def demo_ledger_def split: if_splits)
  moreover have "ar_Address (btcd_addr_answer demo_lib (demo_node demo_hex) a) = a \<and> (\<forall>sc h. Address_Script demo_lib a = Inr sc \<longrightarrow>
      touches demo_btcd_ledger sc h \<longrightarrow> h \<in> set (ar_TxHashes (btcd_addr_answer demo_lib (demo_node demo_hex) a)))"
    if a: "a \<in> set demo_addresses" for a
    using demo_search [OF a, of demo_hex]
    by (auto simp: touches_def demo_btcd_ledger_def demo_pays demo_script_inject split: if_splits)
  ultimately show ?thesis
    by (auto simp: truthful_def demo_asked demo_btcd_ledger_def dest!: demo_btcd_listed split: if_splits)
qed

theorem btcd_wallet_balance_witness:
  "ComputeBalance (btcd_program demo_lib (demo_node demo_hex))
     (fetch_start (New demo_deriver 2 25) new_reporter (btcd_started (demo_btcd demo_hex))) (Inr 100)"
proof -
  let ?s = "demo_btcd_run demo_hex"
  have conf: "confirmed 25 demo_btcd_ledger = [''aa'' \<mapsto> demo_msg]"
    by (auto simp: confirmed_def demo_btcd_ledger_def fun_eq_iff)
  have "fetched demo_lib demo_deriver 2 (btcd_addr_answer demo_lib (demo_node demo_hex))
      (btcd_tx_answer (demo_node demo_hex)) (f_acc ?s)"
    using bd.fetch_completed [OF demo_btcd_reached btcd_start_facts [OF demo_btcd_new demo_node_ok] demo_btcd_state(2,1)]
      demo_btcd_fits by (simp add: demo_btcd_state)
  then have "dom (ac_transactions (f_acc ?s)) \<subseteq> {''aa''}"
    using demo_btcd_listed by (auto simp: fetched_def demo_btcd_state split: if_splits)
  then have "finite (dom (ac_transactions (f_acc ?s)))" by (rule finite_subset) simp
  then obtain ks1 ks2 ks3 ks4 where c: "ComputeBalance (btcd_program demo_lib (demo_node demo_hex))
     (fetch_start (New demo_deriver 2 25) new_reporter (btcd_started (demo_btcd demo_hex)))
     (tally ks1 ks2 ks3 ks4 (f_acc ?s, f_rep ?s))"
    using ComputeBalance.returns [OF demo_btcd_reached demo_btcd_state(2,1), of _ demo_hex]
    by (elim tally_orders [where rep = "f_rep ?s"]) blast
  have "''aa'' \<noteq> sample_key 0" by code_simp
  then obtain w where "tally ks1 ks2 ks3 ks4 (f_acc ?s, f_rep ?s) = Inr w" and "uint w = 100"
    using btcd_wallet_balance [OF demo_btcd_new demo_node_ok c demo_btcd_least demo_btcd_servable demo_btcd_fits
        demo_btcd_truthful] demo_history [of "''aa''"] by (auto simp: conf)
  moreover from this(2) have "w = 100" by (simp add: word_uint_eq_iff)
  ultimately show ?thesis using c by simp
qed

section \<open>A worker filling the cache\<close>

fun work_n :: "'b ops \<Rightarrow> nat \<Rightarrow> 'b \<Rightarrow> 'b" where
  "work_n ops 0 b = b"
| "work_n ops (Suc n) b = (case op_work ops b of None \<Rightarrow> b | Some b' \<Rightarrow> work_n ops n b')"

lemma work_n_sound: "(btcd_use lib client)\<^sup>*\<^sup>* b (work_n (btcd_ops lib client) n b)"
proof (induction n arbitrary: b)
  case (Suc n)
  have "btcd_use lib client b b'" if "op_work (btcd_ops lib client) b = Some b'" for b'
    using btcd_sched.op_work [OF that] by (rule use_work)
  then show ?case using Suc by (auto split: option.splits intro: converse_rtranclp_into_rtranclp)
qed simp

definition demo_warm :: "string \<Rightarrow> btcd_backend \<times> btcd_worker list" where
  "demo_warm txhex = work_n (btcd_ops demo_lib (demo_node txhex)) 5
     (map_prod (the \<circ> btcd_addr_send (demo_addresses ! 1)) id (btcd_started (demo_btcd txhex)))"

theorem btcd_caches_agree_witness:
  "bb_cachedTransactions (fst (demo_warm demo_hex)) ''aa'' = Some \<lparr>tr_Hash = ''aa'', tr_Height = 10, tr_Hex = demo_hex\<rparr> \<and>
   (\<exists>lookup. fetchTx (demo_node demo_hex) ''aa'' Map.empty = Inr (\<lparr>tr_Hash = ''aa'', tr_Height = 10, tr_Hex = demo_hex\<rparr>, lookup))"
proof -
  have c: "bb_cachedTransactions (fst (demo_warm txhex)) ''aa'' = Some \<lparr>tr_Hash = ''aa'', tr_Height = 10, tr_Hex = txhex\<rparr>" for txhex
    by code_simp
  have "bb_addrRequests (demo_btcd demo_hex) = []"
    using demo_btcd_new [of demo_hex] by (auto simp: NewBtcdBackend_def sbind_Inr_iff split: sum.splits if_splits dest!: sym [of _ "demo_btcd demo_hex"])
  then have "btcd_addr_send (demo_addresses ! 1) (demo_btcd demo_hex)
      = Some ((the \<circ> btcd_addr_send (demo_addresses ! 1)) (demo_btcd demo_hex))"
    by (simp add: btcd_addr_send_def addrRequestsChanSize_def)
  from use_addr_request [OF this] have "(btcd_use demo_lib (demo_node demo_hex))\<^sup>*\<^sup>* (btcd_started (demo_btcd demo_hex)) (demo_warm demo_hex)"
    unfolding demo_warm_def btcd_started_def map_prod_simp id_apply
    by (rule converse_rtranclp_into_rtranclp) (rule work_n_sound)
  then show ?thesis
    using btcd_caches_agree [OF demo_btcd_new demo_node_ok, of demo_hex "fst (demo_warm demo_hex)" "snd (demo_warm demo_hex)"] c
    by simp
qed

end
