(* ===== verification/Program.thy ===== *)
theory Program
  imports Commands BtcdBalance Ideal
begin

text \<open>
  \<^verbatim>\<open>doComputeBalance\<close> of \<^verbatim>\<open>main.go\<close> over whatever backend it builds: the Electrum and the btcd pool, each
  of them also behind a recorder, or a fixture.
\<close>

section \<open>A recorder in front of a pool\<close>

abbreviation el_block_recv ::
    "'c electrum_backend \<times> thread list \<Rightarrow> BlockResponse \<Rightarrow> 'c electrum_backend \<times> thread list \<Rightarrow> bool" where
  "el_block_recv s k s' \<equiv> electrum_block_recv (fst s) = Some (k, fst s') \<and> snd s' = snd s"

abbreviation bd_block_recv ::
    "btcd_backend \<times> btcd_worker list \<Rightarrow> BlockResponse \<Rightarrow> btcd_backend \<times> btcd_worker list \<Rightarrow> bool" where
  "bd_block_recv s k s' \<equiv> btcd_block_recv (fst s) = Some (k, fst s') \<and> snd s' = snd s"

text \<open>The answers to requests for headers, which the fetch does not make, change nothing that is owed.\<close>

lemma el_block_owed:
  "electrum_inv conn V s \<Longrightarrow> el_block_recv s k s' \<Longrightarrow>
     electrum_inv conn V s' \<and> electrum_addr_owed V s' = electrum_addr_owed V s \<and> electrum_tx_owed V s' = electrum_tx_owed V s"
  by (cases s; cases s') (auto simp: electrum_block_recv_def electrum_inv_def electrum_addr_owed_def electrum_tx_owed_def
      split: list.splits)

lemma bd_block_owed:
  "btcd_inv lib client s \<Longrightarrow> bd_block_recv s k s' \<Longrightarrow>
     btcd_inv lib client s' \<and> btcd_addr_owed lib client s' = btcd_addr_owed lib client s \<and>
     btcd_tx_owed client s' = btcd_tx_owed client s"
  by (cases s; cases s') (auto simp: btcd_block_recv_def btcd_inv_def btcd_addr_owed_def btcd_tx_owed_def
      split: list.splits)

interpretation rel: backend_contract
    "recorder_work (electrum_processRequests conn dials) el_addr_recv el_tx_recv el_block_recv"
    "\<lambda>a. rc_send (el_addr_send a)" rc_addr_recv "\<lambda>h. rc_send (el_tx_send h)" rc_tx_recv
    "recorder_addr_owed (electrum_addr_owed V)" "recorder_tx_owed (electrum_tx_owed V)"
    "electrum_addr_answer V" "\<lambda>h. Some (electrum_tx_answer V h)" "\<lambda>s. electrum_inv conn V (fst s)"
  for conn dials V
  by (rule el.recorder_contract) (rule el_block_owed)

interpretation rbd: backend_contract
    "recorder_work (btcd_processRequests lib client) bd_addr_recv bd_tx_recv bd_block_recv"
    "\<lambda>a. rc_send (bd_addr_send a)" rc_addr_recv "\<lambda>h. rc_send (bd_tx_send h)" rc_tx_recv
    "recorder_addr_owed (btcd_addr_owed lib client)" "recorder_tx_owed (btcd_tx_owed client)"
    "btcd_addr_answer lib client" "btcd_tx_answer client" "\<lambda>s. btcd_inv lib client (fst s)"
  for lib client
  by (rule bd.recorder_contract) (rule bd_block_owed)

abbreviation recorded_electrum_program ::
    "('k, 'p) btc_lib \<Rightarrow> 'c conn_ops \<Rightarrow> (bool \<Rightarrow> string \<Rightarrow> 'c fallible \<Rightarrow> bool)
      \<Rightarrow> (('c electrum_backend \<times> thread list) \<times> recorder_backend \<times> worker) fetch
      \<Rightarrow> (('c electrum_backend \<times> thread list) \<times> recorder_backend \<times> worker) fetch \<Rightarrow> bool" where
  "recorded_electrum_program lib conn dials \<equiv> fetch_step lib
     (recorder_work (electrum_processRequests conn dials) el_addr_recv el_tx_recv el_block_recv)
     (\<lambda>a. rc_send (el_addr_send a)) rc_addr_recv (\<lambda>h. rc_send (el_tx_send h)) rc_tx_recv"

abbreviation recorded_btcd_program ::
    "('k, 'p) btc_lib \<Rightarrow> btcd_client
      \<Rightarrow> ((btcd_backend \<times> btcd_worker list) \<times> recorder_backend \<times> worker) fetch
      \<Rightarrow> ((btcd_backend \<times> btcd_worker list) \<times> recorder_backend \<times> worker) fetch \<Rightarrow> bool" where
  "recorded_btcd_program lib client \<equiv> fetch_step lib
     (recorder_work (btcd_processRequests lib client) bd_addr_recv bd_tx_recv bd_block_recv)
     (\<lambda>a. rc_send (bd_addr_send a)) rc_addr_recv (\<lambda>h. rc_send (bd_tx_send h)) rc_tx_recv"

section \<open>compute-balance\<close>

text \<open>\<^verbatim>\<open>tb.ComputeBalance()\<close> over the backend that was built; \<open>dials\<close> is what connecting to a peer may give.\<close>

inductive balance_over ::
    "('k, 'p) btc_lib \<Rightarrow> 'c conn_ops \<Rightarrow> (bool \<Rightarrow> string \<Rightarrow> 'c fallible \<Rightarrow> bool) \<Rightarrow> accounter \<Rightarrow> reporter
      \<Rightarrow> 'c some_backend \<Rightarrow> u64 result \<Rightarrow> bool"
  for lib conn dials a rep where
  over_electrum: "ComputeBalance (electrum_program lib conn dials) (fetch_start a rep s) r \<Longrightarrow>
     balance_over lib conn dials a rep (OnElectrum s) r"
| over_btcd: "ComputeBalance (btcd_program lib client) (fetch_start a rep s) r \<Longrightarrow>
     balance_over lib conn dials a rep (OnBtcd client s) r"
| over_fixture: "ComputeBalance (fixture_program lib) (fetch_start a rep s) r \<Longrightarrow>
     balance_over lib conn dials a rep (OnFixture s) r"
| over_recorded_electrum: "ComputeBalance (recorded_electrum_program lib conn dials) (fetch_start a rep (s, rec)) r \<Longrightarrow>
     balance_over lib conn dials a rep (OnRecorder (OnElectrum s) rec) r"
| over_recorded_btcd: "ComputeBalance (recorded_btcd_program lib client) (fetch_start a rep (s, rec)) r \<Longrightarrow>
     balance_over lib conn dials a rep (OnRecorder (OnBtcd client s) rec) r"

inductive doComputeBalance ::
    "('k, 'p) btc_lib \<Rightarrow> 'c world \<Rightarrow> (bool \<Rightarrow> string \<Rightarrow> 'c fallible \<Rightarrow> bool) \<Rightarrow> flags \<Rightarrow> bool fallible \<Rightarrow> string
      \<Rightarrow> line list result \<Rightarrow> bool"
  for lib W dials fl stat stdin where
  panics_early: "prepareBalance W fl stat stdin = Inl e \<Longrightarrow> doComputeBalance lib W dials fl stat stdin (Inl e)"
| refuses: "prepareBalance W fl stat stdin = Inr (Stop ls) \<Longrightarrow> doComputeBalance lib W dials fl stat stdin (Inr ls)"
| panics: "prepareBalance W fl stat stdin = Inr (Run B d h) \<Longrightarrow>
     balance_over lib (w_conn W) dials (New d (cb_lookahead fl) h) new_reporter B (Inl e) \<Longrightarrow>
     doComputeBalance lib W dials fl stat stdin (Inl e)"
| computes: "prepareBalance W fl stat stdin = Inr (Run B d h) \<Longrightarrow>
     balance_over lib (w_conn W) dials (New d (cb_lookahead fl) h) new_reporter B (Inr w) \<Longrightarrow>
     doComputeBalance lib W dials fl stat stdin
       (Inr [(''Going to compute balance at %d'', [Num (uint h)]), (''Balance: %d'', [Num (uint w)])])"

section \<open>Every backend refines the ideal one\<close>

text \<open>What a backend answers: agreeing Electrum servers a view, a btcd node itself, a fixture its file.\<close>

inductive serves ::
    "('k, 'p) btc_lib \<Rightarrow> 'c conn_ops \<Rightarrow> 'c some_backend \<Rightarrow> (Address \<Rightarrow> AddrResponse) \<Rightarrow> (string \<Rightarrow> TxResponse option) \<Rightarrow> bool"
  for lib conn where
  "honest conn V \<Longrightarrow> serves lib conn (OnElectrum s) (electrum_addr_answer V) (\<lambda>h. Some (electrum_tx_answer V h))"
| "node_ok lib client \<Longrightarrow> serves lib conn (OnBtcd client s) (btcd_addr_answer lib client) (btcd_tx_answer client)"
| "serves lib conn (OnFixture (fixture_started j)) (fixture_processAddrRequest (fixture_of j)) (fixture_processTxRequest (fixture_of j))"
| "serves lib conn B aa ta \<Longrightarrow> serves lib conn (OnRecorder B rec) aa ta"

inductive_cases serves_cases :
  "serves lib conn (OnElectrum s) aa ta"
  "serves lib conn (OnBtcd client s) aa ta"
  "serves lib conn (OnFixture s) aa ta"
  "serves lib conn (OnRecorder B rec) aa ta"

text \<open>A backend as it is right after it was built.\<close>

fun fresh :: "'c world \<Rightarrow> network \<Rightarrow> 'c some_backend \<Rightarrow> bool" where
  "fresh W network (OnElectrum s) \<longleftrightarrow>
     (\<exists>addr port. NewElectrumBackend (w_conn W) (w_dial1 W) (w_dial2 W) addr port network = Inr (Inr s))"
| "fresh W network (OnBtcd client s) \<longleftrightarrow>
     (\<exists>addr port user pass b. NewBtcdBackend (w_rpc W) addr port user pass network = Inr (Inr (client, b)) \<and> s = btcd_started b)"
| "fresh W network (OnFixture s) \<longleftrightarrow> (\<exists>j. s = fixture_started j)"
| "fresh W network (OnRecorder B rec) \<longleftrightarrow> fresh W network B \<and> (\<exists>file. rec = (NewRecorderBackend file, Idle))"

lemma map_sum_Inr: "map_sum f g x = Inr y \<longleftrightarrow> (\<exists>z. x = Inr z \<and> y = g z)"
  by (cases x) auto

lemma pools_fresh:
  "build_electrum W fl network = Inr (Inr B) \<Longrightarrow> fresh W network B"
  "build_btcd W fl network = Inr (Inr B) \<Longrightarrow> fresh W network B"
  by (auto simp: build_electrum_def build_btcd_def sbind_Inr_iff map_sum_Inr split: sum.splits prod.splits) blast+

lemma built_fresh:
  assumes "computeBalanceBuildBackend W fl network = Inr (Inr B)"
  shows "fresh W network B"
  using assms pools_fresh [of W fl network]
  by (auto simp: computeBalanceBuildBackend_def build_recorder_def sbind_Inr_iff NewFixtureBackend_Inr_iff map_sum_Inr split: if_splits)

lemma balance_refines:
  assumes "fresh W network B" and "serves lib (w_conn W) B aa ta" and "balance_over lib (w_conn W) dials a rep B r"
  shows "ComputeBalance (ideal_program lib aa ta) (fetch_start a rep ({#}, {#})) r"
  using assms(3)
proof cases
  case (over_electrum s)
  with assms(1,2) obtain addr port V where V: "aa = electrum_addr_answer V" "ta = (\<lambda>h. Some (electrum_tx_answer V h))"
    and new: "NewElectrumBackend (w_conn W) (w_dial1 W) (w_dial2 W) addr port network = Inr (Inr s)" "honest (w_conn W) V" by (auto elim!: serves_cases) 
  note start = electrum_start_facts [OF new]
  show ?thesis using el.ComputeBalance_refines [OF over_electrum(2) start(1)] by (simp only: V start)
next
  case (over_btcd client s)
  with assms(1,2) obtain addr port user pass b where V: "s = btcd_started b" "aa = btcd_addr_answer lib client" "ta = btcd_tx_answer client"
    and new: "NewBtcdBackend (w_rpc W) addr port user pass network = Inr (Inr (client, b))" "node_ok lib client" by (auto elim!: serves_cases) 
  note start = btcd_start_facts [OF new]
  show ?thesis using bd.ComputeBalance_refines [OF over_btcd(2) [unfolded V] start(1)] by (simp only: V start)
next
  case (over_fixture s)
  with assms(1,2) obtain j where V: "s = fixture_started j" "aa = fixture_processAddrRequest (fixture_of j)"
    "ta = fixture_processTxRequest (fixture_of j)" by (auto elim!: serves_cases) 
  note start = fixture_start_facts [of j]
  show ?thesis using fx.ComputeBalance_refines [OF over_fixture(2) [unfolded V] start(1)] by (simp only: V start)
next
  case (over_recorded_electrum s rec)
  with assms(1,2) obtain addr port V fname where V: "aa = electrum_addr_answer V" "ta = (\<lambda>h. Some (electrum_tx_answer V h))"
    "rec = (NewRecorderBackend fname, Idle)"
    and new: "NewElectrumBackend (w_conn W) (w_dial1 W) (w_dial2 W) addr port network = Inr (Inr s)" "honest (w_conn W) V" by (auto elim!: serves_cases) 
  note start = electrum_start_facts [OF new]
  show ?thesis
    using rel.ComputeBalance_refines [OF over_recorded_electrum(2), of V] start(1)
    by (simp only: V start fst_conv recorder_idle)
next
  case (over_recorded_btcd client s rec)
  with assms(1,2) obtain addr port user pass b fname where V: "s = btcd_started b" "aa = btcd_addr_answer lib client" "ta = btcd_tx_answer client"
    "rec = (NewRecorderBackend fname, Idle)"
    and new: "NewBtcdBackend (w_rpc W) addr port user pass network = Inr (Inr (client, b))" "node_ok lib client" by (auto elim!: serves_cases) 
  note start = btcd_start_facts [OF new]
  show ?thesis
    using rbd.ComputeBalance_refines [OF over_recorded_btcd(2)] start(1)
    by (simp only: V start fst_conv recorder_idle)
qed

lemma serves_keyed: "serves lib conn B aa ta \<Longrightarrow> keyed ta = ta"
  by (induction rule: serves.induct) (rule el.keyed_answer bd.keyed_answer fx.keyed_answer | assumption)+

section \<open>Properties\<close>

text \<open>
  C2: every backend refines the ideal one.  Whatever \<^verbatim>\<open>ComputeBalance\<close> gives over a backend that the
  program has just built (an Electrum or a btcd pool, either of them behind a recorder, or a fixture), with
  its goroutines, channels, caches and connections, it can also give over the abstract backend that only
  keeps the answers it owes.
\<close>

theorem every_backend_refines_ideal:
  assumes "computeBalanceBuildBackend W fl network = Inr (Inr B)" and "serves lib (w_conn W) B aa ta"
    and "balance_over lib (w_conn W) dials a rep B r"
  shows "ComputeBalance (ideal_program lib aa ta) (fetch_start a rep ({#}, {#})) r"
  by (rule balance_refines [OF built_fresh [OF assms(1)] assms(2,3)])


section \<open>A single address that is typed\<close>

lemma ReadString_delim: "c \<in> set s \<Longrightarrow> c \<in> set (fst (ReadString c s))"
  using hd_dropWhile [of "\<lambda>x. x \<noteq> c" s] by (auto simp: ReadString_def dropWhile_eq_Nil_conv split: list.splits)

lemma serves_string: "serves lib conn B aa ta \<Longrightarrow> Address_String (ar_Address (aa a)) = Address_String a"
  by (induction rule: serves.induct)
    (simp_all add: electrum_addr_answer_def btcd_addr_answer_def fixture_addr_string split: sum.splits)

lemma Derive_single: "d_singleAddress d \<noteq> [] \<Longrightarrow> Derive lib d c i = Inr a \<Longrightarrow> Address_String a = d_singleAddress d"
  by (auto simp: Derive_def Address_String_def)

text \<open>When the one address has no script, the receiver never gets past its first answer.\<close>

definition stuck_inv :: "AddressDeriver \<Rightarrow> u32 \<Rightarrow> ideal fetch \<Rightarrow> bool" where
  "stuck_inv d la s \<longleftrightarrow>
     ac_deriver (f_acc s) = d \<and> ac_lastAddresses (f_acc s) = [la, la] \<and> ac_processedAddrCount (f_acc s) = 0 \<and>
     f_receiver s = Selecting \<and> (\<forall>r\<in>#fst (f_backend s). Address_String (ar_Address r) = d_singleAddress d) \<and>
     (\<forall>c l a. f_sender s = Requesting c l a \<longrightarrow> Address_String a = d_singleAddress d)"

lemma stuck_step:
  assumes "ideal_program lib aa ta s s'" and "stuck_inv d la s" and "\<not> panicked s'" and "la + la \<noteq> 0"
    and "d_singleAddress d \<noteq> []" and aa: "\<And>a. Address_String (ar_Address (aa a)) = Address_String a"
    and no_script: "\<And>a. Address_String a = d_singleAddress d \<Longrightarrow> isl (Address_Script lib a)"
  shows "stuck_inv d la s'"
  using assms(1)
proof cases
  case send
  from send(2) show ?thesis
  proof cases
    case (derive change lastAddr addr)
    then show ?thesis using assms(2) Derive_single [OF assms(5)] by (auto simp: stuck_inv_def count_derived_def)
  next
    case (request change lastAddr addr b')
    then show ?thesis using assms(2) aa by (auto simp: stuck_inv_def ideal_addr_send_def)
  qed (use assms(2) in \<open>auto simp: stuck_inv_def\<close>)
next
  case recv
  have no: "isl (file_address lib r (f_acc s))" if "r \<in># fst (f_backend s)" for r
  proof -
    have "isl (Address_Script lib (ar_Address r))" using that assms(2) no_script by (simp add: stuck_inv_def)
    then show ?thesis by (auto simp: file_address_def Let_def isl_sbind_left)
  qed
  from recv(2) show ?thesis
  proof cases
    case (address resp b' a')
    then show ?thesis using no [of resp] by (auto simp: ideal_addr_recv_def)
  next
    case (address_panic resp b' e)
    then show ?thesis using assms(3) by (simp add: panicked.simps)
  next
    case (transaction resp b')
    then show ?thesis using assms(2) by (auto simp: stuck_inv_def ideal_tx_recv_def file_transaction_def)
  next
    case tick
    then show ?thesis using assms(2,4) by (auto simp: stuck_inv_def complete_def Let_def)
  qed (use assms(2) in \<open>auto simp: stuck_inv_def\<close>)
next
  case (backend b')
  then show ?thesis by (simp add: ideal_work_def)
qed

lemma stuck_reach:
  assumes "(ideal_program lib aa ta)\<^sup>*\<^sup>* (fetch_start (New d la bh) rep ({#}, {#})) s" and "\<not> panicked s" and "la + la \<noteq> 0"
    and "d_singleAddress d \<noteq> []" and "\<And>a. Address_String (ar_Address (aa a)) = Address_String a"
    and "\<And>a. Address_String a = d_singleAddress d \<Longrightarrow> isl (Address_Script lib a)"
  shows "stuck_inv d la s"
  using assms(1,2)
proof (induction rule: rtranclp_induct)
  case base
  then show ?case by (simp add: stuck_inv_def fetch_start_def New_def)
next
  case (step s s')
  have "\<not> panicked s" by (rule ideal.panicked_stays [OF step(2)])
  from stuck_step [OF step(2) step(3) [OF this] step(4) assms(3,4)] assms(5,6) show ?case by blast
qed


section \<open>Witnesses\<close>

lemma demo_serves: "serves demo_lib conn (OnFixture (fixture_started (demo_index txhex)))
    (demo_answer txhex) (fixture_processTxRequest (fixture_of (demo_index txhex)))"
  by (rule serves.intros)

theorem every_backend_refines_ideal_witness:
  "ComputeBalance (ideal_program demo_lib (demo_answer demo_hex) (fixture_processTxRequest (fixture_of (demo_index demo_hex))))
     (fetch_start (New demo_deriver 2 25) new_reporter ({#}, {#})) (Inr 100)"
  by (rule every_backend_refines_ideal [OF demo_built demo_serves over_fixture [OF demo_balance]])

lemma demo_lookahead: "cb_lookahead demo_flags = 2"
  by (simp add: demo_flags_def)


text \<open>A line for a single address, and a library that refuses a newline.\<close>

definition strict_lib :: "(u8 list, u8 list) btc_lib" where
  "strict_lib = demo_lib\<lparr>DecodeAddress := (\<lambda>s params.
     if CHR 0x0A \<in> set s then Inl (Errorf ''checksum mismatch'' []) else DecodeAddress demo_lib s params)\<rparr>"

definition single_flags :: flags where
  "single_flags = demo_flags\<lparr>cb_type := ''single-address''\<rparr>"

definition single_run :: "(fixture_backend \<times> worker) fetch" where
  "single_run = run strict_lib fixture_ops 50 (fetch_start (New (NewAddressDeriver Testnet [] 1 (typed ''m410001'')) 2 25)
     new_reporter (fixture_started (demo_index [])))"

lemma single_panics: "case f_receiver single_run of ReceiverPanic e \<Rightarrow> True | _ \<Rightarrow> False"
  by code_simp

lemma single_prepared: "prepareBalance (demo_world []) single_flags (Inr True) (typed ''m410001'')
    = Inr (Run (OnFixture (fixture_started (demo_index []))) (NewAddressDeriver Testnet [] 1 (typed ''m410001'')) 25)"
proof -
  have "fst (ReadString (CHR 0x0A) (typed ''m410001'')) = typed ''m410001''" "AddressToNetwork (typed ''m410001'') = Inr Testnet"
    by code_simp+
  moreover have "computeBalance_with (demo_world []) single_flags Testnet [] (typed ''m410001'')
      = Inr (Run (OnFixture (fixture_started (demo_index []))) (NewAddressDeriver Testnet [] 1 (typed ''m410001'')) 25)"
    using demo_built [of "[]" Testnet]
    by (simp add: computeBalance_with_Inr choose_height_Inr minConfirmations_def single_flags_def demo_flags_def
        fixture_ChainHeight_def fixture_of_simps demo_index_def)
  ultimately show ?thesis
    by (simp add: prepareBalance_def single_flags_def demo_flags_def VerifyMandN_def forbid_pipe_def)
qed


text \<open>
  The port of an Electrum server is not a number.  With \<^verbatim>\<open>--addr HOST:PORT\<close>, as the help text asks for,
  building the backend panics unless the port starts with a \<^verbatim>\<open>t\<close> or an \<^verbatim>\<open>s\<close>, whatever the network.
\<close>

theorem electrum_port_needs_letter:
  assumes "fl_backend fl \<in> {''electrum'', ''electrum-recorder''}" and "fl_fixtureFile fl \<noteq> []" and "network \<in> {Mainnet, Testnet}"
    and "fl_addr fl = host @ CHR '':'' # p # port" and "p \<notin> {CHR ''t'', CHR ''s''}"
    and "set host \<inter> {CHR '':'', CHR ''['', CHR '']''} = {}" and "set (p # port) \<inter> {CHR '':'', CHR ''['', CHR '']''} = {}"
  shows "computeBalanceBuildBackend W fl network = Inl (Panic ''port (%s) must start with t or s'' [Str (p # port)])"
proof -
  have "GetDefaultServer network Electrum (fl_addr fl) = Inr (host, p # port)"
    using split_host_port_plain [OF assms(6,7)] by (simp add: GetDefaultServer_def assms(4))
  moreover have "fst (getHeight (w_conn W) (fst (w_dial1 W)) (snd (w_dial1 W)) host (p # port) network)
      = Inl (Panic ''port (%s) must start with t or s'' [Str (p # port)])"
    using assms(3,5) by (auto simp: getHeight_def NewNode_def dial_address_def defaultPorts_def at_index_def Let_def)
  ultimately show ?thesis
    using assms(1,2) by (auto simp: computeBalanceBuildBackend_def build_recorder_def build_electrum_def NewElectrumBackend_def)
qed

theorem electrum_port_needs_letter_witness:
  "computeBalanceBuildBackend (demo_world []) \<lparr>fl_backend = ''electrum'', fl_addr = ''h:50002'', fl_rpcuser = [], fl_rpcpass = [],
     fl_fixtureFile = ''f''\<rparr> Mainnet = Inl (Panic ''port (%s) must start with t or s'' [Str ''50002''])"
  by (rule electrum_port_needs_letter [of _ _ "''h''" "CHR ''5''" "''0002''"]) simp_all

end
