(* ===== verification/Replay.thy ===== *)
theory Replay
  imports ComputeBalance
begin

text \<open>
  Recording a fetch and replaying it.  When a fetch over a recorder is over, the file that the recorder
  writes holds the answer to every address that was asked for and every transaction that was received; a
  fetch over a fixture loaded from that file ends with the same result.
\<close>

section \<open>The end of a fetch\<close>

lemma asked_request:
  assumes "sender_inv lib s" and "f_sender s = Requesting c l addr"
  shows "asked lib (ac_deriver (f_acc s)) ((f_indexes s)[unat c := f_indexes s ! unat c + 1])
    = add_mset addr (asked lib (ac_deriver (f_acc s)) (f_indexes s))"
proof -
  have lt: "f_indexes s ! unat c < l" and c: "c = 0 \<or> c = 1" and len: "length (f_indexes s) = 2"
    and addr: "addr = addr_of lib (ac_deriver (f_acc s)) c (f_indexes s ! unat c)"
    using assms by (auto simp: sender_inv_def sender_ok_def addr_of_def)
  show ?thesis using c lt len by (auto simp: asked_def addr asked_change_inc)
qed

text \<open>Once every index has reached its bound, the sender requests nothing more.\<close>

lemma sender_at_bounds:
  assumes "sendWork lib addr_send s s'" and "sender_inv lib s" and "f_indexes s = ac_lastAddresses (f_acc s)"
  shows "f_backend s' = f_backend s \<and> f_indexes s' = f_indexes s"
  using assms
proof (induction rule: sendWork.induct)
  case (request s change lastAddr addr b')
  then show ?case by (auto simp: sender_inv_def sender_ok_def)
qed auto

context backend_contract
begin

lemma reached_facts:
  assumes "reached lib d la bh s"
  shows "binv (f_backend s)" "sender_inv lib s" "params (f_acc s) = (d, la, bh)"
    "r \<in># addr_owed (f_backend s) \<Longrightarrow> \<exists>a\<in>#asked lib (ac_deriver (f_acc s)) (f_indexes s). r = addr_answer a"
    "t \<in># tx_owed (f_backend s) \<Longrightarrow> tx_answer (tr_Hash t) = Some t"
    "f_receiver s = Selecting \<Longrightarrow> complete (f_acc s) \<Longrightarrow>
       unat (ac_lastAddresses (f_acc s) ! 0) + unat (ac_lastAddresses (f_acc s) ! 1) < 2 ^ 32 \<Longrightarrow>
       f_indexes s = ac_lastAddresses (f_acc s) \<and> addr_owed (f_backend s) = {#}"
proof -
  obtain fin files reqs where "fetch_inv lib s fin files reqs" using assms by (auto simp: reached_def)
  then have i: "binv (f_backend s)" "sender_inv lib s" "addr_inv lib addr_answer addr_owed s fin"
    and t: "tx_inv tx_answer tx_owed s fin files reqs"
    by (auto simp: fetch_inv_def)
  show "binv (f_backend s)" "sender_inv lib s" "params (f_acc s) = (d, la, bh)" using i assms by (auto simp: reached_def)
  show "\<exists>a\<in>#asked lib (ac_deriver (f_acc s)) (f_indexes s). r = addr_answer a" if "r \<in># addr_owed (f_backend s)"
  proof -
    have "r \<in># image_mset addr_answer (asked lib (ac_deriver (f_acc s)) (f_indexes s))"
      using i(3) that by (simp add: addr_inv_def)
    then show ?thesis by auto
  qed
  show "tx_answer (tr_Hash t) = Some t" if "t \<in># tx_owed (f_backend s)"
    using tx_answers [OF t, of t] that by simp
  show "f_indexes s = ac_lastAddresses (f_acc s) \<and> addr_owed (f_backend s) = {#}"
    if "f_receiver s = Selecting" "complete (f_acc s)"
      "unat (ac_lastAddresses (f_acc s) ! 0) + unat (ac_lastAddresses (f_acc s) ! 1) < 2 ^ 32"
    by (rule complete_counts [OF i(2,3) that])
qed

text \<open>When fetching is over every address below the bounds was asked for and answered.\<close>

lemma returned_at_rest:
  assumes "(fetch_step lib work addr_send addr_recv tx_send tx_recv)\<^sup>*\<^sup>* (fetch_start (New d la bh) rep b) s"
    and "binv b" and "addr_owed b = {#}" and "tx_owed b = {#}" and "\<not> panicked s" and "f_receiver s = Returned"
    and "unat (ac_lastAddresses (f_acc s) ! 0) + unat (ac_lastAddresses (f_acc s) ! 1) < 2 ^ 32"
  shows "f_indexes s = ac_lastAddresses (f_acc s) \<and> addr_owed (f_backend s) = {#}"
  using assms(1,5-7)
proof (induction rule: rtranclp_induct)
  case base
  then show ?case by (simp add: fetch_start_def)
next
  case (step s s')
  have np: "\<not> panicked s" using panicked_stays [OF step(2)] .
  note facts = reached_facts [OF fetch_reached [OF step(1) assms(2-4) np]]
  from step(2) show ?case
  proof cases
    case send
    then show ?thesis
      using sendWork_params [OF send(2)] step(3,5,6) np sender_at_bounds [OF send(2) facts(2)] by simp
  next
    case recv
    then show ?thesis using recvWork_returns [OF recv(2) step(5)] facts(6) step(6) by auto
  next
    case (backend b')
    then show ?thesis using step(3,5,6) np work_owed [OF facts(1)] by simp
  qed
qed

end

text \<open>Two backends that agree on what was asked for give the same fetch.\<close>

lemma agreeing:
  assumes "\<And>a. a \<in># asked lib d K \<Longrightarrow> aa' a = aa a"
  shows "answers lib d aa' K = answers lib d aa K" "listed lib d aa' K = listed lib d aa K"
    "closed_bounds lib d la aa' K = closed_bounds lib d la aa K" "counts_fit lib d aa' K = counts_fit lib d aa K"
proof -
  show a: "answers lib d aa' K = answers lib d aa K"
    unfolding answers_def by (rule image_mset_cong) (rule assms)
  show "listed lib d aa' K = listed lib d aa K" "closed_bounds lib d la aa' K = closed_bounds lib d la aa K"
    "counts_fit lib d aa' K = counts_fit lib d aa K"
    by (simp_all add: listed_def closed_bounds_def counts_fit_def a)
qed

lemma fetched_agree:
  assumes "\<And>a. a \<in># asked lib d (ac_lastAddresses A) \<Longrightarrow> aa' a = aa a"
    and "\<And>h. h \<in> listed lib d aa (ac_lastAddresses A) \<Longrightarrow> ta' h = ta h"
  shows "fetched lib d la aa' ta' A = fetched lib d la aa ta A"
  using assms(2) by (auto simp: fetched_def agreeing [of lib d "ac_lastAddresses A" aa' aa, OF assms(1)] fun_eq_iff)

lemma fetched_alike:
  assumes s: "fetched lib d la aa ta (f_acc s)" "\<And>K. closed_bounds lib d la aa K \<Longrightarrow> within s K"
      "ac_blockHeight (f_acc s) = bh" "counts_fit lib d aa (ac_lastAddresses (f_acc s))"
    and t: "counts_fit lib d aa' (ac_lastAddresses (f_acc t)) \<Longrightarrow> fetched lib d la aa' ta' (f_acc t)"
      "\<And>K. closed_bounds lib d la aa' K \<Longrightarrow> within t K" "ac_blockHeight (f_acc t) = bh"
    and aa: "\<And>a. a \<in># asked lib d (ac_lastAddresses (f_acc s)) \<Longrightarrow> aa' a = aa a"
    and ta: "\<And>h. h \<in> listed lib d aa (ac_lastAddresses (f_acc s)) \<Longrightarrow> ta' h = ta h"
  shows "same_result (f_acc s) (f_acc t)"
proof -
  let ?l = "ac_lastAddresses (f_acc s)" and ?m = "ac_lastAddresses (f_acc t)"
  have l: "closed_bounds lib d la aa' ?l" using s(1) agreeing(3) [of lib d ?l aa' aa, OF aa] by (simp add: fetched_def)
  then have le: "?m ! 0 \<le> ?l ! 0" "?m ! 1 \<le> ?l ! 1" using t(2) by (simp_all add: within_def)
  have "counts_fit lib d aa' ?l" using s(4) agreeing(4) [of lib d ?l aa' aa, OF aa] by simp
  then have ft: "fetched lib d la aa' ta' (f_acc t)" by (rule t(1) [OF counts_fit_antimono [OF _ le]])
  have sub: "set_mset (asked lib d ?m) \<subseteq> set_mset (asked lib d ?l)" by (rule asked_mono [OF le])
  have aam: "aa' a = aa a" if "a \<in># asked lib d ?m" for a using aa sub that by blast
  have tam: "ta' h = ta h" if "h \<in> listed lib d aa ?m" for h
    using ta sub that by (auto simp: listed_def answers_def)
  have f: "fetched lib d la aa ta (f_acc t)" using ft fetched_agree [of lib d "f_acc t" aa' aa, OF aam tam] by simp
  then have "closed_bounds lib d la aa ?m" by (simp add: fetched_def)
  then have "within s ?m" by (rule s(2))
  then have "?l ! 0 = ?m ! 0" "?l ! 1 = ?m ! 1" using le by (simp_all add: within_def)
  then have "within t K" if "closed_bounds lib d la aa K" for K
    using s(2) [OF that] by (simp add: within_def)
  then show ?thesis using fetched_unique [OF s(1) f] s(2,3) t(3) by simp
qed

section \<open>What a recorder keeps\<close>

definition recorded ::
    "(Address \<Rightarrow> AddrResponse) \<Rightarrow> (string \<Rightarrow> TxResponse option) \<Rightarrow> Address multiset \<Rightarrow> recorder_backend \<Rightarrow> bool" where
  "recorded addr_answer tx_answer as rb \<longleftrightarrow>
     recorder_keys rb \<and>
     (\<forall>k r. rb_addrIndex rb k = Some r \<longrightarrow> (\<exists>a\<in>#as. r = addr_answer a)) \<and>
     (\<forall>h t. rb_txIndex rb h = Some t \<longrightarrow> tx_answer h = Some t)"

lemma recorded_frame:
  "rb_addrIndex rb' = rb_addrIndex rb \<Longrightarrow> rb_txIndex rb' = rb_txIndex rb \<Longrightarrow> rb_blockIndex rb' = rb_blockIndex rb \<Longrightarrow>
    recorded aa ta as rb' = recorded aa ta as rb"
  by (simp add: recorded_def recorder_keys_def)

lemma recorded_more: "recorded aa ta as rb \<Longrightarrow> recorded aa ta (add_mset a as) rb"
  by (auto simp: recorded_def)

lemma recorded_record:
  "a \<in># as \<Longrightarrow> recorded aa ta as rb \<Longrightarrow> recorded aa ta as (record_addr (aa a) rb)"
  "ta (tr_Hash t) = Some t \<Longrightarrow> recorded aa ta as rb \<Longrightarrow> recorded aa ta as (record_tx t rb)"
  "recorded aa ta as rb \<Longrightarrow> recorded aa ta as (record_block k rb)"
  by (auto simp: recorded_def recorder_keys_def record_defs)

text \<open>Every request is in the index or still owed by the wrapped backend, every transaction is indexed before it is passed on.\<close>

definition filed_away ::
    "(Address \<Rightarrow> AddrResponse) \<Rightarrow> Address multiset \<Rightarrow> AddrResponse multiset \<Rightarrow> recorder_backend \<Rightarrow> bool" where
  "filed_away addr_answer as owed rb \<longleftrightarrow>
     (\<forall>a\<in>#as. addr_answer a \<in># owed \<or> rb_addrIndex rb (Address_String a) \<noteq> None)"

definition passed_on :: "accounter \<Rightarrow> recorder_backend \<times> worker \<Rightarrow> bool" where
  "passed_on a s \<longleftrightarrow>
     (\<forall>t\<in>#held_tx (snd s) + mset (rb_txResponses (fst s)). rb_txIndex (fst s) (tr_Hash t) \<noteq> None) \<and>
     (\<forall>h. ac_transactions a h \<noteq> None \<longrightarrow> rb_txIndex (fst s) h \<noteq> None)"

lemma filed_away_record:
  assumes "filed_away aa as (add_mset (aa a) owed) rb"
    and string: "\<And>a. Address_String (ar_Address (aa a)) = Address_String a"
  shows "filed_away aa as owed (record_addr (aa a) rb)"
  unfolding filed_away_def
proof (intro ballI)
  fix a'
  assume "a' \<in># as"
  then have "aa a' \<in># add_mset (aa a) owed \<or> rb_addrIndex rb (Address_String a') \<noteq> None"
    using assms(1) by (simp add: filed_away_def)
  moreover have "Address_String a' = Address_String (ar_Address (aa a))" if "aa a' = aa a"
    using string [of a'] that by simp
  ultimately show "aa a' \<in># owed \<or> rb_addrIndex (record_addr (aa a) rb) (Address_String a') \<noteq> None"
    by (auto simp: record_defs)
qed

lemma filed_away_frame:
  "rb_addrIndex rb' = rb_addrIndex rb \<Longrightarrow> filed_away aa as owed rb' = filed_away aa as owed rb"
  by (simp add: filed_away_def)

lemma record_index [simp]:
  "rb_addrIndex (record_tx t rb) = rb_addrIndex rb" "rb_addrIndex (record_block k rb) = rb_addrIndex rb"
  "rb_txIndex (record_addr r rb) = rb_txIndex rb" "rb_txIndex (record_block k rb) = rb_txIndex rb"
  "rb_txIndex (record_tx t rb) = (rb_txIndex rb)(tr_Hash t \<mapsto> t)"
  by (simp_all add: record_defs)

context backend_contract
begin

definition kept :: "('k, 'p) btc_lib \<Rightarrow> ('b \<times> recorder_backend \<times> worker) fetch \<Rightarrow> bool" where
  "kept lib s \<longleftrightarrow>
     recorded addr_answer tx_answer (asked lib (ac_deriver (f_acc s)) (f_indexes s)) (fst (snd (f_backend s))) \<and>
     filed_away addr_answer (asked lib (ac_deriver (f_acc s)) (f_indexes s)) (addr_owed (fst (f_backend s)))
       (fst (snd (f_backend s))) \<and>
     passed_on (f_acc s) (snd (f_backend s))"

lemma kept_own:
  assumes "recorder_processRequests addr_recv tx_recv block_recv bs bs'"
    and block: "\<And>b k b'. binv b \<Longrightarrow> block_recv b k b' \<Longrightarrow>
        binv b' \<and> addr_owed b' = addr_owed b \<and> tx_owed b' = tx_owed b"
    and "binv (fst bs)"
    and string: "\<And>a. Address_String (ar_Address (addr_answer a)) = Address_String a"
    and addr: "\<And>r. r \<in># addr_owed (fst bs) \<Longrightarrow> \<exists>a\<in>#as. r = addr_answer a"
    and tx: "\<And>t. t \<in># tx_owed (fst bs) \<Longrightarrow> tx_answer (tr_Hash t) = Some t"
    and "recorded addr_answer tx_answer as (fst (snd bs))" and "filed_away addr_answer as (addr_owed (fst bs)) (fst (snd bs))"
    and "passed_on a (snd bs)"
  shows "recorded addr_answer tx_answer as (fst (snd bs')) \<and>
    filed_away addr_answer as (addr_owed (fst bs')) (fst (snd bs')) \<and> passed_on a (snd bs')"
  using assms(1,3,5-)
proof (induction rule: recorder_processRequests.induct)
  case (recv_addr b r b' rb)
  have o: "addr_owed b = add_mset r (addr_owed b')" using addr_recv_owed [OF _ recv_addr(1)] recv_addr(2) by simp
  then obtain a0 where a0: "a0 \<in># as" "r = addr_answer a0" using recv_addr(3) [of r] by auto
  have "recorded addr_answer tx_answer as (record_addr r rb)" "filed_away addr_answer as (addr_owed b') (record_addr r rb)"
    using recorded_record(1) [OF a0(1), of addr_answer tx_answer rb] filed_away_record [of addr_answer as a0 "addr_owed b'" rb, OF _ string]
      recv_addr(5,6) by (simp_all add: a0(2) o)
  then show ?case using recv_addr(7) by (simp add: passed_on_def)
next
  case (recv_tx b t b' rb)
  have o: "tx_owed b = add_mset t (tx_owed b')" "addr_owed b' = addr_owed b"
    using tx_recv_owed [OF _ recv_tx(1)] recv_tx(2) by simp_all
  then have "tx_answer (tr_Hash t) = Some t" using recv_tx(4) by simp
  then have "recorded addr_answer tx_answer as (record_tx t rb)" by (rule recorded_record(2)) (use recv_tx(5) in simp)
  then show ?case
    using recv_tx(6,7) filed_away_frame [of "record_tx t rb" rb] by (auto simp: passed_on_def o(2))
next
  case (recv_block b k b' rb)
  have o: "addr_owed b' = addr_owed b" using block [OF _ recv_block(1)] recv_block(2) by simp
  have "recorded addr_answer tx_answer as (record_block k rb)" by (rule recorded_record(3)) (use recv_block(5) in simp)
  then show ?case
    using recv_block(6,7) filed_away_frame [of "record_block k rb" rb] by (auto simp: passed_on_def o)
qed (simp_all add: filed_away_def passed_on_def recorded_def recorder_keys_def)

lemma kept_work:
  assumes "recorder_work work addr_recv tx_recv block_recv (f_backend s) bs" and "kept lib s"
    and block: "\<And>b k b'. binv b \<Longrightarrow> block_recv b k b' \<Longrightarrow>
        binv b' \<and> addr_owed b' = addr_owed b \<and> tx_owed b' = tx_owed b"
    and "binv (fst (f_backend s))"
    and string: "\<And>a. Address_String (ar_Address (addr_answer a)) = Address_String a"
    and addr: "\<And>r. r \<in># addr_owed (fst (f_backend s)) \<Longrightarrow>
      \<exists>a\<in>#asked lib (ac_deriver (f_acc s)) (f_indexes s). r = addr_answer a"
    and tx: "\<And>t. t \<in># tx_owed (fst (f_backend s)) \<Longrightarrow> tx_answer (tr_Hash t) = Some t"
  shows "kept lib (s\<lparr>f_backend := bs\<rparr>)"
  using assms(1)
proof (cases rule: recorder_work.cases)
  case (wrapped b b' rb w)
  then show ?thesis using work_owed [of b b'] assms(2,4) by (simp add: kept_def)
next
  case own
  have "recorded addr_answer tx_answer (asked lib (ac_deriver (f_acc s)) (f_indexes s)) (fst (snd bs)) \<and>
      filed_away addr_answer (asked lib (ac_deriver (f_acc s)) (f_indexes s)) (addr_owed (fst bs)) (fst (snd bs)) \<and>
      passed_on (f_acc s) (snd bs)"
    by (rule kept_own [OF own _ assms(4) string addr tx])
      (use assms(2) block in \<open>simp_all add: kept_def\<close>)
  then show ?thesis by (simp add: kept_def)
qed

lemma kept_send:
  assumes "sendWork lib (\<lambda>a. rc_send (addr_send a)) s s'" and "kept lib s" and "sender_inv lib s"
    and "binv (fst (f_backend s))"
  shows "kept lib s'"
  using assms
proof (induction rule: sendWork.induct)
  case (request s change lastAddr addr b')
  then have o: "addr_owed (fst b') = add_mset (addr_answer addr) (addr_owed (fst (f_backend s)))" "snd b' = snd (f_backend s)"
    using addr_send_owed [of "fst (f_backend s)" addr "fst b'"] by simp_all
  then show ?case
    using request(3) asked_request [OF request(4,1)] recorded_more
    by (auto simp: kept_def filed_away_def)
qed (simp_all add: kept_def count_derived_def passed_on_def)

lemma kept_recv:
  assumes "recvWork lib rc_addr_recv (\<lambda>h. rc_send (tx_send h)) rc_tx_recv s s'" and "kept lib s"
    and "binv (fst (f_backend s))"
  shows "kept lib s'"
  using assms
proof (induction rule: recvWork.induct)
  case (address s resp b' a')
  then show ?case
    by (auto simp: kept_def passed_on_def recorder_addr_recv_def recorded_def recorder_keys_def filed_away_def
        split: list.splits dest!: file_address_eq sym [of _ "fst (snd _)"])
next
  case (address_panic s resp b' e)
  then show ?case
    by (auto simp: kept_def passed_on_def recorder_addr_recv_def recorded_def recorder_keys_def filed_away_def
        split: list.splits dest!: sym [of _ "fst (snd _)"])
next
  case (unknown s resp h hs b')
  then show ?case
    using tx_send_owed [of "fst (f_backend s)" h "fst b'"] by (simp add: kept_def passed_on_def count_seen_def)
next
  case (extend s resp a')
  then show ?case by (auto simp: kept_def passed_on_def dest!: extend_lookahead_eq)
next
  case (transaction s resp b')
  then show ?case
    by (auto simp: kept_def passed_on_def recorder_tx_recv_def recorded_def recorder_keys_def filed_away_def
        file_transaction_def split: list.splits dest!: sym [of _ "fst (snd _)"])
qed (simp_all add: kept_def passed_on_def)

lemma kept_reached:
  assumes "(fetch_step lib (recorder_work work addr_recv tx_recv block_recv)
      (\<lambda>a. rc_send (addr_send a)) rc_addr_recv (\<lambda>h. rc_send (tx_send h)) rc_tx_recv)\<^sup>*\<^sup>*
      (fetch_start (New d la bh) rep (b, NewRecorderBackend file, Idle)) s"
    and block: "\<And>b k b'. binv b \<Longrightarrow> block_recv b k b' \<Longrightarrow>
        binv b' \<and> addr_owed b' = addr_owed b \<and> tx_owed b' = tx_owed b"
    and b: "binv b" "addr_owed b = {#}" "tx_owed b = {#}" and "\<not> panicked s"
    and string: "\<And>a. Address_String (ar_Address (addr_answer a)) = Address_String a"
  shows "kept lib s"
  using assms(1,6)
proof (induction rule: rtranclp_induct)
  case base
  then show ?case
    by (simp add: kept_def fetch_start_def asked_def asked_change_def recorded_def recorder_keys_new
        filed_away_def passed_on_def New_def) (simp add: NewRecorderBackend_def)
next
  case (step s s')
  let ?b = "(b, NewRecorderBackend file, Idle)"
  have R: "backend_contract (recorder_work work addr_recv tx_recv block_recv)
      (\<lambda>a. rc_send (addr_send a)) rc_addr_recv (\<lambda>h. rc_send (tx_send h)) rc_tx_recv
      (recorder_addr_owed addr_owed) (recorder_tx_owed tx_owed) addr_answer tx_answer (\<lambda>s. binv (fst s))"
    by (rule recorder_contract) (rule block)
  have start: "binv (fst ?b)" "recorder_addr_owed addr_owed ?b = {#}" "recorder_tx_owed tx_owed ?b = {#}"
    using b by (simp_all add: recorder_idle)
  have np: "\<not> panicked s" using backend_contract.panicked_stays [OF R step(2)] .
  note reached = backend_contract.fetch_reached [OF R step(1) start np]
  note facts = backend_contract.reached_facts [OF R reached]
  have owed: "set_mset (addr_owed (fst (f_backend s))) \<subseteq> set_mset (recorder_addr_owed addr_owed (f_backend s))"
    "set_mset (tx_owed (fst (f_backend s))) \<subseteq> set_mset (recorder_tx_owed tx_owed (f_backend s))"
    by (auto simp: recorder_addr_owed_def recorder_tx_owed_def split: prod.splits)
  note kept = step(3) [OF np]
  from step(2) show ?case
  proof cases
    case send
    show ?thesis by (rule kept_send [OF send(2) kept facts(2,1)])
  next
    case recv
    show ?thesis by (rule kept_recv [OF recv(2) kept facts(1)])
  next
    case (backend bs)
    show ?thesis
      unfolding backend(1)
    proof (rule kept_work [OF backend(3) kept _ facts(1) string])
      show "\<exists>a\<in>#asked lib (ac_deriver (f_acc s)) (f_indexes s). r = addr_answer a"
        if "r \<in># addr_owed (fst (f_backend s))" for r using facts(4) owed(1) that by blast
      show "tx_answer (tr_Hash t) = Some t" if "t \<in># tx_owed (fst (f_backend s))" for t
        using facts(5) owed(2) that by blast
    qed (rule block)
  qed
qed

text \<open>The answers of a fixture loaded from the file are those that were given.\<close>

lemma file_answers:
  assumes rec: "recorded addr_answer tx_answer as rb" and filed: "filed_away addr_answer as {#} rb"
    and string: "\<And>a. Address_String (ar_Address (addr_answer a)) = Address_String a"
    and inj: "inj_on Address_String (set_mset as)"
    and enum: "enumerates addrs (rb_addrIndex rb)" "enumerates hashes (rb_txIndex rb)" "enumerates heights (rb_blockIndex rb)"
  shows "a \<in># as \<Longrightarrow>
      fixture_processAddrRequest (fixture_of (writeToFile h addrs hashes heights rb)) a = addr_answer a"
    and "rb_txIndex rb hash \<noteq> None \<Longrightarrow>
      fixture_processTxRequest (fixture_of (writeToFile h addrs hashes heights rb)) hash = tx_answer hash"
proof -
  have keys: "recorder_keys rb" using rec by (simp add: recorded_def)
  have j: "fb_addrIndex (fixture_of (writeToFile h addrs hashes heights rb)) = rb_addrIndex rb"
    "fb_txIndex (fixture_of (writeToFile h addrs hashes heights rb)) = rb_txIndex rb"
    using recorded_file [OF keys enum] by (simp_all add: Let_def)
  show "fixture_processAddrRequest (fixture_of (writeToFile h addrs hashes heights rb)) a = addr_answer a" if a: "a \<in># as"
  proof -
    obtain r where r: "rb_addrIndex rb (Address_String a) = Some r" using filed a by (auto simp: filed_away_def)
    then obtain a' where a': "a' \<in># as" "r = addr_answer a'" using rec by (auto simp: recorded_def)
    have "Address_String a' = Address_String a" using recorder_keysD(1) [OF keys r] string by (simp add: a'(2))
    then have "a' = a" using inj a a'(1) by (simp add: inj_on_def)
    then show ?thesis using r by (simp add: fixture_processAddrRequest_def j a'(2))
  qed
  show "fixture_processTxRequest (fixture_of (writeToFile h addrs hashes heights rb)) hash = tx_answer hash"
    if "rb_txIndex rb hash \<noteq> None"
    using that rec by (auto simp: fixture_processTxRequest_def j recorded_def)
qed

lemma replayed:
  assumes run: "(fetch_step lib (recorder_work work addr_recv tx_recv block_recv)
      (\<lambda>a. rc_send (addr_send a)) rc_addr_recv (\<lambda>h. rc_send (tx_send h)) rc_tx_recv)\<^sup>*\<^sup>*
      (fetch_start (New d la bh) rep (b, NewRecorderBackend file, Idle)) s"
    and block: "\<And>b k b'. binv b \<Longrightarrow> block_recv b k b' \<Longrightarrow>
        binv b' \<and> addr_owed b' = addr_owed b \<and> tx_owed b' = tx_owed b"
    and b: "binv b" "addr_owed b = {#}" "tx_owed b = {#}" and s: "\<not> panicked s" "f_receiver s = Returned"
    and string: "\<And>a. Address_String (ar_Address (addr_answer a)) = Address_String a"
    and fit: "counts_fit lib d addr_answer (ac_lastAddresses (f_acc s))"
    and inj: "inj_on Address_String (set_mset (asked lib d (ac_lastAddresses (f_acc s))))"
    and backend: "f_backend s = (b', rb, w)"
    and enum: "enumerates addrs (rb_addrIndex rb)" "enumerates hashes (rb_txIndex rb)" "enumerates heights (rb_blockIndex rb)"
    and t: "(fixture_program lib)\<^sup>*\<^sup>*
      (fetch_start (New d la bh) rep' (fixture_started (writeToFile h addrs hashes heights rb))) t"
      "\<not> panicked t" "f_receiver t = Returned"
  shows "same_result (f_acc s) (f_acc t)"
proof -
  let ?b = "(b, NewRecorderBackend file, Idle)" and ?j = "writeToFile h addrs hashes heights rb"
  have R: "backend_contract (recorder_work work addr_recv tx_recv block_recv)
      (\<lambda>a. rc_send (addr_send a)) rc_addr_recv (\<lambda>h. rc_send (tx_send h)) rc_tx_recv
      (recorder_addr_owed addr_owed) (recorder_tx_owed tx_owed) addr_answer tx_answer (\<lambda>s. binv (fst s))"
    by (rule recorder_contract) (rule block)
  have start: "binv (fst ?b)" "recorder_addr_owed addr_owed ?b = {#}" "recorder_tx_owed tx_owed ?b = {#}"
    using b by (simp_all add: recorder_idle)
  have small: "unat (ac_lastAddresses (f_acc s) ! 0) + unat (ac_lastAddresses (f_acc s) ! 1) < 2 ^ 32"
    using fit by (simp add: counts_fit_def)
  have rest: "f_indexes s = ac_lastAddresses (f_acc s)" "addr_owed b' = {#}"
    using backend_contract.returned_at_rest [OF R run start s small]
    by (simp_all add: backend recorder_addr_owed_def)
  have fs: "fetched lib d la addr_answer tx_answer (f_acc s)" "ac_blockHeight (f_acc s) = bh"
    "\<And>K. closed_bounds lib d la addr_answer K \<Longrightarrow> within s K"
    using backend_contract.fetch_completed [OF R run start s fit] by blast+
  have d: "ac_deriver (f_acc s) = d"
    using backend_contract.reached_facts(3) [OF R backend_contract.fetch_reached [OF R run start s(1)]]
    by (simp add: params_def)
  have kept: "recorded addr_answer tx_answer (asked lib d (ac_lastAddresses (f_acc s))) rb"
    "filed_away addr_answer (asked lib d (ac_lastAddresses (f_acc s))) {#} rb" "passed_on (f_acc s) (rb, w)"
    using kept_reached [OF run block b s(1) string] by (simp_all add: kept_def backend rest d)
  note replies = file_answers [OF kept(1,2) string inj enum]
  have tx: "rb_txIndex rb hash \<noteq> None" if "hash \<in> listed lib d addr_answer (ac_lastAddresses (f_acc s))" for hash
    using fs(1) kept(3) that by (auto simp: fetched_def passed_on_def)
  have np: "fx.reached ?j lib d la bh t" by (rule fx.fetch_reached [OF t(1) fixture_start_facts t(2)])
  show ?thesis
  proof (rule fetched_alike [OF fs(1,3,2) fit])
    show "fetched lib d la (fixture_processAddrRequest (fixture_of ?j)) (fixture_processTxRequest (fixture_of ?j)) (f_acc t)"
      if "counts_fit lib d (fixture_processAddrRequest (fixture_of ?j)) (ac_lastAddresses (f_acc t))"
      using fixture_completed [OF t that] by simp
    show "within t K" if "closed_bounds lib d la (fixture_processAddrRequest (fixture_of ?j)) K" for K
      using np that by (simp add: fx.reached_def)
    show "ac_blockHeight (f_acc t) = bh" using np by (simp add: fx.reached_def params_def)
  qed (use replies tx in auto)
qed

end

end
