(* ===== verification/Recordings.thy ===== *)
theory Recordings
  imports Program Replay
begin

text \<open>
  The fixture files of \<^verbatim>\<open>main.go\<close>: \<^verbatim>\<open>compute-balance\<close> over one of the recorder backends writes the file
  that \<^verbatim>\<open>compute-balance\<close> over the fixture backend reads.  The theorem composes the pool of servers that is
  recorded, the recorder, the file and the fixture backend.
\<close>

section \<open>A recorded fetch\<close>

text \<open>The accounter and the recorder after a fetch over a recorder backend has returned.\<close>

inductive records ::
    "('k, 'p) btc_lib \<Rightarrow> 'c conn_ops \<Rightarrow> (bool \<Rightarrow> string \<Rightarrow> 'c fallible \<Rightarrow> bool) \<Rightarrow> accounter \<Rightarrow> reporter
      \<Rightarrow> 'c some_backend \<Rightarrow> accounter \<Rightarrow> recorder_backend \<Rightarrow> bool"
  for lib conn dials a rep where
  records_electrum: "(recorded_electrum_program lib conn dials)\<^sup>*\<^sup>* (fetch_start a rep (b, rec)) s \<Longrightarrow>
     \<not> panicked s \<Longrightarrow> f_receiver s = Returned \<Longrightarrow> f_backend s = (b', rb, w) \<Longrightarrow>
     records lib conn dials a rep (OnRecorder (OnElectrum b) rec) (f_acc s) rb"
| records_btcd: "(recorded_btcd_program lib client)\<^sup>*\<^sup>* (fetch_start a rep (b, rec)) s \<Longrightarrow>
     \<not> panicked s \<Longrightarrow> f_receiver s = Returned \<Longrightarrow> f_backend s = (b', rb, w) \<Longrightarrow>
     records lib conn dials a rep (OnRecorder (OnBtcd client b) rec) (f_acc s) rb"

section \<open>Property\<close>

text \<open>
  C4: a recording replays the fetch it was made of.  When \<^verbatim>\<open>compute-balance\<close> over a recorder, in front of
  Electrum servers that agree with each other or of a btcd node, has fetched a wallet, the file that the
  recorder writes, read by the fixture backend, lets every run of the fetch that returns end with the same
  bounds, transactions, scripts and block height, whatever the interleaving of both runs and the orders in
  which the runtime ranges over the recorder's maps.
\<close>

theorem recording_replays:
  assumes "computeBalanceBuildBackend W fl network = Inr (Inr B)" and "serves lib (w_conn W) B aa ta"
    and "records lib (w_conn W) dials (New d la bh) rep B acc rb"
    and "counts_fit lib d aa (ac_lastAddresses acc)"
    and "inj_on Address_String (set_mset (asked lib d (ac_lastAddresses acc)))"
    and "enumerates addrs (rb_addrIndex rb)" and "enumerates hashes (rb_txIndex rb)" and "enumerates heights (rb_blockIndex rb)"
    and "(fixture_program lib)\<^sup>*\<^sup>*
      (fetch_start (New d la bh) rep' (fixture_started (writeToFile h addrs hashes heights rb))) t"
    and "\<not> panicked t" and "f_receiver t = Returned"
  shows "same_result acc (f_acc t)"
proof -
  note fresh = built_fresh [OF assms(1)]
  note string = serves_string [OF assms(2)]
  from assms(3) show ?thesis
  proof cases
    case (records_electrum b rec s b' w)
    with fresh assms(2) obtain addr port V fname where aa: "aa = electrum_addr_answer V" and rec: "rec = (NewRecorderBackend fname, Idle)"
      and new: "NewElectrumBackend (w_conn W) (w_dial1 W) (w_dial2 W) addr port network = Inr (Inr b)" "honest (w_conn W) V"
      by (auto elim!: serves_cases)
    show ?thesis
      unfolding records_electrum(2)
      by (rule backend_contract.replayed [OF el.backend_contract_axioms records_electrum(3) [unfolded rec] el_block_owed electrum_start_facts [OF new] records_electrum(4,5)
          string [unfolded aa] assms(4,5) [unfolded aa records_electrum(2)] records_electrum(6) assms(6-11)])
  next
    case (records_btcd client b rec s b' w)
    with fresh assms(2) obtain addr port user pass b0 fname where b: "b = btcd_started b0" and aa: "aa = btcd_addr_answer lib client"
      and rec: "rec = (NewRecorderBackend fname, Idle)"
      and new: "NewBtcdBackend (w_rpc W) addr port user pass network = Inr (Inr (client, b0))" "node_ok lib client"
      by (auto elim!: serves_cases)
    show ?thesis
      unfolding records_btcd(2)
      by (rule backend_contract.replayed [OF bd.backend_contract_axioms records_btcd(3) [unfolded rec b] bd_block_owed btcd_start_facts [OF new] records_btcd(4,5)
          string [unfolded aa] assms(4,5) [unfolded aa records_btcd(2)] records_btcd(6) assms(6-11)])
  qed
qed

section \<open>Witness\<close>

text \<open>
  The wallet on the btcd node of the theory \<open>BtcdBalance\<close>, recorded; the file that is written; and the
  fetch over that file.
\<close>

definition demo_recording :: "string \<Rightarrow> ((btcd_backend \<times> btcd_worker list) \<times> recorder_backend \<times> worker) fetch" where
  "demo_recording txhex = run demo_lib (recorded_ops (btcd_ops demo_lib (demo_node txhex))) 200
     (fetch_start (New demo_deriver 2 25) new_reporter (btcd_started (demo_btcd txhex), NewRecorderBackend ''f'', Idle))"

definition demo_entry :: "string \<Rightarrow> u32 \<Rightarrow> u32 \<Rightarrow> string list \<Rightarrow> string \<times> AddrResponse" where
  "demo_entry addr c i hs = (addr, \<lparr>ar_Address = NewAddress (derive_path c i) addr Testnet c i, ar_TxHashes = hs\<rparr>)"

definition demo_entries :: "(string \<times> AddrResponse) list" where
  "demo_entries = [demo_entry ''410000'' 0 0 [], demo_entry ''410001'' 0 1 [''aa''], demo_entry ''410002'' 0 2 [], 
     demo_entry ''410100'' 1 0 [], demo_entry ''410101'' 1 1 []]"

definition demo_keeps :: "string \<Rightarrow> recorder_backend \<Rightarrow> u32 \<Rightarrow> string \<Rightarrow> bool" where
  "demo_keeps txhex rb n k \<longleftrightarrow>
   map (rb_addrIndex rb) (map fst demo_entries) = map (Some \<circ> snd) demo_entries \<and>
   rb_txIndex rb ''aa'' = Some \<lparr>tr_Hash = ''aa'', tr_Height = 10, tr_Hex = txhex\<rparr> \<and>
   rb_blockIndex rb n = None \<and> (rb_txIndex rb k \<noteq> None \<longrightarrow> k = ''aa'') \<and>
   (rb_addrIndex rb k \<noteq> None \<longrightarrow> k \<in> {''410000'', ''410001'', ''410002'', ''410100'', ''410101''})"

definition demo_outcome :: "string \<Rightarrow> ((btcd_backend \<times> btcd_worker list) \<times> recorder_backend \<times> worker) fetch \<Rightarrow> u32 \<Rightarrow> string \<Rightarrow> bool" where
  "demo_outcome txhex s n k \<longleftrightarrow> observed s = (Returned, False, [3, 2]) \<and> demo_keeps txhex (fst (snd (f_backend s))) n k"

lemma demo_outcome: "demo_outcome txhex (demo_recording txhex) n k"
  by code_simp auto

abbreviation "demo_recorder txhex \<equiv> fst (snd (f_backend (demo_recording txhex)))"

lemma demo_keeps: "demo_keeps txhex (demo_recorder txhex) n k"
  using demo_outcome [of txhex n k] by (simp add: demo_outcome_def)

lemma demo_index:
  "rb_blockIndex (demo_recorder txhex) n = None"
  "rb_txIndex (demo_recorder txhex) k = Some t \<Longrightarrow> k = ''aa''"
  "rb_txIndex (demo_recorder txhex) ''aa'' = Some \<lparr>tr_Hash = ''aa'', tr_Height = 10, tr_Hex = txhex\<rparr>"
  "e \<in> set demo_entries \<Longrightarrow> rb_addrIndex (demo_recorder txhex) (fst e) = Some (snd e)"
  "rb_addrIndex (demo_recorder txhex) k \<noteq> None \<Longrightarrow> k \<in> {''410000'', ''410001'', ''410002'', ''410100'', ''410101''}"
proof -
  note keeps = demo_keeps [of txhex n k, unfolded demo_keeps_def]
  show "rb_addrIndex (demo_recorder txhex) (fst e) = Some (snd e)" if "e \<in> set demo_entries"
    using conjunct1 [OF keeps] that unfolding map_map map_eq_conv comp_apply by (rule bspec)
  show "rb_blockIndex (demo_recorder txhex) n = None"
    "rb_txIndex (demo_recorder txhex) ''aa'' = Some \<lparr>tr_Hash = ''aa'', tr_Height = 10, tr_Hex = txhex\<rparr>"
    using keeps by simp_all
  show "rb_txIndex (demo_recorder txhex) k = Some t \<Longrightarrow> k = ''aa''"
    using keeps by simp
  show "rb_addrIndex (demo_recorder txhex) k \<noteq> None \<Longrightarrow> k \<in> {''410000'', ''410001'', ''410002'', ''410100'', ''410101''}"
    using keeps by blast
qed

definition demo_file :: "string \<Rightarrow> json_index" where
  "demo_file txhex = writeToFile 1000 (map fst demo_entries) [''aa''] [] ((NewRecorderBackend ''f'')
     \<lparr>rb_addrIndex := map_of demo_entries, rb_txIndex := [''aa'' \<mapsto> \<lparr>tr_Hash = ''aa'', tr_Height = 10, tr_Hex = txhex\<rparr>]\<rparr>)"

definition demo_replay :: "string \<Rightarrow> (fixture_backend \<times> worker) fetch" where
  "demo_replay txhex = run demo_lib fixture_ops 200
     (fetch_start (New demo_deriver 2 25) new_reporter (fixture_started (demo_file txhex)))"

definition demo_replay_outcome :: "(fixture_backend \<times> worker) fetch \<Rightarrow> bool" where
  "demo_replay_outcome s \<longleftrightarrow> observed s = (Returned, False, [3, 2]) \<and> ac_transactions (f_acc s) ''aa'' \<noteq> None"

lemma demo_replay_outcome: "demo_replay_outcome (demo_replay txhex)"
  by code_simp

lemma demo_distinct: "distinct (map Address_String demo_addresses)" "distinct (map fst demo_entries)"
    "set (map fst demo_entries) = {''410000'', ''410001'', ''410002'', ''410100'', ''410101''}"
  by code_simp+

lemma demo_enumerates: "enumerates (map fst demo_entries) (rb_addrIndex (demo_recorder txhex))"
    "enumerates [''aa''] (rb_txIndex (demo_recorder txhex))" "enumerates [] (rb_blockIndex (demo_recorder txhex))"
proof -
  have "set (map fst demo_entries) \<subseteq> dom (rb_addrIndex (demo_recorder txhex))" using demo_index(4) by auto
  moreover have "dom (rb_addrIndex (demo_recorder txhex)) \<subseteq> set (map fst demo_entries)"
    unfolding demo_distinct(3) using demo_index(5) by blast
  ultimately show "enumerates (map fst demo_entries) (rb_addrIndex (demo_recorder txhex))"
    using demo_distinct(2) by (simp add: enumerates_def)
  show "enumerates [''aa''] (rb_txIndex (demo_recorder txhex))" "enumerates [] (rb_blockIndex (demo_recorder txhex))"
    using demo_index(1) demo_index(3) by (auto simp: enumerates_def dom_def dest: demo_index(2))
qed

lemma demo_written: "writeToFile 1000 (map fst demo_entries) [''aa''] [] (demo_recorder txhex) = demo_file txhex"
proof -
  have "rb_addrIndex (demo_recorder txhex) (fst e) = map_of demo_entries (fst e)" if "e \<in> set demo_entries" for e
    using demo_index(4) [OF that] demo_distinct(2) that by (simp add: map_of_is_SomeI)
  then show ?thesis
    by (simp add: writeToFile_def demo_file_def demo_index(3) cong: map_cong)
qed

definition demo_recorder_world :: "string \<Rightarrow> (string list \<times> bool) world" where
  "demo_recorder_world txhex = (demo_world txhex)\<lparr>w_rpc := (\<lambda>_ _ _. Inr (demo_node txhex))\<rparr>"

definition demo_recorder_flags :: backend_flags where
  "demo_recorder_flags = \<lparr>fl_backend = ''btcd-recorder'', fl_addr = [], fl_rpcuser = ''u'', fl_rpcpass = ''p'',
     fl_fixtureFile = ''f''\<rparr>"

lemma demo_recorder_built: "computeBalanceBuildBackend (demo_recorder_world txhex) demo_recorder_flags Testnet
    = Inr (Inr (OnRecorder (OnBtcd (demo_node txhex) (btcd_started (demo_btcd txhex))) (NewRecorderBackend ''f'', Idle)))"
proof -
  have "GetDefaultServer Testnet Btcd [] = Inr (''localhost'', ''18334'')" by code_simp
  then show ?thesis
    using demo_btcd_new [of txhex]
    by (simp add: computeBalanceBuildBackend_def demo_recorder_flags_def build_recorder_def build_btcd_def demo_recorder_world_def)
qed

lemma demo_records: "records demo_lib conn dials (New demo_deriver 2 25) new_reporter
    (OnRecorder (OnBtcd (demo_node txhex) (btcd_started (demo_btcd txhex))) (NewRecorderBackend ''f'', Idle))
    (f_acc (demo_recording txhex)) (demo_recorder txhex)"
proof -
  obtain b rb w where s: "f_backend (demo_recording txhex) = (b, rb, w)" by (metis prod_cases3)
  have "(recorded_btcd_program demo_lib (demo_node txhex))\<^sup>*\<^sup>* (fetch_start (New demo_deriver 2 25) new_reporter
      (btcd_started (demo_btcd txhex), NewRecorderBackend ''f'', Idle)) (demo_recording txhex)"
    unfolding demo_recording_def by (rule scheduler.run_sound [OF btcd_sched.recorded_scheduler])
  then show ?thesis
    using records_btcd [OF _ _ _ s] demo_outcome [of txhex] s by (simp add: demo_outcome_def observed_def)
qed

theorem recording_replays_witness:
  "ac_transactions (f_acc (demo_recording demo_hex)) ''aa'' \<noteq> None \<and>
   same_result (f_acc (demo_recording demo_hex)) (f_acc (demo_replay demo_hex))"
proof -
  let ?s = "demo_recording demo_hex" and ?t = "demo_replay demo_hex"
  have l: "ac_lastAddresses (f_acc ?s) = [3, 2]" using demo_outcome [of demo_hex] by (simp add: demo_outcome_def observed_def)
  have fit: "counts_fit demo_lib demo_deriver (btcd_addr_answer demo_lib (demo_node demo_hex)) (ac_lastAddresses (f_acc ?s))"
    by (simp add: l demo_btcd_fits)
  have inj: "inj_on Address_String (set_mset (asked demo_lib demo_deriver (ac_lastAddresses (f_acc ?s))))"
    using demo_distinct(1) by (simp add: l demo_asked distinct_map)
  have serves: "serves demo_lib (w_conn (demo_recorder_world demo_hex))
      (OnRecorder (OnBtcd (demo_node demo_hex) (btcd_started (demo_btcd demo_hex))) (NewRecorderBackend ''f'', Idle))
      (btcd_addr_answer demo_lib (demo_node demo_hex)) (btcd_tx_answer (demo_node demo_hex))"
    by (intro serves.intros demo_node_ok)
  have t: "(fixture_program demo_lib)\<^sup>*\<^sup>* (fetch_start (New demo_deriver 2 25) new_reporter
      (fixture_started (writeToFile 1000 (map fst demo_entries) [''aa''] [] (demo_recorder demo_hex)))) ?t"
    unfolding demo_written demo_replay_def by (rule fixture_sched.run_sound)
  have "\<not> panicked ?t" "f_receiver ?t = Returned"
    using demo_replay_outcome [of demo_hex] by (simp_all add: demo_replay_outcome_def observed_def)
  from recording_replays [OF demo_recorder_built serves demo_records fit inj demo_enumerates t this]
  have "same_result (f_acc ?s) (f_acc ?t)" .
  moreover have "ac_transactions (f_acc ?t) ''aa'' \<noteq> None"
    using demo_replay_outcome [of demo_hex] by (simp add: demo_replay_outcome_def)
  ultimately show ?thesis by (simp add: same_result_def)
qed

end
