(* ===== verification/ElectrumBalance.thy ===== *)
theory ElectrumBalance
  imports ComputeBalance ElectrumPool
begin

text \<open>
  \<^verbatim>\<open>ComputeBalance\<close> of \<^verbatim>\<open>accounter/accounter.go\<close> over the goroutines of \<^verbatim>\<open>backend/electrum_backend.go\<close>: the
  end to end theorem, an executable schedule and a wallet on which it is run.
\<close>

text \<open>
  C23: the balance of a wallet on Electrum servers.  Over servers that agree with each other and whose
  histories tell the truth about a ledger, the only thing \<open>ComputeBalance\<close> can give is the sum of the
  wallet's confirmed unspent coins, for every interleaving of the accounter with the workers, whatever
  servers are found, fail or disappear on the way.
\<close>

theorem electrum_wallet_balance:
  assumes "NewElectrumBackend conn dial1 dial2 addr port network = Inr (Inr b)" and "honest conn V"
    and "ComputeBalance (electrum_program lib conn dials) (fetch_start (New d la bh) rep b) r"
    and "least_bounds lib d la (electrum_addr_answer V) K"
    and "servable lib d (electrum_addr_answer V) K"
    and "counts_fit lib d (electrum_addr_answer V) K"
    and "truthful lib d L (electrum_addr_answer V) (\<lambda>h. Some (electrum_tx_answer V h)) K"
    and "valid_history (wallet_scripts lib d K) (confirmed bh L)"
    and "amounts_ok (wallet_scripts lib d K) (confirmed bh L)"
  shows "\<exists>w. r = Inr w \<and>
    uint w = (\<Sum>op\<in>unspent_coins (wallet_scripts lib d K) (confirmed bh L). amount (confirmed bh L) op)"
  by (rule el.ComputeBalance_correct [OF assms(3) electrum_start_facts [OF assms(1,2)] assms(4-9)])

section \<open>An executable schedule\<close>

text \<open>The first goroutine of the pool does all the work; an idle one takes an address first.\<close>

definition run_thread :: "'c conn_ops \<Rightarrow> 'c electrum_backend \<Rightarrow> thread \<Rightarrow> ('c electrum_backend \<times> thread) option" where
  "run_thread conn b t =
     (case t of
        EIdle i \<Rightarrow> (case eb_addrRequests b of a # q \<Rightarrow> Some (b\<lparr>eb_addrRequests := q\<rparr>, EAddr i a)
          | [] \<Rightarrow> (case eb_txRequests b of h # q \<Rightarrow> Some (b\<lparr>eb_txRequests := q\<rparr>, ETx i h) | [] \<Rightarrow> None))
      | EAddr i a \<Rightarrow>
          (case BlockchainAddressGetHistory conn (Address_String a) (eb_heap b ! i) of
             (Inr txs, n) \<Rightarrow> Some (set_node i n b, ECache i a txs)
           | (Inl err, n) \<Rightarrow> Some (set_node i n b, EDrop i (JAddr a)))
      | ECache i a txs \<Rightarrow>
          (case cache_history txs (eb_transactions b) of
             Inr (hs, m) \<Rightarrow> Some (b\<lparr>eb_transactions := m\<rparr>, ESendAddr i \<lparr>ar_Address = a, ar_TxHashes = hs\<rparr>)
           | Inl e \<Rightarrow> None)
      | ESendAddr i r \<Rightarrow>
          if length (eb_addrResponses b) < 2 * maxPeers
          then Some (b\<lparr>eb_addrResponses := eb_addrResponses b @ [r]\<rparr>, EIdle i) else None
      | ETx i h \<Rightarrow>
          (case BlockchainTransactionGet conn h (eb_heap b ! i) of
             (Inr hex, n) \<Rightarrow> Some (set_node i n b, EHeight i h hex)
           | (Inl err, n) \<Rightarrow> Some (set_node i n b, EDrop i (JTx h)))
      | EHeight i h hex \<Rightarrow>
          (case getTxHeight h (eb_transactions b) of
             Inr k \<Rightarrow> Some (b, ESendTx i \<lparr>tr_Hash = h, tr_Height = k, tr_Hex = hex\<rparr>) | Inl e \<Rightarrow> None)
      | ESendTx i r \<Rightarrow>
          if length (eb_txResponses b) < 2 * maxPeers
          then Some (b\<lparr>eb_txResponses := eb_txResponses b @ [r]\<rparr>, EIdle i) else None
      | _ \<Rightarrow> None)"

lemma run_thread_sound: "run_thread conn b t = Some (b', t') \<Longrightarrow> electrum_step conn dials (b, t) (b', t', [])"
  by (auto simp: run_thread_def split: thread.splits list.splits sum.splits prod.splits if_splits
      intro: electrum_step.intros)

definition electrum_ops :: "'c conn_ops \<Rightarrow> ('c electrum_backend \<times> thread list) ops" where
  "electrum_ops conn =
     \<lparr>op_addr_send = (\<lambda>a (b, ts). map_option (\<lambda>b. (b, ts)) (electrum_addr_send a b)),
      op_addr_recv = (\<lambda>(b, ts). map_option (\<lambda>(r, b). (r, b, ts)) (electrum_addr_recv b)),
      op_tx_send = (\<lambda>h (b, ts). map_option (\<lambda>b. (b, ts)) (electrum_tx_send h b)),
      op_tx_recv = (\<lambda>(b, ts). map_option (\<lambda>(t, b). (t, b, ts)) (electrum_tx_recv b)),
      op_work = (\<lambda>(b, ts). case ts of [] \<Rightarrow> None
        | t # rest \<Rightarrow> map_option (\<lambda>(b, t). (b, t # rest)) (run_thread conn b t))\<rparr>"

interpretation electrum_sched: scheduler "electrum_processRequests conn dials" el_addr_send el_addr_recv el_tx_send el_tx_recv
    "electrum_ops conn"
  for conn dials
proof
  fix b b'
  assume "op_work (electrum_ops conn) b = Some b'"
  then obtain c t rest c' t' where "b = (c, t # rest)" "b' = (c', t' # rest)" and "run_thread conn c t = Some (c', t')"
    by (auto simp: electrum_ops_def split: prod.splits list.splits)
  then show "electrum_processRequests conn dials b b'"
    using electrum_processRequests.goroutine [of 0 "t # rest" conn dials c c' t' "[]"] by (simp add: run_thread_sound)
qed (auto simp: electrum_ops_def split: prod.splits)

section \<open>A wallet on an Electrum server\<close>

text \<open>
  A server that answers every request at once.  A request is written as its number, the last letter of its
  method and its first parameter.
\<close>

definition demo_result :: "string \<Rightarrow> char \<Rightarrow> string \<Rightarrow> json" where
  "demo_result txhex k p =
     (if k = CHR ''s'' then JObject [(''protocol_max'', JString ''1.4''), (''genesis_hash'', JString (projr (GenesisBlock Testnet)))]
      else if k = CHR ''y'' then
        (if p = ''410001'' then JArray [JObject [(''tx_hash'', JString ''t''), (''height'', JInt 10)]] else JArray [])
      else if k = CHR ''t'' then JString txhex
      else if k = CHR ''e'' then JObject [(''height'', JInt 1000)]
      else JNull)"

definition demo_conn :: "string \<Rightarrow> string conn_ops" where
  "demo_conn txhex =
     \<lparr>conn_Write = (\<lambda>b c. ((length b, None), b)),
      conn_ReadBytes = (\<lambda>d c. (Inr c, c)),
      conn_Close = (\<lambda>c. (None, c)),
      json_Marshal = (\<lambda>m. Inr (char_of (unat (rq_Id m)) # last (rq_Method m)
        # (case rq_Params m of JString s # _ \<Rightarrow> s | _ \<Rightarrow> []))),
      json_Unmarshal = (\<lambda>l. case l of i # k # p \<Rightarrow> Inr (answer (of_nat (of_char i)) (demo_result txhex k (butlast p)))
        | _ \<Rightarrow> Inl (Errorf ''unexpected end of JSON input'' []))\<rparr>"

definition demo_view :: "string \<Rightarrow> view" where
  "demo_view txhex =
     \<lparr>v_history = (\<lambda>s. if s = ''410001'' then [\<lparr>et_Hash = ''t'', et_Height = 10\<rparr>] else []),
      v_raw = (\<lambda>h. txhex), v_height = (\<lambda>h. 10)\<rparr>"

lemma demo_request:
  assumes "request (demo_conn txhex) meth ps n = (Inr v, n')"
  shows "v = demo_result txhex (last meth) (case ps of JString s # _ \<Rightarrow> s | _ \<Rightarrow> [])"
  using assms
  by (auto simp: request_def SendMessage_def demo_conn_def Let_def split: option.splits if_splits)

lemma on_result_Inr: "on_result f r = (Inr y, n) \<longleftrightarrow> (\<exists>x. r = (Inr x, n) \<and> y = f x)"
  by (cases r; cases "fst r") auto

lemma demo_honest: "honest (demo_conn txhex) (demo_view txhex)"
  unfolding honest_def
proof (intro conjI allI impI ballI)
  fix s n txs n'
  assume "BlockchainAddressGetHistory (demo_conn txhex) s n = (Inr txs, n')"
  then obtain v where "request (demo_conn txhex) ''blockchain.address.get_history'' [JString s] n = (Inr v, n')"
    and txs: "txs = map (store_pointer store_transaction) (json_elements v)"
    by (auto simp: BlockchainAddressGetHistory_def on_result_Inr)
  from demo_request [OF this(1)] have "v = demo_result txhex (CHR ''y'') s" by simp
  moreover have "store_transaction (JObject [(''tx_hash'', JString ''t''), (''height'', JInt 10)]) = \<lparr>et_Hash = ''t'', et_Height = 10\<rparr>"
    by code_simp
  ultimately show "txs = map Some (v_history (demo_view txhex) s)"
    by (simp add: txs demo_result_def demo_view_def)
next
  fix h n hex n'
  assume "BlockchainTransactionGet (demo_conn txhex) h n = (Inr hex, n')"
  then obtain v where "request (demo_conn txhex) ''blockchain.transaction.get'' [JString h, JBool False] n = (Inr v, n')"
    and hex: "hex = store_string v []"
    by (auto simp: BlockchainTransactionGet_def on_result_Inr)
  from demo_request [OF this(1)] show "hex = v_raw (demo_view txhex) h"
    by (simp add: hex demo_result_def demo_view_def)
qed (auto simp: demo_view_def)

definition demo_electrum_new :: "string \<Rightarrow> (string electrum_backend \<times> thread list) fallible result" where
  "demo_electrum_new txhex = NewElectrumBackend (demo_conn txhex) (\<lambda>_. Inr [], \<lambda>_. Inr []) (\<lambda>_. Inr [], \<lambda>_. Inr []) ''h'' ''t'' Testnet"

definition demo_electrum :: "string \<Rightarrow> string electrum_backend \<times> thread list" where
  "demo_electrum txhex = projr (projr (demo_electrum_new txhex))"

lemma demo_electrum_new: "demo_electrum_new txhex = Inr (Inr (demo_electrum txhex))"
proof -
  have "(case demo_electrum_new txhex of Inr (Inr s) \<Rightarrow> True | _ \<Rightarrow> False)" by code_simp
  then show ?thesis by (auto simp: demo_electrum_def split: sum.splits)
qed

definition demo_electrum_run :: "string \<Rightarrow> (string electrum_backend \<times> thread list) fetch" where
  "demo_electrum_run txhex = run demo_lib (electrum_ops (demo_conn txhex)) 200
     (fetch_start (New demo_deriver 2 25) new_reporter (demo_electrum txhex))"

lemma demo_electrum_observed: "observed (demo_electrum_run txhex) = (Returned, False, [3, 2])"
  by code_simp

lemma demo_electrum_state:
  "f_receiver (demo_electrum_run txhex) = Returned" "\<not> panicked (demo_electrum_run txhex)"
  "ac_lastAddresses (f_acc (demo_electrum_run txhex)) = [3, 2]"
  using demo_electrum_observed [of txhex] by (simp_all add: observed_def)

lemma demo_electrum_reached:
  "(electrum_program demo_lib (demo_conn txhex) dials)\<^sup>*\<^sup>*
     (fetch_start (New demo_deriver 2 25) new_reporter (demo_electrum txhex)) (demo_electrum_run txhex)"
  unfolding demo_electrum_run_def by (rule electrum_sched.run_sound)

lemmas demo_electrum_start = demo_electrum_new [unfolded demo_electrum_new_def]

lemma demo_electrum_fits: "counts_fit demo_lib demo_deriver (electrum_addr_answer (demo_view txhex)) [3, 2]"
proof -
  have "length (ar_TxHashes (electrum_addr_answer (demo_view txhex) a)) \<le> 1" for a
    by (simp add: electrum_addr_answer_def demo_view_def)
  then show ?thesis
    using short_answers [of "electrum_addr_answer (demo_view txhex)" "asked demo_lib demo_deriver [3, 2]"]
    by (simp add: counts_fit_def answers_def size_asked)
qed

lemma demo_electrum_least: "least_bounds demo_lib demo_deriver 2 (electrum_addr_answer (demo_view txhex)) [3, 2]"
  using el.fetch_completed [OF demo_electrum_reached electrum_start_facts [OF demo_electrum_start demo_honest] demo_electrum_state(2,1),
      of txhex] demo_electrum_fits [of txhex]
  by (simp add: least_bounds_def fetched_def within_def demo_electrum_state)

text \<open>On the addresses of the wallet the server answers as the recorded wallet does.\<close>

lemma demo_texts: "map Address_String demo_addresses = [''410000'', ''410001'', ''410002'', ''410100'', ''410101'']"
  by code_simp

lemma demo_electrum_answer:
  assumes "a \<in> set demo_addresses"
  shows "electrum_addr_answer (demo_view txhex) a = demo_answer txhex' a"
proof -
  have "map (\<lambda>a. Address_String a = ''410001'') demo_addresses = map (\<lambda>a. ar_TxHashes (demo_answer txhex' a) = [''t'']) demo_addresses"
    using arg_cong [OF demo_facts [of txhex'], of "map (\<lambda>x. fst (snd x) = [''t''])"] arg_cong [OF demo_texts, of "map (\<lambda>s. s = ''410001'')"]
    by (simp add: comp_def)
  then have "Address_String a = ''410001'' \<longleftrightarrow> ar_TxHashes (demo_answer txhex' a) = [''t'']"
    using assms by (simp add: map_eq_conv)
  then show ?thesis
    by (rule_tac demo_address [OF assms, of txhex']) (auto simp: electrum_addr_answer_def demo_view_def split: if_splits)
qed

lemma demo_electrum_answers:
  "answers demo_lib demo_deriver (electrum_addr_answer (demo_view txhex)) [3, 2]
     = answers demo_lib demo_deriver (demo_answer txhex') [3, 2]"
  unfolding answers_def by (rule image_mset_cong) (simp add: demo_asked demo_electrum_answer)

lemma demo_electrum_servable: "servable demo_lib demo_deriver (electrum_addr_answer (demo_view txhex)) [3, 2]"
  using demo_servable [of "[]"] demo_electrum_answers [of txhex "[]"] by (simp add: servable_def)

lemma demo_electrum_truthful: "truthful demo_lib demo_deriver demo_ledger (electrum_addr_answer (demo_view demo_hex))
    (\<lambda>h. Some (electrum_tx_answer (demo_view demo_hex) h)) [3, 2]"
proof -
  have l: "listed demo_lib demo_deriver (electrum_addr_answer (demo_view demo_hex)) [3, 2]
      = listed demo_lib demo_deriver (demo_answer demo_hex) [3, 2]"
    using demo_electrum_answers [of demo_hex demo_hex] by (simp add: listed_def)
  have "Some (electrum_tx_answer (demo_view demo_hex) ''t'') = map_option (response_of ''t'') (demo_ledger ''t'')"
    by (simp add: electrum_tx_answer_def demo_view_def demo_ledger_def response_of_def)
  moreover have "h = ''t''" if "h \<in> listed demo_lib demo_deriver (demo_answer demo_hex) [3, 2]" for h
    using that by (auto simp: listed_def answers_def demo_asked elim!: demo_address [of _ demo_hex] split: if_splits)
  ultimately show ?thesis
    using demo_truthful demo_electrum_answer [of _ demo_hex demo_hex]
    by (auto simp: truthful_def l demo_asked)
qed

theorem electrum_wallet_balance_witness:
  "ComputeBalance (electrum_program demo_lib (demo_conn demo_hex) (\<lambda>_ _ _. True))
     (fetch_start (New demo_deriver 2 25) new_reporter (demo_electrum demo_hex)) (Inr 100)"
proof -
  let ?s = "demo_electrum_run demo_hex"
  have "fetched demo_lib demo_deriver 2 (electrum_addr_answer (demo_view demo_hex))
      (\<lambda>h. Some (electrum_tx_answer (demo_view demo_hex) h)) (f_acc ?s)"
    using el.fetch_completed [OF demo_electrum_reached electrum_start_facts [OF demo_electrum_start demo_honest]
        demo_electrum_state(2,1)] demo_electrum_fits by (simp add: demo_electrum_state)
  then have "dom (ac_transactions (f_acc ?s)) \<subseteq> listed demo_lib demo_deriver (electrum_addr_answer (demo_view demo_hex)) [3, 2]"
    by (auto simp: fetched_def demo_electrum_state split: if_splits)
  moreover have "finite (listed demo_lib demo_deriver (electrum_addr_answer (demo_view demo_hex)) [3, 2])"
    by (simp add: listed_def)
  ultimately have "finite (dom (ac_transactions (f_acc ?s)))" by (rule finite_subset)
  then obtain ks1 ks2 ks3 ks4 where c: "ComputeBalance (electrum_program demo_lib (demo_conn demo_hex) (\<lambda>_ _ _. True))
     (fetch_start (New demo_deriver 2 25) new_reporter (demo_electrum demo_hex))
     (tally ks1 ks2 ks3 ks4 (f_acc ?s, f_rep ?s))"
    using ComputeBalance.returns [OF demo_electrum_reached demo_electrum_state(2,1), of _ demo_hex]
    by (elim tally_orders [where rep = "f_rep ?s"]) blast
  have "''t'' \<noteq> sample_key 0" by code_simp
  then obtain w where "tally ks1 ks2 ks3 ks4 (f_acc ?s, f_rep ?s) = Inr w" and "uint w = 100"
    using electrum_wallet_balance [OF demo_electrum_start demo_honest c demo_electrum_least demo_electrum_servable
        demo_electrum_fits demo_electrum_truthful] demo_history [of "''t''"] by (auto simp: demo_confirmed)
  moreover from this(2) have "w = 100" by (simp add: word_uint_eq_iff)
  ultimately show ?thesis using c by simp
qed

section \<open>Witnesses on the server of the wallet\<close>

theorem dialled_node_is_checked_witness:
  "\<exists>n. dial_node (demo_conn demo_hex) (\<lambda>_. Inr []) (\<lambda>_. Inr []) ''h'' ''t'' Testnet = Inr (Inr n) \<and> n_Ident n = ''h|t'' \<and> n_Network n = Testnet"
proof -
  obtain n where n: "dial_node (demo_conn demo_hex) (\<lambda>_. Inr []) (\<lambda>_. Inr []) ''h'' ''t'' Testnet = Inr (Inr n)"
    using NewElectrumBackend_Inr [OF demo_electrum_start [of demo_hex]] by auto
  with dialled_node_is_checked [OF n] show ?thesis by (auto simp: NodeIdent_def)
qed

theorem electrum_registry_witness:
  "eb_nodes (fst (demo_electrum demo_hex)) = [(''h|t'', 0)] \<and> n_Ident (eb_heap (fst (demo_electrum demo_hex)) ! 0) = ''h|t''"
proof -
  have "eb_nodes (fst (demo_electrum demo_hex)) = [(''h|t'', 0)]"
    using NewElectrumBackend_Inr [OF demo_electrum_start [of demo_hex]] by (auto simp: NodeIdent_def)
  then show ?thesis
    using electrum_registry [OF demo_electrum_start [of demo_hex], of "\<lambda>_ _ _. True" "fst (demo_electrum demo_hex)" "snd (demo_electrum demo_hex)" "''h|t''" 0]
    by simp
qed

theorem electrum_cache_never_missed_witness:
  "ECrashed NilDeref (Some (JTx ''t'')) \<notin> set (snd (f_backend (demo_electrum_run demo_hex)))"
  by (rule electrum_cache_never_missed [OF demo_electrum_start demo_honest demo_electrum_reached])

theorem electrum_answers_once_witness:
  "\<exists>b'. electrum_addr_send (addr_of demo_lib demo_deriver 0 0) (fst (demo_electrum demo_hex)) = Some b' \<and>
    electrum_addr_owed (demo_view demo_hex) (b', snd (demo_electrum demo_hex)) = {#electrum_addr_answer (demo_view demo_hex) (addr_of demo_lib demo_deriver 0 0)#}"
proof -
  have "eb_addrRequests (fst (demo_electrum demo_hex)) = []"
    using NewElectrumBackend_Inr [OF demo_electrum_start [of demo_hex]] by auto
  then obtain b' where b': "electrum_addr_send (addr_of demo_lib demo_deriver 0 0) (fst (demo_electrum demo_hex)) = Some b'"
    by (simp add: electrum_addr_send_def maxPeers_def)
  have "client_run (electrum_processRequests (demo_conn demo_hex) (\<lambda>_ _ _. True)) el_addr_send el_addr_recv el_tx_send el_tx_recv
      (demo_electrum demo_hex) [addr_of demo_lib demo_deriver 0 0] [] [] [] (b', snd (demo_electrum demo_hex))"
    by (rule run_ask [OF run_start]) (simp add: b')
  from electrum_answers_once [OF demo_electrum_start demo_honest this] b' show ?thesis by simp
qed

text \<open>The same server, but every request for a history fails.\<close>

definition demo_failing_conn :: "string conn_ops" where
  "demo_failing_conn = (demo_conn [])
     \<lparr>json_Unmarshal := (\<lambda>l. case l of i # k # p \<Rightarrow>
          if k = CHR ''y'' then Inl (Errorf ''unexpected end of JSON input'' []) else json_Unmarshal (demo_conn []) l
        | _ \<Rightarrow> Inl (Errorf ''unexpected end of JSON input'' []))\<rparr>"


end
