(* ===== verification/CommandLine.thy ===== *)
theory CommandLine
  imports Program ElectrumBalance
begin

text \<open>
  The command line of \<^verbatim>\<open>main.go\<close>: the commands with their arguments and flags, and \<^verbatim>\<open>main\<close>.  Parsing the
  line is up to \<^verbatim>\<open>kingpin\<close>; what it gives is the name of a command and a value for every argument and flag,
  and \<open>documented\<close> is what its documentation says of them.  Then what \<^verbatim>\<open>compute-balance\<close> does by default, and
  what \<^verbatim>\<open>find-block\<close> prints.
\<close>

section \<open>Commands, arguments and flags\<close>

datatype flag_value = VBool bool | VInt int | VUint32 u32 | VUint32List "u32 list" | VString string

datatype flag_type = BoolFlag | IntFlag | Uint32Flag | Uint32ListFlag | StringFlag | EnumFlag "string list"

record flag_decl =
  fd_name :: string
  fd_type :: flag_type
  fd_default :: "flag_value option"
  fd_required :: bool

definition flag :: "string \<Rightarrow> flag_type \<Rightarrow> flag_value \<Rightarrow> flag_decl" where
  "flag name ty d = \<lparr>fd_name = name, fd_type = ty, fd_default = Some d, fd_required = False\<rparr>"

definition required :: "string \<Rightarrow> flag_type \<Rightarrow> flag_decl" where
  "required name ty = \<lparr>fd_name = name, fd_type = ty, fd_default = None, fd_required = True\<rparr>"

definition app_flags :: "flag_decl list" where
  "app_flags = [flag ''debug'' BoolFlag (VBool False)]"

definition keytree_flags :: "flag_decl list" where
  "keytree_flags = [required ''i'' Uint32ListFlag, flag ''n'' IntFlag (VInt 1)]"

definition findAddr_flags :: "flag_decl list" where
  "findAddr_flags = [required ''address'' StringFlag, flag ''m'' IntFlag (VInt 1), flag ''n'' IntFlag (VInt 1)]"

definition backend_names :: "string list" where
  "backend_names = [''electrum'', ''btcd'', ''electrum-recorder'', ''btcd-recorder'', ''fixture'']"

text \<open>A flag for a string without a default is empty when it is not given.\<close>

definition findBlock_flags :: "flag_decl list" where
  "findBlock_flags = [required ''timestamp'' StringFlag, flag ''backend'' (EnumFlag backend_names) (VString ''electrum''),
     flag ''addr'' StringFlag (VString []), flag ''rpcuser'' StringFlag (VString []),
     flag ''rpcpass'' StringFlag (VString []), flag ''fixture-file'' StringFlag (VString [])]"

definition computeBalance_flags :: "flag_decl list" where
  "computeBalance_flags = [flag ''block-height'' Uint32Flag (VUint32 0),
     required ''type'' (EnumFlag [''multisig'', ''single-address'']), flag ''m'' IntFlag (VInt 1), flag ''n'' IntFlag (VInt 1),
     flag ''backend'' (EnumFlag backend_names) (VString ''electrum''), flag ''addr'' StringFlag (VString []),
     flag ''rpcuser'' StringFlag (VString []), flag ''rpcpass'' StringFlag (VString []),
     flag ''fixture-file'' StringFlag (VString []), flag ''lookahead'' Uint32Flag (VUint32 100)]"

definition commands :: "(string \<times> flag_decl list) list" where
  "commands = [(''keytree'', keytree_flags), (''find-address'', findAddr_flags), (''find-block'', findBlock_flags),
     (''compute-balance'', computeBalance_flags)]"

section \<open>What parsing gives\<close>

fun has_type :: "flag_type \<Rightarrow> flag_value \<Rightarrow> bool" where
  "has_type BoolFlag (VBool b) = True"
| "has_type IntFlag (VInt i) = True"
| "has_type Uint32Flag (VUint32 n) = True"
| "has_type Uint32ListFlag (VUint32List ns) = True"
| "has_type StringFlag (VString s) = True"
| "has_type (EnumFlag options) (VString s) = (s \<in> set options)"
| "has_type _ _ = False"

text \<open>
  The documented behaviour of kingpin for the line on which the flags \<open>given\<close> stand: a required one is
  there, a given one has a value of its type, one of the options of an enumeration, and any other one has
  its default.
\<close>

definition documented :: "string \<Rightarrow> string set \<Rightarrow> (string \<Rightarrow> flag_value) \<Rightarrow> bool" where
  "documented cmd given v \<longleftrightarrow>
     (case map_of commands cmd of
        None \<Rightarrow> False
      | Some ds \<Rightarrow> list_all (\<lambda>d.
          if fd_name d \<in> given then has_type (fd_type d) (v (fd_name d))
          else case fd_default d of None \<Rightarrow> False | Some x \<Rightarrow> \<not> fd_required d \<and> v (fd_name d) = x) (app_flags @ ds))"

fun bool_of :: "flag_value \<Rightarrow> bool" where "bool_of (VBool b) = b" | "bool_of _ = False"
fun int_of :: "flag_value \<Rightarrow> int" where "int_of (VInt i) = i" | "int_of _ = 0"
fun uint32_of :: "flag_value \<Rightarrow> u32" where "uint32_of (VUint32 n) = n" | "uint32_of _ = 0"
fun uint32s_of :: "flag_value \<Rightarrow> u32 list" where "uint32s_of (VUint32List ns) = ns" | "uint32s_of _ = []"
fun string_of :: "flag_value \<Rightarrow> string" where "string_of (VString s) = s" | "string_of _ = []"

definition backend_flags_of :: "(string \<Rightarrow> flag_value) \<Rightarrow> backend_flags" where
  "backend_flags_of v = \<lparr>fl_backend = string_of (v ''backend''), fl_addr = string_of (v ''addr''),
     fl_rpcuser = string_of (v ''rpcuser''), fl_rpcpass = string_of (v ''rpcpass''),
     fl_fixtureFile = string_of (v ''fixture-file'')\<rparr>"

definition balance_flags_of :: "(string \<Rightarrow> flag_value) \<Rightarrow> flags" where
  "balance_flags_of v = \<lparr>cb_debug = bool_of (v ''debug''), cb_m = int_of (v ''m''), cb_n = int_of (v ''n''),
     cb_type = string_of (v ''type''), cb_blockHeight = uint32_of (v ''block-height''),
     cb_lookahead = uint32_of (v ''lookahead''), cb_backend = backend_flags_of v\<rparr>"

section \<open>main\<close>

inductive main ::
    "('k, 'p) btc_lib \<Rightarrow> (string \<Rightarrow> go_time fallible) \<Rightarrow> ('c some_backend \<Rightarrow> u32 list \<Rightarrow> BlockResponse list result)
      \<Rightarrow> 'c world \<Rightarrow> (bool \<Rightarrow> string \<Rightarrow> 'c fallible \<Rightarrow> bool) \<Rightarrow> bool fallible \<Rightarrow> string \<Rightarrow> (string \<Rightarrow> flag_value) \<Rightarrow> string
      \<Rightarrow> line list result \<Rightarrow> bool"
  for lib time_Parse deliver W dials stat cmd v stdin where
  main_keytree: "cmd = ''keytree'' \<Longrightarrow> main lib time_Parse deliver W dials stat cmd v stdin
     (doKeytree lib (bool_of (v ''debug'')) stat (int_of (v ''n'')) (uint32s_of (v ''i'')) stdin)"
| main_find_address: "cmd = ''find-address'' \<Longrightarrow> main lib time_Parse deliver W dials stat cmd v stdin
     (doFindAddr lib (bool_of (v ''debug'')) stat (int_of (v ''m'')) (int_of (v ''n'')) (string_of (v ''address'')) stdin)"
| main_find_block: "cmd = ''find-block'' \<Longrightarrow>
     doFindBlock time_Parse deliver (bool_of (v ''debug'')) W (backend_flags_of v) (string_of (v ''timestamp'')) = Some out \<Longrightarrow>
     main lib time_Parse deliver W dials stat cmd v stdin out"
| main_compute_balance: "cmd = ''compute-balance'' \<Longrightarrow>
     doComputeBalance lib W dials (balance_flags_of v) stat stdin out \<Longrightarrow>
     main lib time_Parse deliver W dials stat cmd v stdin out"
| main_unreachable: "cmd \<notin> {''keytree'', ''find-address'', ''find-block'', ''compute-balance''} \<Longrightarrow>
     main lib time_Parse deliver W dials stat cmd v stdin (Inl (Panic ''unreachable'' []))"

inductive_cases main_cases: "main lib time_Parse deliver W dials stat cmd v stdin out"

section \<open>Lemmas\<close>

text \<open>The default branches of \<^verbatim>\<open>main\<close> and of the functions that build a backend are never taken.\<close>

lemma documented_command:
  "documented cmd given v \<Longrightarrow> cmd \<in> {''keytree'', ''find-address'', ''find-block'', ''compute-balance''}"
  by (simp add: documented_def commands_def split: if_splits)

lemma documented_backend:
  assumes "documented cmd given v" and "cmd \<in> {''find-block'', ''compute-balance''}"
  shows "fl_backend (backend_flags_of v) \<in> set backend_names"
proof -
  have "has_type (EnumFlag backend_names) (v ''backend'')"
  proof (cases "''backend'' \<in> given")
    case True
    then show ?thesis
      using assms unfolding documented_def commands_def
      by (elim insertE emptyE) (simp_all add: findBlock_flags_def computeBalance_flags_def flag_def required_def)
  next
    case False
    then have "v ''backend'' = VString ''electrum''"
      using assms unfolding documented_def commands_def
      by (elim insertE emptyE) (simp_all add: findBlock_flags_def computeBalance_flags_def flag_def required_def)
    then show ?thesis by (simp add: backend_names_def)
  qed
  then show ?thesis by (cases "v ''backend''") (simp_all add: backend_flags_of_def)
qed

lemma documented_defaults:
  assumes "documented ''compute-balance'' {''type''} v"
  shows "balance_flags_of v = \<lparr>cb_debug = False, cb_m = 1, cb_n = 1, cb_type = string_of (v ''type''), cb_blockHeight = 0,
    cb_lookahead = 100, cb_backend = \<lparr>fl_backend = ''electrum'', fl_addr = [], fl_rpcuser = [], fl_rpcpass = [], fl_fixtureFile = []\<rparr>\<rparr>"
  using assms
  by (simp add: documented_def commands_def computeBalance_flags_def app_flags_def flag_def required_def
      balance_flags_of_def backend_flags_of_def)

lemma sum_ex_iff: "(\<exists>w. P w) \<longleftrightarrow> (\<exists>e. P (Inl e)) \<or> (\<exists>x. P (Inr x))"
  by (metis sum.exhaust)

section \<open>Properties\<close>

text \<open>
  C37: what \<^verbatim>\<open>compute-balance\<close> does when only its type is given.  It asks for one key or for one address on a
  terminal, connects to the server of Electrum that is built in for the network of the key, takes the block
  height six below the height of the chain and looks a hundred addresses ahead; whatever it prints then is the
  balance over that server.
\<close>

theorem defaults_of_compute_balance:
  assumes "documented ''compute-balance'' {''type''} v"
    and "prepareBalance W (balance_flags_of v) stat stdin = Inr (Run B d h)"
  shows "stat = Inr True \<and> d_m d = 1 \<and> length (d_xpubs d) \<le> 1 \<and> h = ChainHeight B - 6 \<and>
    (\<exists>s addr port. B = OnElectrum s \<and> GetDefaultServer (d_network d) Electrum [] = Inr (addr, port) \<and>
      NewElectrumBackend (w_conn W) (w_dial1 W) (w_dial2 W) addr port (d_network d) = Inr (Inr s)) \<and>
    (main lib time_Parse deliver W dials stat ''compute-balance'' v stdin out \<longleftrightarrow>
      (\<exists>w. balance_over lib (w_conn W) dials (New d 100 h) new_reporter B w \<and>
        out = sbind w (\<lambda>w. Inr [(''Going to compute balance at %d'', [Num (uint h)]), (''Balance: %d'', [Num (uint w)])])))"
    (is "_ \<and> _ \<and> _ \<and> _ \<and> _ \<and> (?main \<longleftrightarrow> (\<exists>w. ?over w \<and> out = ?lines w))")
proof -
  note fl = documented_defaults [OF assms(1)]
  have "?main \<longleftrightarrow> doComputeBalance lib W dials (balance_flags_of v) stat stdin out" (is "_ \<longleftrightarrow> ?run")
  proof
    show ?run if ?main by (rule main_cases [OF that]) simp_all
    show ?main if ?run using that by (intro main_compute_balance) simp_all
  qed
  moreover have "?run \<longleftrightarrow> (\<exists>w. ?over w \<and> out = ?lines w)"
    unfolding doComputeBalance.simps assms(2) by (auto simp: fl sum_ex_iff)
  ultimately have main: "?main \<longleftrightarrow> (\<exists>w. ?over w \<and> out = ?lines w)" by (rule trans)
  have stat: "stat = Inr True" using assms(2) by (auto simp: prepareBalance_def fl sbind_Inr_iff forbid_pipe_Inr)
  show ?thesis
  proof (rule prepared [OF assms(2)], goal_cases)
    case (1 network xpubs single)
    have "length xpubs \<le> 1" using 1(7,8) by (cases "cb_type (balance_flags_of v) = ''single-address''") (simp_all add: fl)
    moreover have "h = ChainHeight B - 6" using 1(6) unfolding choose_height_Inr by (simp add: fl minConfirmations_def)
    moreover have "\<exists>s addr port. B = OnElectrum s \<and> GetDefaultServer (d_network d) Electrum [] = Inr (addr, port) \<and>
        NewElectrumBackend (w_conn W) (w_dial1 W) (w_dial2 W) addr port (d_network d) = Inr (Inr s)"
      using 1(4,5) by (auto simp: fl computeBalanceBuildBackend_def build_electrum_def sbind_Inr_iff map_sum_Inr NewAddressDeriver_def)
    ultimately show ?case using 1(4) stat main by (simp add: fl NewAddressDeriver_def)
  qed
qed


section \<open>Witnesses\<close>

text \<open>A chain of 22 blocks in a file, a hundred seconds apart.\<close>

definition demo_blocks :: json_index where
  "demo_blocks = \<lparr>ji_Height = 22, ji_Addresses = [], ji_Transactions = [],
     ji_Blocks = map (\<lambda>i. \<lparr>jb_Height = of_nat i, jb_Timestamp = 100 * int i\<rparr>) [5..<17]\<rparr>"

definition demo_blocks_world :: "(string list \<times> bool) world" where
  "demo_blocks_world = (demo_world [])\<lparr>w_index := (\<lambda>_. Inr demo_blocks)\<rparr>"

text \<open>Only the fixture is asked.\<close>

fun deliver_fixture :: "'c some_backend \<Rightarrow> u32 list \<Rightarrow> BlockResponse list result" where
  "deliver_fixture (OnFixture s) = fixture_deliver (fst s)"
| "deliver_fixture _ = (\<lambda>_. Inl Blocked)"

lemma demo_blocks_held: "list_all (\<lambda>i. fb_blockIndex (fixture_of demo_blocks) (of_nat i) \<noteq> None) [5..<17]"
  by code_simp

lemma demo_blocks_medians: "median (fixture_time (fixture_of demo_blocks)) 10 = 1000" "median (fixture_time (fixture_of demo_blocks)) 11 = 1100"
  by code_simp+


section \<open>The server of a wallet\<close>

definition demo_line :: "string \<Rightarrow> flag_value" where
  "demo_line = (\<lambda>_. VString [])(''type'' := VString ''multisig'', ''debug'' := VBool False, ''m'' := VInt 1, ''n'' := VInt 1,
     ''block-height'' := VUint32 0, ''lookahead'' := VUint32 100, ''backend'' := VString ''electrum'')"

definition demo_electrum_world :: "string \<Rightarrow> string world" where
  "demo_electrum_world txhex = \<lparr>w_conn = demo_conn txhex, w_dial1 = (\<lambda>_. Inr [], \<lambda>_. Inr []),
     w_dial2 = (\<lambda>_. Inr [], \<lambda>_. Inr []), w_rpc = (\<lambda>_ _ _. Inl ErrNetwork), w_Open = (\<lambda>_. Inl ErrNetwork),
     w_index = (\<lambda>_. Inl ErrNetwork)\<rparr>"

lemma demo_line_documented: "documented ''compute-balance'' {''type''} demo_line"
  by code_simp

lemma demo_line_prepared:
  "\<exists>B d h. prepareBalance (demo_electrum_world []) (balance_flags_of demo_line) (Inr True) (typed ''tpubA'') = Inr (Run B d h)"
proof -
  have "(case prepareBalance (demo_electrum_world []) (balance_flags_of demo_line) (Inr True) (typed ''tpubA'') of
      Inr (Run B d h) \<Rightarrow> True | _ \<Rightarrow> False)" by code_simp
  then show ?thesis by (auto split: sum.splits prepared.splits)
qed

theorem defaults_of_compute_balance_witness:
  "\<exists>s d h. prepareBalance (demo_electrum_world []) (balance_flags_of demo_line) (Inr True) (typed ''tpubA'') = Inr (Run (OnElectrum s) d h) \<and>
     d_m d = 1 \<and> h = electrum_ChainHeight (fst s) - 6"
proof -
  obtain B d h where p: "prepareBalance (demo_electrum_world []) (balance_flags_of demo_line) (Inr True) (typed ''tpubA'') = Inr (Run B d h)"
    using demo_line_prepared by blast
  from defaults_of_compute_balance [OF demo_line_documented p,
      of demo_lib "\<lambda>_. Inl (Errorf [] [])" "\<lambda>_ _. Inr []" "\<lambda>_ _ _. True" "Inr []"] p
  show ?thesis by (auto simp: p)
qed

end
