(* ===== verification/Progress.thy ===== *)
theory Progress
  imports Ideal
begin

text \<open>
  The fetch of \<^verbatim>\<open>accounter/accounter.go\<close> can always end.  The correctness theorems say what
  \<open>ComputeBalance\<close> gives if it returns; here is the other half: whatever the goroutines have done so
  far, there is a way to go on after which \<^verbatim>\<open>recvWork\<close> returns.  The locale \<open>responsive\<close> extends the contract
  of a backend by what this needs: requests go through and answers come.  \<open>room\<close> bounds the requests for
  transactions that may be waiting in the channel, for the accounter blocks on them with its mutex held.
\<close>

section \<open>Responsive backends\<close>

locale responsive = backend_contract +
  fixes tx_load :: "'a \<Rightarrow> nat" and room :: nat
  assumes load_work: "binv b \<Longrightarrow> work b b' \<Longrightarrow> tx_load b' \<le> tx_load b"
    and load_addr_send: "binv b \<Longrightarrow> addr_send a b b' \<Longrightarrow> tx_load b' \<le> tx_load b"
    and load_addr_recv: "binv b \<Longrightarrow> addr_recv b r b' \<Longrightarrow> tx_load b' \<le> tx_load b"
    and load_tx_send: "binv b \<Longrightarrow> tx_send h b b' \<Longrightarrow> tx_load b' \<le> Suc (tx_load b)"
    and load_tx_recv: "binv b \<Longrightarrow> tx_recv b t b' \<Longrightarrow> tx_load b' \<le> tx_load b"
    and can_ask_tx: "binv b \<Longrightarrow> tx_load b < room \<Longrightarrow> \<exists>b'. tx_send h b b'"
    and can_ask: "binv b \<Longrightarrow> addr_owed b = {#} \<Longrightarrow> tx_owed b = {#} \<Longrightarrow> \<exists>b'. addr_send a b b'"
    and answers_come: "binv b \<Longrightarrow> addr_owed b \<noteq> {#} \<or> tx_owed b \<noteq> {#} \<Longrightarrow>
        \<exists>b1. work\<^sup>*\<^sup>* b b1 \<and> ((\<exists>r b'. addr_recv b1 r b') \<or> (\<exists>t b'. tx_recv b1 t b'))"

definition listed_count :: "('k, 'p) btc_lib \<Rightarrow> AddressDeriver \<Rightarrow> (Address \<Rightarrow> AddrResponse) \<Rightarrow> u32 list \<Rightarrow> nat" where
  "listed_count lib d addr_answer K = (\<Sum>r\<in>#answers lib d addr_answer K. length (ar_TxHashes r))"

text \<open>What is left to do, the most important first.\<close>

definition to_ask :: "u32 list \<Rightarrow> 'b fetch \<Rightarrow> nat" where
  "to_ask K s = unat (K ! 0) + unat (K ! 1) - (unat (f_indexes s ! 0) + unat (f_indexes s ! 1))"

fun to_handle :: "receiver \<Rightarrow> nat" where
  "to_handle (SeeTxs r hs) = 2 + length hs"
| "to_handle (Extending r) = 1"
| "to_handle _ = 0"

context responsive
begin

definition left_over :: "u32 list \<Rightarrow> ('a fetch \<times> 'a fetch) set" where
  "left_over K = measures [to_ask K, \<lambda>s. size (addr_owed (f_backend s)), \<lambda>s. to_handle (f_receiver s),
     \<lambda>s. size (tx_owed (f_backend s))]"

definition on_course :: "('k, 'p) btc_lib \<Rightarrow> AddressDeriver \<Rightarrow> u32 \<Rightarrow> u32 \<Rightarrow> u32 list \<Rightarrow> 'a fetch \<Rightarrow> bool" where
  "on_course lib d la bh K s \<longleftrightarrow>
     closed_bounds lib d la addr_answer K \<and> servable lib d addr_answer K \<and> counts_fit lib d addr_answer K \<and>
     (\<forall>h\<in>listed lib d addr_answer K. tx_answer h \<noteq> None) \<and> listed_count lib d addr_answer K \<le> room \<and>
     reached lib d la bh s \<and> \<not> panicked s \<and> tx_load (f_backend s) \<le> unat (ac_seenTxCount (f_acc s))"

lemma on_course_facts:
  assumes "on_course lib d la bh K s"
  obtains fin files reqs where "fetch_inv lib s fin files reqs" "within s K" "ac_deriver (f_acc s) = d" "ac_lookahead (f_acc s) = la"
    "length reqs + length (todo (f_receiver s)) \<le> listed_count lib d addr_answer K"
    "unat (ac_seenTxCount (f_acc s)) = length reqs" "set reqs \<subseteq> listed lib d addr_answer K"
proof -
  obtain fin files reqs where i: "fetch_inv lib s fin files reqs" and w: "within s K"
    and d: "ac_deriver (f_acc s) = d" "ac_lookahead (f_acc s) = la"
    using assms by (auto simp: on_course_def reached_def params_def)
  let ?done = "fin @ current (f_receiver s)"
  have si: "sender_inv lib s" and ai: "addr_inv lib addr_answer addr_owed s fin"
    and ti: "tx_inv tx_answer tx_owed s fin files reqs"
    using i by (auto simp: fetch_inv_def)
  have "asked lib d (f_indexes s) \<subseteq># asked lib d K"
    by (rule asked_subset) (use si w in \<open>auto simp: sender_inv_def within_def\<close>)
  then have "image_mset addr_answer (asked lib d (f_indexes s)) \<subseteq># answers lib d addr_answer K"
    unfolding answers_def by (rule image_mset_subseteq_mono)
  moreover have "mset ?done \<subseteq># image_mset addr_answer (asked lib d (f_indexes s))"
    using ai by (simp add: addr_inv_def d)
  ultimately have sub: "mset ?done \<subseteq># answers lib d addr_answer K" by (rule subset_mset.order_trans [rotated])
  then obtain M where M: "answers lib d addr_answer K = mset ?done + M" by (auto simp: mset_subset_eq_exists_conv)
  have "sum_list (map (length \<circ> ar_TxHashes) ?done) = (\<Sum>r\<in>#mset ?done. length (ar_TxHashes r))"
    by (simp add: comp_def sum_mset_sum_list flip: mset_map)
  then have "sum_list (map (length \<circ> ar_TxHashes) ?done) \<le> listed_count lib d addr_answer K"
    by (simp add: listed_count_def M)
  then have len: "length reqs + length (todo (f_receiver s)) \<le> listed_count lib d addr_answer K"
    using ti by (simp add: tx_inv_def)
  have "length reqs < 2 ^ 32"
    using len assms by (simp add: on_course_def counts_fit_def listed_count_def)
  then have "unat (ac_seenTxCount (f_acc s)) = length reqs"
    using ti by (simp add: tx_inv_def unat_of_nat)
  moreover have "set ?done \<subseteq> set_mset (answers lib d addr_answer K)" by (simp add: M)
  then have "set reqs \<subseteq> listed lib d addr_answer K"
    using ti unfolding tx_inv_def listed_def by blast
  ultimately show ?thesis using that i w d len by blast
qed

abbreviation "step lib \<equiv> fetch_step lib work addr_send addr_recv tx_send tx_recv"

lemma on_course_step:
  assumes "step lib s s'" and "on_course lib d la bh K s"
  shows "on_course lib d la bh K s'"
proof -
  obtain fin files reqs where i: "fetch_inv lib s fin files reqs" and w: "within s K"
    and d: "ac_deriver (f_acc s) = d" "ac_lookahead (f_acc s) = la"
    and len: "length reqs + length (todo (f_receiver s)) \<le> listed_count lib d addr_answer K"
    and seen: "unat (ac_seenTxCount (f_acc s)) = length reqs"
    by (rule on_course_facts [OF assms(2)])
  have v: "servable lib (ac_deriver (f_acc s)) addr_answer K" and b: "binv (f_backend s)"
    and load: "tx_load (f_backend s) \<le> unat (ac_seenTxCount (f_acc s))"
    and fit: "listed_count lib d addr_answer K < 2 ^ 32"
    using assms(2) i by (auto simp: on_course_def d fetch_inv_def counts_fit_def listed_count_def)
  have "\<not> panicked s' \<and> tx_load (f_backend s') \<le> unat (ac_seenTxCount (f_acc s'))"
    using assms(1)
  proof cases
    case send
    have "tx_load (f_backend s') \<le> tx_load (f_backend s) \<and> ac_seenTxCount (f_acc s') = ac_seenTxCount (f_acc s)"
      using send(2) load_addr_send [OF b] by cases (auto simp: count_derived_def)
    then show ?thesis using sender_no_panic [OF send(2,1) i w v] load by simp
  next
    case recv
    have "tx_load (f_backend s') \<le> unat (ac_seenTxCount (f_acc s'))"
      using recv(2)
    proof cases
      case (unknown resp h hs b')
      have "length reqs + 1 < 2 ^ 32" using len fit by (simp add: unknown(2))
      then have "unat (ac_seenTxCount (f_acc s) + 1) = Suc (unat (ac_seenTxCount (f_acc s)))"
        using seen by (simp add: unat_word_ariths)
      then show ?thesis using load_tx_send [OF b unknown(4)] load by (simp add: unknown(1) count_seen_def)
    qed (use load order_trans [OF load_addr_recv [OF b] load] order_trans [OF load_tx_recv [OF b] load] in
        \<open>auto simp: file_transaction_def dest!: file_address_eq extend_lookahead_eq\<close>)
    then show ?thesis using receiver_no_panic [OF recv(2,1) i w v] by simp
  next
    case (backend b')
    then show ?thesis using load load_work [OF b] by (auto intro: order_trans)
  qed
  then show ?thesis using assms(2) reached_step [OF assms(1)] by (simp add: on_course_def)
qed

lemma on_course_steps: "(step lib)\<^sup>*\<^sup>* s s' \<Longrightarrow> on_course lib d la bh K s \<Longrightarrow> on_course lib d la bh K s'"
  by (induction rule: rtranclp_induct) (auto intro: on_course_step)

section \<open>Going on\<close>

lemma works_owed:
  "work\<^sup>*\<^sup>* b b1 \<Longrightarrow> binv b \<Longrightarrow> binv b1 \<and> addr_owed b1 = addr_owed b \<and> tx_owed b1 = tx_owed b"
  by (induction rule: rtranclp_induct) (use work_owed in auto)

lemma works_step:
  "work\<^sup>*\<^sup>* b b1 \<Longrightarrow> \<not> panicked s \<Longrightarrow> f_backend s = b \<Longrightarrow> (step lib)\<^sup>*\<^sup>* s (s\<lparr>f_backend := b1\<rparr>)"
proof (induction rule: rtranclp_induct)
  case base
  then have "s\<lparr>f_backend := b\<rparr> = s" by (cases s) simp
  then show ?case by simp
next
  case (step b1 b2)
  have "fetch_step lib work addr_send addr_recv tx_send tx_recv (s\<lparr>f_backend := b1\<rparr>) (s\<lparr>f_backend := b2\<rparr>)"
    using fetch_step.backend [of "s\<lparr>f_backend := b1\<rparr>" work b2] step(2,4) by (simp add: panicked.simps)
  then show ?case using step by (meson rtranclp.rtrancl_into_rtrancl)
qed

text \<open>A step of the receiver that would be a panic is not possible.\<close>

lemma receive:
  assumes "on_course lib d la bh K s" and "addr_recv (f_backend s) r b'" and "f_receiver s = Selecting"
  obtains a' where "file_address lib r (f_acc s) = Inr a'"
proof (cases "file_address lib r (f_acc s)")
  case (Inl e)
  have "step lib s (s\<lparr>f_receiver := ReceiverPanic e, f_backend := b'\<rparr>)"
    using assms by (intro fetch_step.recv recvWork.address_panic [OF _ _ Inl]) (auto simp: on_course_def)
  from on_course_step [OF this assms(1)] show ?thesis by (simp add: on_course_def panicked.simps)
qed (use that in auto)

lemma receiver_advances:
  assumes s: "on_course lib d la bh K s" and "f_receiver s \<noteq> Returned"
    and "f_receiver s = Selecting \<Longrightarrow> addr_owed (f_backend s) \<noteq> {#} \<or> tx_owed (f_backend s) \<noteq> {#}"
  shows "\<exists>s'. (step lib)\<^sup>*\<^sup>* s s' \<and> (s', s) \<in> left_over K"
proof -
  have np: "\<not> panicked s" and b: "binv (f_backend s)"
    using s by (auto simp: on_course_def reached_def fetch_inv_def)
  show ?thesis
  proof (cases "f_receiver s")
    case Selecting
    obtain b1 where w: "work\<^sup>*\<^sup>* (f_backend s) b1" and a: "(\<exists>r b'. addr_recv b1 r b') \<or> (\<exists>t b'. tx_recv b1 t b')"
      using answers_come [OF b assms(3) [OF Selecting]] by blast
    note w1 = works_owed [OF w b] and run = works_step [OF w np refl, of lib]
    let ?s = "s\<lparr>f_backend := b1\<rparr>"
    have s1: "on_course lib d la bh K ?s" by (rule on_course_steps [OF run s])
    from a show ?thesis
    proof (elim disjE exE)
      fix r b' assume r: "addr_recv b1 r b'"
      obtain a' where a': "file_address lib r (f_acc ?s) = Inr a'"
        by (rule receive [OF s1, of r b']) (use r Selecting in auto)
      let ?s' = "?s\<lparr>f_receiver := SeeTxs r (ar_TxHashes r), f_backend := b', f_acc := a', f_rep := IncAddressesFetched (f_rep ?s)\<rparr>"
      have "step lib ?s ?s'"
        using s1 r Selecting by (intro fetch_step.recv recvWork.address [OF _ _ a']) (auto simp: on_course_def)
      moreover have "(?s', s) \<in> left_over K"
        using addr_recv_owed [OF _ r] w1 by (simp add: left_over_def to_ask_def)
      ultimately show ?thesis using rtranclp.rtrancl_into_rtrancl [OF run] by blast
    next
      fix t b' assume t: "tx_recv b1 t b'"
      let ?s' = "?s\<lparr>f_backend := b', f_acc := file_transaction t (f_acc ?s), f_rep := IncTxFetched (f_rep ?s)\<rparr>"
      have "step lib ?s ?s'"
        using s1 t Selecting by (intro fetch_step.recv recvWork.transaction) (auto simp: on_course_def)
      moreover have "(?s', s) \<in> left_over K"
        using tx_recv_owed [OF _ t] w1 by (simp add: left_over_def to_ask_def)
      ultimately show ?thesis using rtranclp.rtrancl_into_rtrancl [OF run] by blast
    qed
  next
    case (SeeTxs r hs)
    show ?thesis
    proof (cases hs)
      case Nil
      let ?s' = "s\<lparr>f_receiver := Extending r\<rparr>"
      have "step lib s ?s'" using np SeeTxs Nil by (intro fetch_step.recv recvWork.unlock) auto
      moreover have "(?s', s) \<in> left_over K" by (simp add: left_over_def to_ask_def SeeTxs Nil)
      ultimately show ?thesis by blast
    next
      case (Cons h hs')
      note pc = SeeTxs [unfolded Cons]
      show ?thesis
      proof (cases "unseen h (f_acc s)")
        case False
        let ?s' = "s\<lparr>f_receiver := SeeTxs r hs'\<rparr>"
        have "step lib s ?s'" using np by (intro fetch_step.recv recvWork.known [OF pc False])
        moreover have "(?s', s) \<in> left_over K" by (simp add: left_over_def to_ask_def pc)
        ultimately show ?thesis by blast
      next
        case True
        obtain reqs :: "string list" where "length reqs + length (todo (f_receiver s)) \<le> listed_count lib d addr_answer K"
          "unat (ac_seenTxCount (f_acc s)) = length reqs"
          by (rule on_course_facts [OF s])
        then have "tx_load (f_backend s) < room"
          using s by (simp add: on_course_def pc)
        from can_ask_tx [OF b this] obtain b' where b': "tx_send h (f_backend s) b'" by blast
        let ?s' = "s\<lparr>f_receiver := SeeTxs r hs', f_backend := b', f_acc := count_seen (f_acc s), f_rep := TxRequest_report (f_rep s)\<rparr>"
        have "step lib s ?s'" using np by (intro fetch_step.recv recvWork.unknown [of s r h hs' tx_send b', OF pc True b'])
        moreover have "(?s', s) \<in> left_over K"
          using tx_send_owed [OF b b'] by (simp add: left_over_def to_ask_def pc)
        ultimately show ?thesis by blast
      qed
    qed
  next
    case (Extending r)
    show ?thesis
    proof (cases "extend_lookahead r (f_acc s)")
      case (Inl e)
      have "step lib s (s\<lparr>f_receiver := ReceiverPanic e\<rparr>)"
        using np by (intro fetch_step.recv recvWork.extend_panic [OF Extending Inl])
      from on_course_step [OF this s] show ?thesis by (simp add: on_course_def panicked.simps)
    next
      case (Inr a')
      let ?s' = "s\<lparr>f_receiver := Selecting, f_acc := a'\<rparr>"
      have "step lib s ?s'" using np by (intro fetch_step.recv recvWork.extend [OF Extending Inr])
      moreover have "(?s', s) \<in> left_over K" by (simp add: left_over_def to_ask_def Extending)
      ultimately show ?thesis by blast
    qed
  qed (use assms(2) np in \<open>auto simp: panicked.simps\<close>)
qed

section \<open>The sender\<close>

text \<open>The receiver waits, nothing is owed, and a chain has an index below its bound.\<close>

definition calm :: "('k, 'p) btc_lib \<Rightarrow> AddressDeriver \<Rightarrow> u32 \<Rightarrow> u32 \<Rightarrow> u32 list \<Rightarrow> 'a fetch \<Rightarrow> bool" where
  "calm lib d la bh K s \<longleftrightarrow> on_course lib d la bh K s \<and> f_receiver s = Selecting \<and>
     addr_owed (f_backend s) = {#} \<and> tx_owed (f_backend s) = {#}"

abbreviation "behind (c :: u32) s \<equiv> f_indexes s ! unat c < ac_lastAddresses (f_acc s) ! unat c"

lemma sender_asks:
  assumes "calm lib d la bh K s" and p: "f_sender s = Requesting c l a"
  shows "\<exists>s'. (step lib)\<^sup>*\<^sup>* s s' \<and> to_ask K s' < to_ask K s"
proof -
  have s: "on_course lib d la bh K s" using assms(1) by (simp add: calm_def)
  obtain fin files reqs where i: "fetch_inv lib s fin files reqs" and w: "within s K"
    by (rule on_course_facts [OF s])
  then obtain b' where b': "addr_send a (f_backend s) b'"
    using can_ask assms(1) by (auto simp: calm_def fetch_inv_def)
  let ?s' = "s\<lparr>f_sender := Deriving c l, f_backend := b', f_rep := AddrRequest_report (f_rep s),
    f_indexes := (f_indexes s)[unat c := f_indexes s ! unat c + 1]\<rparr>"
  have "step lib s ?s'" using s by (intro fetch_step.send sendWork.request [of s c l a addr_send b' lib, OF p b']) (auto simp: on_course_def)
  moreover
  have c: "c = 0 \<or> c = 1" and lt: "f_indexes s ! unat c < l" "l \<le> ac_lastAddresses (f_acc s) ! unat c"
    and len: "length (f_indexes s) = 2"
    and le: "f_indexes s ! 0 \<le> ac_lastAddresses (f_acc s) ! 0" "f_indexes s ! 1 \<le> ac_lastAddresses (f_acc s) ! 1"
    using i p by (auto simp: fetch_inv_def sender_inv_def sender_ok_def)
  have "to_ask K ?s' < to_ask K s"
    using c lt le len w unat_inc_no_wrap [OF lt(1)]
    by (auto simp: to_ask_def within_def word_le_nat_alt word_less_nat_alt)
  ultimately show ?thesis by blast
qed

lemma sender_derives:
  assumes "calm lib d la bh K s" and p: "f_sender s = Deriving c l" and lt: "f_indexes s ! unat c < l"
  shows "\<exists>s'. (step lib)\<^sup>*\<^sup>* s s' \<and> to_ask K s' < to_ask K s"
proof (cases "Derive lib (ac_deriver (f_acc s)) c (f_indexes s ! unat c)")
  case (Inl e)
  have s: "on_course lib d la bh K s" using assms(1) by (simp add: calm_def)
  then have "step lib s (s\<lparr>f_sender := SenderPanic e\<rparr>)"
    by (intro fetch_step.send sendWork.derive_panic [OF p lt Inl]) (auto simp: on_course_def)
  from on_course_step [OF this s] show ?thesis by (simp add: on_course_def panicked.simps)
next
  case (Inr a)
  let ?s' = "s\<lparr>f_sender := Requesting c l a, f_acc := count_derived (f_acc s)\<rparr>"
  have run: "step lib s ?s'"
    using assms(1) by (intro fetch_step.send sendWork.derive [OF p _ lt Inr]) (auto simp: calm_def on_course_def)
  then have "calm lib d la bh K ?s'" using assms(1) on_course_step [OF run] by (simp add: calm_def)
  from sender_asks [OF this] obtain s' where "(step lib)\<^sup>*\<^sup>* ?s' s'" "to_ask K s' < to_ask K ?s'" by auto
  then show ?thesis using run by (auto simp: to_ask_def intro: converse_rtranclp_into_rtranclp)
qed

lemma sender_reads:
  assumes "calm lib d la bh K s" and p: "f_sender s = ReadBound c"
  shows "\<exists>s'. step lib s s' \<and> calm lib d la bh K s' \<and> f_sender s' = Deriving c (ac_lastAddresses (f_acc s) ! unat c) \<and>
    f_indexes s' = f_indexes s \<and> f_acc s' = f_acc s \<and> (c = 0 \<or> c = 1)"
proof -
  have s: "on_course lib d la bh K s" using assms(1) by (simp add: calm_def)
  obtain fin files reqs where "fetch_inv lib s fin files reqs" by (rule on_course_facts [OF s])
  then have c: "c = 0 \<or> c = 1" and "length (ac_lastAddresses (f_acc s)) = 2"
    using p by (auto simp: fetch_inv_def sender_inv_def sender_ok_def)
  then have "getLastAddress c (f_acc s) = Inr (ac_lastAddresses (f_acc s) ! unat c)"
    by (auto simp: getLastAddress_def at_index_Inr_iff)
  then have run: "step lib s (s\<lparr>f_sender := Deriving c (ac_lastAddresses (f_acc s) ! unat c)\<rparr>)"
    using assms(1) by (intro fetch_step.send sendWork.read_bound [OF p]) (auto simp: calm_def on_course_def)
  show ?thesis
    by (intro exI conjI, rule run) (use assms(1) c on_course_step [OF run s] in \<open>auto simp: calm_def\<close>)
qed

lemma sender_turns:
  assumes "calm lib d la bh K s" and p: "f_sender s = Deriving c l" and "\<not> f_indexes s ! unat c < l"
  shows "\<exists>s'. step lib s s' \<and> calm lib d la bh K s' \<and> f_sender s' = ReadBound (if c = 0 then 1 else 0) \<and>
    f_indexes s' = f_indexes s \<and> f_acc s' = f_acc s"
proof -
  have s: "on_course lib d la bh K s" using assms(1) by (simp add: calm_def)
  then have run: "step lib s (s\<lparr>f_sender := ReadBound (if c = 0 then 1 else 0)\<rparr>)"
    by (intro fetch_step.send sendWork.next_change [OF p assms(3)]) (auto simp: on_course_def)
  show ?thesis
    by (intro exI conjI, rule run) (use assms(1) on_course_step [OF run s] in \<open>auto simp: calm_def\<close>)
qed

text \<open>At most two turns later the sender is on the chain that is behind.\<close>

lemma sender_reads_behind:
  assumes "calm lib d la bh K s" and "f_sender s = ReadBound c" and "behind c s"
  shows "\<exists>s'. (step lib)\<^sup>*\<^sup>* s s' \<and> to_ask K s' < to_ask K s"
proof -
  obtain t where t: "step lib s t" "calm lib d la bh K t" "f_sender t = Deriving c (ac_lastAddresses (f_acc s) ! unat c)"
    "f_indexes t = f_indexes s"
    using sender_reads [OF assms(1,2)] by blast
  then obtain s' where "(step lib)\<^sup>*\<^sup>* t s'" "to_ask K s' < to_ask K t"
    using sender_derives [OF t(2,3)] assms(3) by auto
  then show ?thesis using t(1,4) by (auto simp: to_ask_def intro: converse_rtranclp_into_rtranclp)
qed

lemma sender_turns_behind:
  assumes "calm lib d la bh K s" and "f_sender s = Deriving c l" and "\<not> f_indexes s ! unat c < l"
    and "behind (if c = 0 then 1 else 0) s"
  shows "\<exists>s'. (step lib)\<^sup>*\<^sup>* s s' \<and> to_ask K s' < to_ask K s"
proof -
  obtain t where t: "step lib s t" "calm lib d la bh K t" "f_sender t = ReadBound (if c = 0 then 1 else 0)"
    "f_indexes t = f_indexes s" "f_acc t = f_acc s"
    using sender_turns [OF assms(1-3)] by blast
  then obtain s' where "(step lib)\<^sup>*\<^sup>* t s'" "to_ask K s' < to_ask K t"
    using sender_reads_behind [OF t(2,3), unfolded t(4,5), OF assms(4)] by auto
  then show ?thesis using t(1,4) by (auto simp: to_ask_def intro: converse_rtranclp_into_rtranclp)
qed

lemma sender_reads_any:
  assumes "calm lib d la bh K s" and "f_sender s = ReadBound c" and "behind 0 s \<or> behind 1 s"
  shows "\<exists>s'. (step lib)\<^sup>*\<^sup>* s s' \<and> to_ask K s' < to_ask K s"
proof (cases "behind c s")
  case True
  then show ?thesis by (rule sender_reads_behind [OF assms(1,2)])
next
  case False
  obtain t where t: "step lib s t" "calm lib d la bh K t" "f_sender t = Deriving c (ac_lastAddresses (f_acc s) ! unat c)"
    "f_indexes t = f_indexes s" "f_acc t = f_acc s" "c = 0 \<or> c = 1"
    using sender_reads [OF assms(1,2)] by blast
  have "behind (if c = 0 then 1 else 0) s" using assms(3) False t(6) by auto
  then obtain s' where "(step lib)\<^sup>*\<^sup>* t s'" "to_ask K s' < to_ask K t"
    using sender_turns_behind [OF t(2,3), unfolded t(4,5), OF False] by auto
  then show ?thesis using t(1,4) by (auto simp: to_ask_def intro: converse_rtranclp_into_rtranclp)
qed

lemma sender_advances:
  assumes "calm lib d la bh K s" and "behind 0 s \<or> behind 1 s"
  shows "\<exists>s'. (step lib)\<^sup>*\<^sup>* s s' \<and> to_ask K s' < to_ask K s"
proof (cases "f_sender s")
  case (Deriving c l)
  show ?thesis
  proof (cases "f_indexes s ! unat c < l")
    case False
    obtain t where t: "step lib s t" "calm lib d la bh K t" "f_sender t = ReadBound (if c = 0 then 1 else 0)"
      "f_indexes t = f_indexes s" "f_acc t = f_acc s"
      using sender_turns [OF assms(1) Deriving False] by blast
    then obtain s' where "(step lib)\<^sup>*\<^sup>* t s'" "to_ask K s' < to_ask K t"
      using sender_reads_any [OF t(2,3)] assms(2) by auto
    then show ?thesis using t(1,4) by (auto simp: to_ask_def intro: converse_rtranclp_into_rtranclp)
  qed (rule sender_derives [OF assms(1) Deriving])
next
  case (SenderPanic e)
  then show ?thesis using assms(1) by (simp add: calm_def on_course_def panicked.simps)
qed (use assms sender_asks sender_reads_any in blast)+

section \<open>The end\<close>

lemma fetch_ends:
  assumes "calm lib d la bh K s" and "\<not> behind 0 s" and "\<not> behind 1 s"
  shows "step lib s (s\<lparr>f_receiver := Returned\<rparr>)"
proof -
  have s: "on_course lib d la bh K s" and sel: "f_receiver s = Selecting"
    and owed: "addr_owed (f_backend s) = {#}" "tx_owed (f_backend s) = {#}"
    using assms(1) by (auto simp: calm_def)
  obtain fin files reqs where i: "fetch_inv lib s fin files reqs" and reqs: "set reqs \<subseteq> listed lib d addr_answer K"
    by (rule on_course_facts [OF s])
  have si: "sender_inv lib s" and ai: "addr_inv lib addr_answer addr_owed s fin"
    and ti: "tx_inv tx_answer tx_owed s fin files reqs"
    using i by (auto simp: fetch_inv_def)
  have idx: "f_indexes s ! 0 = ac_lastAddresses (f_acc s) ! 0" "f_indexes s ! 1 = ac_lastAddresses (f_acc s) ! 1"
  proof -
    have "f_indexes s ! 0 \<le> ac_lastAddresses (f_acc s) ! 0" "f_indexes s ! 1 \<le> ac_lastAddresses (f_acc s) ! 1"
      using si by (simp_all add: sender_inv_def)
    moreover have "\<not> f_indexes s ! 0 < ac_lastAddresses (f_acc s) ! 0" "\<not> f_indexes s ! 1 < ac_lastAddresses (f_acc s) ! 1"
      using assms(2,3) by simp_all
    ultimately show "f_indexes s ! 0 = ac_lastAddresses (f_acc s) ! 0" "f_indexes s ! 1 = ac_lastAddresses (f_acc s) ! 1"
      by (auto simp: not_less)
  qed
  then have "pending (f_sender s) = 0"
    using si by (auto simp: sender_inv_def sender_ok_def pending_def split: sender.splits)
  then have derived: "ac_derivedAddrCount (f_acc s) = ac_lastAddresses (f_acc s) ! 0 + ac_lastAddresses (f_acc s) ! 1"
    using si idx by (simp add: sender_inv_def)
  have "length fin = size (asked lib (ac_deriver (f_acc s)) (f_indexes s))"
    using arg_cong [OF conjunct1 [OF ai [unfolded addr_inv_def]], of size] sel owed by simp
  then have processed: "ac_processedAddrCount (f_acc s) = ac_lastAddresses (f_acc s) ! 0 + ac_lastAddresses (f_acc s) ! 1"
    using ai sel idx by (simp add: addr_inv_def size_asked)
  have "filter (\<lambda>h. tx_answer h \<noteq> None) reqs = reqs"
    using s reqs by (auto simp: on_course_def filter_id_conv)
  then have "length files = length reqs"
    using arg_cong [of _ _ size, OF conjunct1 [OF ti [unfolded tx_inv_def]]] owed by simp
  then have "complete (f_acc s)"
    using ti derived processed by (simp add: complete_def Let_def tx_inv_def)
  then show ?thesis
    using s sel by (intro fetch_step.recv recvWork.tick) (auto simp: on_course_def)
qed

lemma can_end:
  assumes "on_course lib d la bh K s"
  shows "\<exists>s'. (step lib)\<^sup>*\<^sup>* s s' \<and> f_receiver s' = Returned"
  using assms
proof (induction s rule: wf_induct_rule [OF wf_measures [of "[to_ask K, \<lambda>s. size (addr_owed (f_backend s)),
    \<lambda>s. to_handle (f_receiver s), \<lambda>s. size (tx_owed (f_backend s))]"]])
  case (1 s)
  have go: ?case if "(step lib)\<^sup>*\<^sup>* s t" "(t, s) \<in> left_over K" for t
    using 1(1) [OF that(2) [unfolded left_over_def] on_course_steps [OF that(1) 1(2)]] that(1) by (meson rtranclp_trans)
  show ?case
  proof (cases "f_receiver s = Returned")
    case False
    show ?thesis
    proof (cases "calm lib d la bh K s")
      case True
      show ?thesis
      proof (cases "behind 0 s \<or> behind 1 s")
        case b: True
        then obtain t where "(step lib)\<^sup>*\<^sup>* s t" "to_ask K t < to_ask K s" using sender_advances [OF True] by blast
        then show ?thesis using go [of t] by (simp add: left_over_def)
      next
        case False
        then have "step lib s (s\<lparr>f_receiver := Returned\<rparr>)" by (intro fetch_ends [OF True]) auto
        then show ?thesis by (intro exI conjI, rule r_into_rtranclp) auto
      qed
    next
      case c: False
      then show ?thesis using receiver_advances [OF 1(2) False] 1(2) go by (auto simp: calm_def)
    qed
  qed blast
qed

text \<open>Whatever a fetch has done so far.\<close>

lemma fetch_can_end:
  assumes "(step lib)\<^sup>*\<^sup>* (fetch_start (New d la bh) rep b) s"
    and "binv b" "addr_owed b = {#}" "tx_owed b = {#}" "tx_load b = 0"
    and "closed_bounds lib d la addr_answer K" "servable lib d addr_answer K" "counts_fit lib d addr_answer K"
    and "\<forall>h\<in>listed lib d addr_answer K. tx_answer h \<noteq> None" "listed_count lib d addr_answer K \<le> room"
  shows "\<exists>s'. (step lib)\<^sup>*\<^sup>* s s' \<and> f_receiver s' = Returned"
proof -
  have "\<not> panicked (fetch_start (New d la bh) rep b)" by (simp add: fetch_start_def panicked.simps)
  then have "on_course lib d la bh K (fetch_start (New d la bh) rep b)"
    using fetch_reached [OF rtranclp.rtrancl_refl assms(2-4)] assms(5-)
    by (simp add: on_course_def)
  from can_end [OF on_course_steps [OF assms(1) this]] show ?thesis .
qed

end

section \<open>The fixture and the ideal backend respond\<close>

interpretation ideal_live: responsive ideal_work "ideal_addr_send addr_answer" ideal_addr_recv
    "ideal_tx_send tx_answer" ideal_tx_recv fst snd addr_answer "keyed tx_answer" "\<lambda>_. True" "\<lambda>_. 0" "Suc n"
  for addr_answer tx_answer n
proof (unfold_locales, goal_cases)
  case (8 b)
  then have "(\<exists>r b'. ideal_addr_recv b r b') \<or> (\<exists>t b'. ideal_tx_recv b t b')"
    unfolding ideal_addr_recv_def ideal_tx_recv_def by (meson multiset_nonemptyE)
  then show ?case by blast
qed (simp_all add: ideal_defs)

text \<open>A fixture that only serves the accounter: no headers are asked for, and \<^verbatim>\<open>Finish\<close> was not called.\<close>

definition fixture_live :: "json_index \<Rightarrow> fixture_backend \<times> worker \<Rightarrow> bool" where
  "fixture_live j s \<longleftrightarrow> fixture_loaded j s \<and> fb_blockRequests (fst s) = [] \<and> \<not> fb_doneCh (fst s) \<and>
     (case snd s of Idle \<Rightarrow> True | SendAddr _ \<Rightarrow> True | SendTx _ \<Rightarrow> True | _ \<Rightarrow> False)"

lemma fixture_live_loaded: "fixture_live j s \<Longrightarrow> fixture_loaded j s"
  by (simp add: fixture_live_def)

lemma fixture_live_channels:
  "fixture_live j s \<Longrightarrow> fx_addr_send a s s' \<Longrightarrow> fixture_live j s'"
  "fixture_live j s \<Longrightarrow> fx_addr_recv s r s' \<Longrightarrow> fixture_live j s'"
  "fixture_live j s \<Longrightarrow> fx_tx_send h s s' \<Longrightarrow> fixture_live j s'"
  "fixture_live j s \<Longrightarrow> fx_tx_recv s t s' \<Longrightarrow> fixture_live j s'"
  by (auto simp: fixture_live_def fixture_loaded_def fixture_addr_send_def fixture_addr_recv_def fixture_tx_send_def
      fixture_tx_recv_def dest!: sym [of _ "fst s'"] split: if_splits list.splits)

lemma fixture_live_work: "fixture_processRequests s s' \<Longrightarrow> fixture_live j s \<Longrightarrow>
    fixture_live j s' \<and> length (fb_txRequests (fst s')) \<le> length (fb_txRequests (fst s))"
  by (induction rule: fixture_processRequests.induct)
    (auto simp: fixture_live_def fixture_loaded_def split: option.splits)

definition fixture_answers :: "fixture_backend \<times> worker \<Rightarrow> bool" where
  "fixture_answers s \<longleftrightarrow> (\<exists>t. fixture_processRequests\<^sup>*\<^sup>* s t \<and> ((\<exists>r t'. fx_addr_recv t r t') \<or> (\<exists>r t'. fx_tx_recv t r t')))"

lemma fixture_answers_step: "fixture_processRequests s s' \<Longrightarrow> fixture_answers s' \<Longrightarrow> fixture_answers s"
  unfolding fixture_answers_def by (meson converse_rtranclp_into_rtranclp)

lemma fixture_answers_now: "fb_addrResponses fb \<noteq> [] \<or> fb_txResponses fb \<noteq> [] \<Longrightarrow> fixture_answers (fb, w)"
  unfolding fixture_answers_def
  by (rule exI [of _ "(fb, w)"]) (auto simp: fixture_addr_recv_def fixture_tx_recv_def neq_Nil_conv)

lemma fixture_answers_sending: "fixture_answers (fb, SendAddr r)" "fixture_answers (fb, SendTx t)"
  using fixture_answers_now [of fb] fixture_answers_step [OF fixture_processRequests.send_addr [of fb r]]
    fixture_answers_step [OF fixture_processRequests.send_tx [of fb t]] fixture_answers_now
  by (cases "fb_addrResponses fb = []"; cases "fb_txResponses fb = []"; simp)+

lemma fixture_answers_idle:
  assumes "fixture_addr_owed (fb, Idle) \<noteq> {#} \<or> fixture_tx_owed (fb, Idle) \<noteq> {#}"
  shows "fixture_answers (fb, Idle)"
  using assms
proof (induction "fb_txRequests fb" arbitrary: fb)
  case Nil
  then show ?case
    using fixture_answers_now [of fb] fixture_answers_step [OF fixture_processRequests.take_addr fixture_answers_sending(1)]
    by (cases "fb_addrRequests fb") (auto simp: fixture_addr_owed_def fixture_tx_owed_def List.map_filter_simps)
next
  case (Cons h q)
  note take = fixture_answers_step [OF fixture_processRequests.take_tx [OF Cons.hyps(2) [symmetric]]]
  show ?case
  proof (cases "fixture_processTxRequest fb h")
    case (Some t)
    then show ?thesis using take fixture_answers_sending(2) by simp
  next
    case None
    have "fixture_addr_owed (fb\<lparr>fb_txRequests := q\<rparr>, Idle) = fixture_addr_owed (fb, Idle)"
      "fixture_tx_owed (fb\<lparr>fb_txRequests := q\<rparr>, Idle) = fixture_tx_owed (fb, Idle)"
      using None by (simp_all add: fixture_addr_owed_def fixture_tx_owed_def List.map_filter_simps flip: Cons.hyps(2))
    then have "fixture_answers (fb\<lparr>fb_txRequests := q\<rparr>, Idle)" using Cons by simp
    then show ?thesis using take None by simp
  qed
qed

interpretation fixture_lively: responsive fixture_processRequests fx_addr_send fx_addr_recv fx_tx_send fx_tx_recv
    fixture_addr_owed fixture_tx_owed "fixture_processAddrRequest (fixture_of d)" "fixture_processTxRequest (fixture_of d)"
    "fixture_live d" "\<lambda>s. length (fb_txRequests (fst s))" 1000
  for d
proof (unfold_locales, goal_cases)
  case (1 b b')
  then show ?case using fx.work_owed [OF fixture_live_loaded] fixture_live_work by simp
next
  case (2 b a b')
  then show ?case using fx.addr_send_owed [OF fixture_live_loaded 2(2)] fixture_live_channels(1) by simp
next
  case (3 b r b')
  then show ?case using fx.addr_recv_owed [OF fixture_live_loaded 3(2)] fixture_live_channels(2) by simp
next
  case (4 b h b')
  then show ?case using fx.tx_send_owed [OF fixture_live_loaded 4(2)] fixture_live_channels(3) by simp
next
  case (5 b t b')
  then show ?case using fx.tx_recv_owed [OF fixture_live_loaded 5(2)] fixture_live_channels(4) by simp
next
  case (6 h t)
  then show ?case by (rule fx.tx_answer_hash)
next
  case (7 b b')
  then show ?case using fixture_live_work by blast
next
  case (14 b)
  have "fixture_answers b"
  proof (cases b)
    case (Pair fb w)
    then show ?thesis using 14 fixture_answers_sending fixture_answers_idle by (cases w) (auto simp: fixture_live_def)
  qed
  then show ?case by (auto simp: fixture_answers_def)
qed (auto simp: fixture_addr_send_def fixture_addr_recv_def fixture_tx_send_def fixture_tx_recv_def owed_defs
    dest!: sym [of _ "fst _"] split: if_splits list.splits)

end
