(* ===== verification/Liveness.thy ===== *)
theory Liveness
  imports ComputeBalance Progress
begin

text \<open>
  Whether \<open>ComputeBalance\<close> over a fixture ends: it can always end when the wallet has few transactions, and
  it cannot any more once it handles an address with more than 2001 new ones.
\<close>

lemma fixture_of_running: "\<not> fb_doneCh (fixture_of j)"
proof -
  have "fb_doneCh (fold load_block bs fb) = fb_doneCh fb" "fb_doneCh (fold load_transaction ts fb) = fb_doneCh fb"
    "fb_doneCh (fold load_address as fb) = fb_doneCh fb" for bs ts as fb
    by (induction bs arbitrary: fb, simp_all add: load_block_def)
      (induction ts arbitrary: fb, simp_all add: load_transaction_def,
        induction as arbitrary: fb, simp_all add: load_address_def Let_def)
  then show ?thesis by (simp add: fixture_of_def empty_fixture_def)
qed

lemma fixture_started_live: "fixture_live j (fixture_started j)" "length (fb_txRequests (fst (fixture_started j))) = 0"
  using fixture_start_facts(1) [of j] by (simp_all add: fixture_live_def fixture_of_simps fixture_of_running)

text \<open>
  C33: the balance stays within reach.  For a wallet with at most a thousand listed transactions, all of them in
  the fixture, whatever the goroutines of the accounter and the backend have done so far, they can go on so
  that \<^verbatim>\<open>recvWork\<close> returns, without a panic and with everything fetched: there is no deadlock and no
  counter goes astray.
\<close>

theorem fetch_stays_within_reach:
  assumes "(fixture_program lib)\<^sup>*\<^sup>* (fetch_start (New d la bh) rep (fixture_started j)) s"
    and "least_bounds lib d la (fixture_processAddrRequest (fixture_of j)) K"
    and "servable lib d (fixture_processAddrRequest (fixture_of j)) K"
    and "counts_fit lib d (fixture_processAddrRequest (fixture_of j)) K"
    and "\<forall>h\<in>listed lib d (fixture_processAddrRequest (fixture_of j)) K. fixture_processTxRequest (fixture_of j) h \<noteq> None"
    and "listed_count lib d (fixture_processAddrRequest (fixture_of j)) K \<le> 1000"
  shows "\<exists>s'. (fixture_program lib)\<^sup>*\<^sup>* s s' \<and> f_receiver s' = Returned \<and> \<not> panicked s' \<and>
    ac_lastAddresses (f_acc s') = K \<and>
    fetched lib d la (fixture_processAddrRequest (fixture_of j)) (fixture_processTxRequest (fixture_of j)) (f_acc s')"
proof -
  have K: "closed_bounds lib d la (fixture_processAddrRequest (fixture_of j)) K" using assms(2) by (simp add: least_bounds_def)
  obtain s' where s': "(fixture_program lib)\<^sup>*\<^sup>* s s'" "f_receiver s' = Returned"
    using fixture_lively.fetch_can_end [OF assms(1) fixture_started_live(1) fixture_start_facts(2,3) fixture_started_live(2)
      K assms(3-6)] by blast
  then have run: "(fixture_program lib)\<^sup>*\<^sup>* (fetch_start (New d la bh) rep (fixture_started j)) s'"
    using assms(1) by (meson rtranclp_trans)
  show ?thesis
    using s' fx.never_panics [OF run fixture_start_facts K assms(3)]
      fx.fetch_least [OF run fixture_start_facts s'(2) assms(2-4)] by blast
qed

theorem fetch_stays_within_reach_witness:
  "\<exists>s'. (fixture_program demo_lib)\<^sup>*\<^sup>* (fetch_start (New demo_deriver 2 25) new_reporter (fixture_started (demo_index demo_hex))) s' \<and>
     f_receiver s' = Returned"
proof -
  have "listed demo_lib demo_deriver (demo_answer demo_hex) [3, 2] \<subseteq> {''t''}"
    by (auto simp: listed_def answers_def demo_asked elim!: demo_address [of _ demo_hex] split: if_splits)
  then have known: "\<forall>h\<in>listed demo_lib demo_deriver (demo_answer demo_hex) [3, 2].
      fixture_processTxRequest (fixture_of (demo_index demo_hex)) h \<noteq> None"
    by (auto simp: fixture_processTxRequest_def fixture_of_simps demo_index_def)
  have "listed_count demo_lib demo_deriver (demo_answer demo_hex) [3, 2] \<le> size (asked demo_lib demo_deriver [3, 2])"
    unfolding listed_count_def answers_def by (rule short_answers [OF demo_answer_length])
  then have "listed_count demo_lib demo_deriver (demo_answer demo_hex) [3, 2] \<le> 1000" by (simp add: size_asked)
  from fetch_stays_within_reach [OF rtranclp.rtrancl_refl demo_least demo_servable demo_fits known this] show ?thesis by blast
qed

section \<open>Too many transactions\<close>

text \<open>The channels for transactions are never longer than their buffers.\<close>

definition tx_buffers :: "json_index \<Rightarrow> fixture_backend \<times> worker \<Rightarrow> bool" where
  "tx_buffers j s \<longleftrightarrow> fixture_loaded j s \<and> length (fb_txRequests (fst s)) \<le> 1000 \<and> length (fb_txResponses (fst s)) \<le> 1000"

lemma tx_buffers_work: "fixture_processRequests s s' \<Longrightarrow> tx_buffers j s \<Longrightarrow> tx_buffers j s'"
  by (induction rule: fixture_processRequests.induct) (auto simp: tx_buffers_def fixture_loaded_def)

lemma tx_buffers_channels:
  "fx_addr_send a s s' \<Longrightarrow> tx_buffers j s \<Longrightarrow> tx_buffers j s'" "fx_addr_recv s r s' \<Longrightarrow> tx_buffers j s \<Longrightarrow> tx_buffers j s'"
  "fx_tx_send h s s' \<Longrightarrow> tx_buffers j s \<Longrightarrow> tx_buffers j s'" "fx_tx_recv s t s' \<Longrightarrow> tx_buffers j s \<Longrightarrow> tx_buffers j s'"
  by (auto simp: tx_buffers_def fixture_loaded_def fixture_addr_send_def fixture_addr_recv_def fixture_tx_send_def fixture_tx_recv_def
      dest!: sym [of _ "fst s'"] split: if_splits list.splits)

lemma tx_buffers_step:
  assumes "fixture_program lib s s'" and "tx_buffers j (f_backend s)"
  shows "tx_buffers j (f_backend s')"
  using assms(1)
proof cases
  case send
  from send(2) show ?thesis by cases (use assms(2) tx_buffers_channels(1) in auto)
next
  case recv
  from recv(2) show ?thesis by cases (use assms(2) tx_buffers_channels(2-4) in auto)
next
  case (backend b')
  then show ?thesis using assms(2) tx_buffers_work by simp
qed

lemma tx_buffers_reach:
  "(fixture_program lib)\<^sup>*\<^sup>* (fetch_start a rep (fixture_started j)) s \<Longrightarrow> tx_buffers j (f_backend s)"
proof (induction rule: rtranclp_induct)
  case base
  then show ?case using fixture_start_facts(1) [of j] by (simp add: tx_buffers_def fixture_of_simps)
qed (rule tx_buffers_step)

lemma tx_owed_bound:
  assumes "tx_buffers j s"
  shows "size (fixture_tx_owed s) \<le> 2001"
proof -
  have "length (List.map_filter (fixture_processTxRequest (fst s)) (fb_txRequests (fst s))) \<le> length (fb_txRequests (fst s))"
    by (simp add: List.map_filter_def)
  moreover have "size (held_tx (snd s)) \<le> 1" by (cases "snd s") simp_all
  ultimately show ?thesis using assms by (simp add: fixture_tx_owed_def tx_buffers_def)
qed

text \<open>The receiver has more left to ask for than the backend can take.\<close>

definition overrun :: "json_index \<Rightarrow> AddrResponse \<Rightarrow> (fixture_backend \<times> worker) fetch \<Rightarrow> bool" where
  "overrun j r s \<longleftrightarrow> tx_buffers j (f_backend s) \<and>
     (\<exists>hs. f_receiver s = SeeTxs r hs \<and> 2001 < length hs + size (fixture_tx_owed (f_backend s)) \<and>
        (\<forall>h\<in>set hs. unseen h (f_acc s) \<and> fixture_processTxRequest (fixture_of j) h \<noteq> None))"

lemma overrun_stuck: "overrun j r s \<Longrightarrow> \<exists>hs. f_receiver s = SeeTxs r hs \<and> hs \<noteq> []"
  using tx_owed_bound [of j "f_backend s"] by (auto simp: overrun_def)

lemma overrun_step:
  assumes "fixture_program lib s s'" and "overrun j r s"
  shows "overrun j r s'"
proof -
  obtain hs where pc: "f_receiver s = SeeTxs r hs" and n: "2001 < length hs + size (fixture_tx_owed (f_backend s))"
    and hs: "\<forall>h\<in>set hs. unseen h (f_acc s) \<and> fixture_processTxRequest (fixture_of j) h \<noteq> None"
    and b: "tx_buffers j (f_backend s)"
    using assms(2) by (auto simp: overrun_def)
  have l: "fixture_loaded j (f_backend s)" and ne: "hs \<noteq> []"
    using b n tx_owed_bound [OF b] by (auto simp: tx_buffers_def)
  note b' = tx_buffers_step [OF assms(1) b]
  from assms(1) show ?thesis
  proof cases
    case send
    have "fixture_tx_owed (f_backend s') = fixture_tx_owed (f_backend s)"
      using send(2) by cases (use fx.addr_send_owed [OF l] in auto)
    then show ?thesis using sendWork_params [OF send(2)] pc n hs b' by (auto simp: overrun_def unseen_def)
  next
    case recv
    from recv(2) show ?thesis
    proof cases
      case (unknown resp h hs' b1)
      then have h: "hs = h # hs'" "resp = r" using pc by auto
      then obtain t where "fixture_processTxRequest (fixture_of j) h = Some t" using hs by auto
      then have "size (fixture_tx_owed b1) = Suc (size (fixture_tx_owed (f_backend s)))"
        using fx.tx_send_owed [OF l unknown(4)] by simp
      then show ?thesis using unknown(1) h n hs b' by (auto simp: overrun_def unseen_def count_seen_def)
    qed (use pc ne hs in auto)
  next
    case (backend b1)
    then show ?thesis using fx.work_owed [OF l backend(3)] pc n hs b' by (auto simp: overrun_def)
  qed
qed

text \<open>
  C34: an address with too many transactions stops the program for good.  When the receiver handles an answer
  that lists more than 2001 new transactions of the fixture, it never gets to the end of the list: it blocks with
  the mutex held in a request that nobody takes, for the backend blocks on responses that nobody takes.
\<close>

theorem many_transactions_deadlock:
  assumes "(fixture_program lib)\<^sup>*\<^sup>* (fetch_start (New d la bh) rep (fixture_started j)) s"
    and "f_receiver s = SeeTxs r hs" and "2001 < length hs"
    and "\<forall>h\<in>set hs. unseen h (f_acc s) \<and> fixture_processTxRequest (fixture_of j) h \<noteq> None"
    and "(fixture_program lib)\<^sup>*\<^sup>* s s'"
  shows "\<exists>hs'. f_receiver s' = SeeTxs r hs' \<and> hs' \<noteq> []"
proof -
  have "overrun j r s" using tx_buffers_reach [OF assms(1)] assms(2-4) by (auto simp: overrun_def)
  with assms(5) have "overrun j r s'" by (induction rule: rtranclp_induct) (auto intro: overrun_step)
  then show ?thesis by (rule overrun_stuck)
qed

text \<open>A fixture whose first address lists the hashes \<open>hs\<close>, right after the answer for it was received.\<close>

definition big_index :: "string list \<Rightarrow> json_index" where
  "big_index hs = \<lparr>ji_Height = 1000,
     ji_Addresses = [\<lparr>j_Address = ''410000'', j_Path = ''m/.../0/0'', j_Network = Testnet, j_Change = 0, j_AddressIndex = 0, j_TxHashes = hs\<rparr>],
     ji_Transactions = [\<lparr>jt_Hash = ''t'', jt_Height = 10, jt_Hex = ''00''\<rparr>], ji_Blocks = []\<rparr>"

definition big_run :: "string list \<Rightarrow> (fixture_backend \<times> worker) fetch" where
  "big_run hs = run demo_lib fixture_ops 6 (fetch_start (New demo_deriver 2 25) new_reporter (fixture_started (big_index hs)))"

lemma big_received: "(case f_receiver (big_run hs) of SeeTxs r hs' \<Rightarrow> hs' | _ \<Rightarrow> []) = hs"
  by code_simp

lemma big_unseen: "case f_receiver (big_run hs) of SeeTxs r hs' \<Rightarrow> unseen ''t'' (f_acc (big_run hs)) | _ \<Rightarrow> False"
  by code_simp

theorem many_transactions_deadlock_witness:
  "(fixture_program demo_lib)\<^sup>*\<^sup>* (fetch_start (New demo_deriver 2 25) new_reporter
      (fixture_started (big_index (replicate 2002 ''t'')))) (big_run (replicate 2002 ''t'')) \<and>
    \<not> (\<exists>s'. (fixture_program demo_lib)\<^sup>*\<^sup>* (big_run (replicate 2002 ''t'')) s' \<and> f_receiver s' = Returned)"
proof -
  let ?hs = "replicate 2002 ''t''"
  have run: "(fixture_program demo_lib)\<^sup>*\<^sup>* (fetch_start (New demo_deriver 2 25) new_reporter (fixture_started (big_index ?hs))) (big_run ?hs)"
    unfolding big_run_def by (rule fixture_sched.run_sound)
  obtain r where r: "f_receiver (big_run ?hs) = SeeTxs r ?hs" and "unseen ''t'' (f_acc (big_run ?hs))"
    using big_received [of ?hs] big_unseen [of ?hs] by (auto split: receiver.splits)
  moreover have "fixture_processTxRequest (fixture_of (big_index ?hs)) ''t'' \<noteq> None"
    by (simp add: fixture_processTxRequest_def fixture_of_simps big_index_def)
  ultimately have "\<forall>h\<in>set ?hs. unseen h (f_acc (big_run ?hs)) \<and> fixture_processTxRequest (fixture_of (big_index ?hs)) h \<noteq> None"
    by simp
  from many_transactions_deadlock [OF run r _ this] run show ?thesis by fastforce
qed

end
