(* ===== verification/Base58.thy ===== *)
theory Base58
  imports Utils
begin

text \<open>
  The vendored \<^verbatim>\<open>btcutil/base58\<close>: the text of the addresses the deriver makes.  A byte string is read as
  a number and written in base 58, with a \<^verbatim>\<open>1\<close> for every leading zero byte; \<^verbatim>\<open>CheckEncode\<close> puts a version
  byte before and four bytes of a double hash behind.  \<^verbatim>\<open>big.Int\<close> is \<open>nat\<close>; the hash is an argument.
\<close>

section \<open>Numbers in a base\<close>

fun le_value :: "nat \<Rightarrow> nat list \<Rightarrow> nat" where
  "le_value b [] = 0"
| "le_value b (d # ds) = d + b * le_value b ds"

fun le_digits :: "nat \<Rightarrow> nat \<Rightarrow> nat list" where
  "le_digits b n = (if n = 0 \<or> b < 2 then [] else n mod b # le_digits b (n div b))"

declare le_digits.simps [simp del]

lemma le_value_append: "le_value b (xs @ ys) = le_value b xs + b ^ length xs * le_value b ys"
  by (induction xs) (simp_all add: algebra_simps)

lemma le_value_zeros [simp]: "le_value b (replicate k 0) = 0"
  by (induction k) simp_all

text \<open>The digits of a base are those lists of small numbers that do not end with a zero.\<close>

definition proper :: "nat \<Rightarrow> nat list \<Rightarrow> bool" where
  "proper b ds \<longleftrightarrow> (\<forall>d\<in>set ds. d < b) \<and> (ds \<noteq> [] \<longrightarrow> last ds \<noteq> 0)"

locale radix =
  fixes base :: nat
  assumes base: "2 \<le> base"
begin

lemma digits_simps: "le_digits base 0 = []"
  "n \<noteq> 0 \<Longrightarrow> le_digits base n = n mod base # le_digits base (n div base)"
  using base by (simp_all add: le_digits.simps)

lemma digits_Nil_iff: "le_digits base n = [] \<longleftrightarrow> n = 0"
  using base by (simp add: le_digits.simps)

lemma value_digits: "le_value base (le_digits base n) = n"
proof (induction n rule: less_induct)
  case (less n)
  show ?case
  proof (cases "n = 0")
    case False
    then have "n div base < n" using base by (simp add: div_less_dividend)
    then show ?thesis using less False by (simp add: digits_simps)
  qed (simp add: digits_simps)
qed

lemma proper_digits: "proper base (le_digits base n)"
proof (induction n rule: less_induct)
  case (less n)
  show ?case
  proof (cases "n = 0")
    case False
    then have "n div base < n" using base by (simp add: div_less_dividend)
    with less have p: "proper base (le_digits base (n div base))" .
    have "n mod base \<noteq> 0" if "le_digits base (n div base) = []"
      using that False base by (auto simp: digits_Nil_iff div_eq_0_iff)
    moreover have "n mod base < base" using base by simp
    ultimately show ?thesis
      using p unfolding digits_simps(2) [OF False] by (simp add: proper_def)
  qed (simp add: digits_simps proper_def)
qed

lemma value_bound: "\<forall>d\<in>set ds. d < base \<Longrightarrow> le_value base ds < base ^ length ds"
proof (induction ds)
  case (Cons d ds)
  then have "Suc (le_value base ds) \<le> base ^ length ds" and d: "d < base" by auto
  then have "base * Suc (le_value base ds) \<le> base * base ^ length ds" by (intro mult_left_mono) simp_all
  moreover have "d + base * le_value base ds < base * Suc (le_value base ds)" using d by simp
  ultimately show ?case by simp
qed simp

lemma value_positive: "proper base ds \<Longrightarrow> ds \<noteq> [] \<Longrightarrow> 0 < le_value base ds"
proof (induction ds)
  case (Cons d ds)
  then show ?case using base by (cases ds) (auto simp: proper_def)
qed simp

lemma digits_value: "proper base ds \<Longrightarrow> le_digits base (le_value base ds) = ds"
proof (induction ds)
  case Nil
  then show ?case by (simp add: digits_simps)
next
  case (Cons d ds)
  then have p: "proper base ds" and d: "d < base" by (auto simp: proper_def split: if_splits)
  have pos: "le_value base (d # ds) \<noteq> 0" using value_positive [OF Cons.prems] by simp
  have "(d + base * le_value base ds) mod base = d" "(d + base * le_value base ds) div base = le_value base ds"
    using d by simp_all
  then show ?case using digits_simps(2) [OF pos] Cons.IH [OF p] by (simp only: le_value.simps)
qed

lemma value_inject: "proper base xs \<Longrightarrow> proper base ys \<Longrightarrow> le_value base xs = le_value base ys \<Longrightarrow> xs = ys"
  by (metis digits_value)

text \<open>The leading digit of a number between two multiples of a power.\<close>

lemma leading_digit:
  assumes "0 < d" and "d < base" and "d * base ^ k \<le> n" and "n < (d + 1) * base ^ k"
  shows "\<exists>ds. le_digits base n = ds @ [d]"
  using assms(3,4)
proof (induction k arbitrary: n)
  case 0
  then have "n = d" by simp
  then show ?case using assms(1,2) by (simp add: digits_simps)
next
  case (Suc k)
  have pos: "0 < base" using base by simp
  have "d * base ^ k * base \<le> n" "n < (d + 1) * base ^ k * base" using Suc.prems by (simp_all add: mult_ac)
  then have "d * base ^ k \<le> n div base" "n div base < (d + 1) * base ^ k"
    using pos by (simp_all add: less_eq_div_iff_mult_less_eq div_less_iff_less_mult)
  then obtain ds where "le_digits base (n div base) = ds @ [d]" using Suc.IH by blast
  moreover have "n \<noteq> 0"
  proof
    assume "n = 0"
    with Suc.prems(1) have "d * base ^ Suc k = 0" by (simp only: le_zero_eq)
    with assms(1) pos show False by simp
  qed
  ultimately show ?case by (simp add: digits_simps)
qed

end

interpretation b58_radix: radix 58 by unfold_locales simp
interpretation byte_radix: radix 256 by unfold_locales simp

section \<open>The alphabet\<close>

definition alphabet :: string where
  "alphabet = ''123456789ABCDEFGHJKLMNPQRSTUVWXYZabcdefghijkmnopqrstuvwxyz''"

definition alphabetIdx0 :: char where "alphabetIdx0 = CHR ''1''"

definition b58 :: "nat list" where
  "b58 =
    [255, 255, 255, 255, 255, 255, 255, 255,
     255, 255, 255, 255, 255, 255, 255, 255,
     255, 255, 255, 255, 255, 255, 255, 255,
     255, 255, 255, 255, 255, 255, 255, 255,
     255, 255, 255, 255, 255, 255, 255, 255,
     255, 255, 255, 255, 255, 255, 255, 255,
     255, 0, 1, 2, 3, 4, 5, 6,
     7, 8, 255, 255, 255, 255, 255, 255,
     255, 9, 10, 11, 12, 13, 14, 15,
     16, 255, 17, 18, 19, 20, 21, 255,
     22, 23, 24, 25, 26, 27, 28, 29,
     30, 31, 32, 255, 255, 255, 255, 255,
     255, 33, 34, 35, 36, 37, 38, 39,
     40, 41, 42, 43, 255, 44, 45, 46,
     47, 48, 49, 50, 51, 52, 53, 54,
     55, 56, 57, 255, 255, 255, 255, 255] @ replicate 128 255"

lemma alphabet_table: "map ((!) b58) (map of_char alphabet) = [0..<58]"
  by (simp add: b58_def alphabet_def upt_rec)

lemma b58_alphabet: "d < 58 \<Longrightarrow> b58 ! of_char (alphabet ! d) = d"
proof -
  assume "d < 58"
  moreover have "length alphabet = 58" by (simp add: alphabet_def)
  ultimately show ?thesis using arg_cong [OF alphabet_table, of "\<lambda>xs. xs ! d"] by simp
qed

lemma alphabet_first: "d < 58 \<Longrightarrow> alphabet ! d = alphabetIdx0 \<longleftrightarrow> d = 0"
proof -
  assume d: "d < 58"
  have z: "b58 ! of_char alphabetIdx0 = 0" "alphabet ! 0 = alphabetIdx0"
    by (simp_all add: b58_def alphabetIdx0_def alphabet_def)
  show ?thesis
  proof
    assume "alphabet ! d = alphabetIdx0"
    then show "d = 0" using b58_alphabet [OF d] z(1) by simp
  qed (simp add: z(2))
qed

section \<open>Encoding and decoding\<close>

definition SetBytes :: "u8 list \<Rightarrow> nat" where
  "SetBytes bs = foldl (\<lambda>x b. 256 * x + unat b) 0 bs"

definition big_Bytes :: "nat \<Rightarrow> u8 list" where
  "big_Bytes n = map of_nat (rev (le_digits 256 n))"

fun Encode_loop :: "nat \<Rightarrow> string" where
  "Encode_loop x = (if x = 0 then [] else alphabet ! (x mod 58) # Encode_loop (x div 58))"

declare Encode_loop.simps [simp del]

definition base58_Encode :: "u8 list \<Rightarrow> string" where
  "base58_Encode b =
     (let answer = Encode_loop (SetBytes b);
          answer = answer @ map (\<lambda>_. alphabetIdx0) (takeWhile (\<lambda>i. i = 0) b)
      in rev answer)"

text \<open>The loop over the characters from the last to the first; \<open>None\<close> is a character outside the alphabet.\<close>

fun Decode_loop :: "string \<Rightarrow> nat \<Rightarrow> nat \<Rightarrow> nat option" where
  "Decode_loop [] j answer = Some answer"
| "Decode_loop (c # cs) j answer =
     (let tmp = b58 ! of_char c in
      if tmp = 255 then None else Decode_loop cs (j * 58) (answer + j * tmp))"

definition base58_Decode :: "string \<Rightarrow> u8 list" where
  "base58_Decode b =
     (case Decode_loop (rev b) 1 0 of
        None \<Rightarrow> []
      | Some answer \<Rightarrow>
          (let numZeros = length (takeWhile (\<lambda>c. c = alphabetIdx0) b) in
           replicate numZeros 0 @ big_Bytes answer))"

definition checksum :: "(u8 list \<Rightarrow> u8 list) \<Rightarrow> u8 list \<Rightarrow> u8 list" where
  "checksum sha256 input = take 4 (sha256 (sha256 input))"

definition CheckEncode :: "(u8 list \<Rightarrow> u8 list) \<Rightarrow> u8 list \<Rightarrow> u8 \<Rightarrow> string" where
  "CheckEncode sha256 input version =
     (let b = [version] @ input; cksum = checksum sha256 b in base58_Encode (b @ cksum))"

definition ErrChecksum :: go_error where "ErrChecksum = Errorf ''checksum error'' []"

definition ErrInvalidFormat :: go_error where
  "ErrInvalidFormat = Errorf ''invalid format: version and/or checksum bytes missing'' []"

definition CheckDecode :: "(u8 list \<Rightarrow> u8 list) \<Rightarrow> string \<Rightarrow> (u8 list \<times> u8) fallible" where
  "CheckDecode sha256 input =
     (let decoded = base58_Decode input in
      if length decoded < 5 then Inl ErrInvalidFormat
      else
        (let version = decoded ! 0; cksum = drop (length decoded - 4) decoded in
         if checksum sha256 (take (length decoded - 4) decoded) \<noteq> cksum then Inl ErrChecksum
         else Inr (drop 1 (take (length decoded - 4) decoded), version)))"

section \<open>Reading back what was written\<close>

lemma unat_byte: "unat (b :: u8) < 256"
  using unsigned_less [of b] by simp

lemma SetBytes_value: "SetBytes bs = le_value 256 (map unat (rev bs))"
proof (induction bs rule: rev_induct)
  case (snoc b bs)
  then show ?case by (simp add: SetBytes_def)
qed (simp add: SetBytes_def)

lemma Encode_loop_digits: "Encode_loop x = map ((!) alphabet) (le_digits 58 x)"
proof (induction x rule: less_induct)
  case (less x)
  show ?case
  proof (cases "x = 0")
    case True
    then show ?thesis by (simp add: Encode_loop.simps b58_radix.digits_simps)
  next
    case False
    then show ?thesis using less [of "x div 58"] Encode_loop.simps [of x] by (simp add: b58_radix.digits_simps)
  qed
qed

lemma Decode_loop_digits:
  "\<forall>d\<in>set ds. d < 58 \<Longrightarrow> Decode_loop (map ((!) alphabet) ds) j answer = Some (answer + j * le_value 58 ds)"
proof (induction ds arbitrary: j answer)
  case (Cons d ds)
  then have "d < 58" by simp
  then show ?case using Cons by (simp add: b58_alphabet algebra_simps)
qed simp

text \<open>A byte string without a leading zero is the bytes of its number.\<close>

lemma big_Bytes_SetBytes:
  assumes "bs \<noteq> [] \<longrightarrow> hd bs \<noteq> 0"
  shows "big_Bytes (SetBytes bs) = bs"
proof -
  have "\<forall>d\<in>set (map unat (rev bs)). d < 256"
    by (auto intro: unat_byte)
  then have "proper 256 (map unat (rev bs))"
    using assms by (auto simp: proper_def last_map last_rev unsigned_eq_0_iff)
  then show ?thesis
    by (simp add: big_Bytes_def SetBytes_value byte_radix.digits_value map_idI flip: rev_map)
qed

lemma SetBytes_zeros: "SetBytes (replicate k 0 @ bs) = SetBytes bs"
  by (simp add: SetBytes_value le_value_append map_replicate_const flip: replicate_append_same)

text \<open>The text: a \<^verbatim>\<open>1\<close> for every leading zero, and then the digits, which do not begin with a \<^verbatim>\<open>1\<close>.\<close>

lemma takeWhile_run: "r \<noteq> [] \<longrightarrow> \<not> P (hd r) \<Longrightarrow> P x \<Longrightarrow> takeWhile P (replicate k x @ r) = replicate k x"
  by (induction k) (cases r, simp_all)

lemma Encode_text:
  assumes "b = replicate k 0 @ r" and "r \<noteq> [] \<longrightarrow> hd r \<noteq> 0"
  shows "base58_Encode b = map ((!) alphabet) (replicate k 0 @ rev (le_digits 58 (SetBytes r)))"
proof -
  have z: "takeWhile (\<lambda>i. i = 0) (replicate k 0 @ r) = replicate k 0"
    by (rule takeWhile_run) (use assms(2) in simp_all)
  have "alphabet ! 0 = alphabetIdx0" using alphabet_first [of 0] by simp
  then show ?thesis
    by (simp add: base58_Encode_def z Encode_loop_digits assms(1) SetBytes_zeros rev_map map_replicate_const)
qed

lemma Decode_Encode: "base58_Decode (base58_Encode b) = b"
proof -
  let ?k = "length (takeWhile (\<lambda>i. i = 0) b)" and ?r = "dropWhile (\<lambda>i. i = 0) b"
  let ?ds = "le_digits 58 (SetBytes ?r)"
  have z: "takeWhile (\<lambda>i. i = 0) b = replicate ?k 0"
    by (rule replicate_eqI) (auto dest: set_takeWhileD)
  then have b: "b = replicate ?k 0 @ ?r" by (metis takeWhile_dropWhile_id)
  have r: "?r \<noteq> [] \<longrightarrow> hd ?r \<noteq> 0" using hd_dropWhile by blast
  have written: "base58_Encode b = map ((!) alphabet) (replicate ?k 0 @ rev ?ds)" by (rule Encode_text [OF b r])
  have p: "proper 58 ?ds" by (rule b58_radix.proper_digits)
  then have small: "\<forall>d\<in>set (?ds @ replicate ?k 0). d < 58" by (auto simp: proper_def)
  have loop: "Decode_loop (rev (base58_Encode b)) 1 0 = Some (SetBytes ?r)"
    using Decode_loop_digits [OF small, of 1 0]
    by (simp add: written rev_map le_value_append b58_radix.value_digits del: replicate.simps)
  have "takeWhile (\<lambda>c. c = alphabetIdx0) (base58_Encode b) = replicate ?k alphabetIdx0"
  proof -
    have "rev ?ds \<noteq> [] \<longrightarrow> alphabet ! hd (rev ?ds) \<noteq> alphabetIdx0"
      using p alphabet_first [of "last ?ds"] by (auto simp: proper_def hd_rev)
    moreover have "alphabet ! 0 = alphabetIdx0" using alphabet_first [of 0] by simp
    ultimately show ?thesis
      unfolding written map_append map_replicate by (subst takeWhile_run) (auto simp: hd_map)
  qed
  then have "base58_Decode (base58_Encode b) = replicate ?k 0 @ ?r"
    by (simp add: base58_Decode_def loop [unfolded One_nat_def] big_Bytes_SetBytes [OF r])
  with b show ?thesis by simp
qed

lemma CheckDecode_CheckEncode:
  assumes "\<And>x. 4 \<le> length (sha256 x)"
  shows "CheckDecode sha256 (CheckEncode sha256 input version) = Inr (input, version)"
  using assms by (simp add: CheckDecode_def CheckEncode_def Decode_Encode checksum_def Let_def)

section \<open>The first character\<close>

lemma Encode_first_zero: "hd (base58_Encode (0 # bs)) = CHR ''1''"
proof -
  have "rev (base58_Encode (0 # bs)) = Encode_loop (SetBytes bs) @ map (\<lambda>_. alphabetIdx0) (takeWhile (\<lambda>i. i = 0) bs) @ [alphabetIdx0]"
    using SetBytes_zeros [of 1 bs] by (simp add: base58_Encode_def replicate_append_same map_replicate_const)
  then show ?thesis by (metis alphabetIdx0_def append_assoc hd_rev last_snoc rev_rev_ident)
qed

lemma SetBytes_range:
  "SetBytes (v # bs) = unat v * 256 ^ length bs + SetBytes bs" "SetBytes bs < 256 ^ length bs"
proof -
  show "SetBytes (v # bs) = unat v * 256 ^ length bs + SetBytes bs" by (simp add: SetBytes_value le_value_append)
  have "\<forall>d\<in>set (map unat (rev bs)). d < 256" by (auto intro: unat_byte)
  from byte_radix.value_bound [OF this] show "SetBytes bs < 256 ^ length bs" by (simp add: SetBytes_value)
qed

lemma Encode_first:
  assumes "v \<noteq> 0" and "0 < d" and "d < 58"
    and "d * 58 ^ k \<le> SetBytes (v # bs)" and "SetBytes (v # bs) < (d + 1) * 58 ^ k"
  shows "hd (base58_Encode (v # bs)) = alphabet ! d"
proof -
  obtain ds where "le_digits 58 (SetBytes (v # bs)) = ds @ [d]"
    using b58_radix.leading_digit [OF assms(2-5)] by blast
  then show ?thesis using Encode_text [of "v # bs" 0 "v # bs"] assms(1) by simp
qed

text \<open>The first character of 25 bytes tells the version byte, as the comments of \<^verbatim>\<open>chaincfg\<close> say.\<close>

lemma version_digit:
  assumes "length bs = 24" and "v \<noteq> 0" and "0 < d" and "d < 58"
    and "d * 58 ^ k \<le> unat v * 256 ^ 24" and "(unat v + 1) * 256 ^ 24 \<le> (d + 1) * 58 ^ k"
  shows "hd (base58_Encode (v # bs)) = alphabet ! d"
proof (rule Encode_first [OF assms(2-4)])
  have r: "SetBytes (v # bs) = unat v * 256 ^ 24 + SetBytes bs" "SetBytes bs < 256 ^ 24"
    using SetBytes_range(1) [of v bs] SetBytes_range(2) [of bs] unfolding assms(1) .
  show "d * 58 ^ k \<le> SetBytes (v # bs)" unfolding r(1) by (rule order_trans [OF assms(5)]) simp
  have "SetBytes (v # bs) < (unat v + 1) * 256 ^ 24" unfolding r(1) using r(2) by (simp only: add_mult_distrib mult_1)
  then show "SetBytes (v # bs) < (d + 1) * 58 ^ k" using assms(6) by (rule less_le_trans)
qed

lemma version_character:
  assumes "length bs = 24"
  shows "hd (base58_Encode (0x00 # bs)) = CHR ''1''" "hd (base58_Encode (0x05 # bs)) = CHR ''3''"
    "hd (base58_Encode (0x6f # bs)) \<in> {CHR ''m'', CHR ''n''}" "hd (base58_Encode (0xc4 # bs)) = CHR ''2''"
proof -
  have a: "alphabet ! 1 = CHR ''2''" "alphabet ! 2 = CHR ''3''" "alphabet ! 44 = CHR ''m''" "alphabet ! 45 = CHR ''n''"
    by (simp_all add: alphabet_def)
  show "hd (base58_Encode (0x00 # bs)) = CHR ''1''" by (rule Encode_first_zero)
  show "hd (base58_Encode (0x05 # bs)) = CHR ''3''" unfolding a [symmetric] by (rule version_digit [OF assms, of _ _ 33]) simp_all
  show "hd (base58_Encode (0xc4 # bs)) = CHR ''2''" unfolding a [symmetric] by (rule version_digit [OF assms, of _ _ 34]) simp_all
  show "hd (base58_Encode (0x6f # bs)) \<in> {CHR ''m'', CHR ''n''}"
  proof (cases "SetBytes (0x6f # bs) < 45 * 58 ^ 33")
    case True
    have "44 * 58 ^ 33 \<le> unat (0x6f :: u8) * 256 ^ length bs" unfolding assms by simp
    then have "44 * 58 ^ 33 \<le> SetBytes (0x6f # bs)" unfolding SetBytes_range(1) by (rule order_trans) simp
    then have "hd (base58_Encode (0x6f # bs)) = alphabet ! 44" by (intro Encode_first [of _ _ 33]) (use True in simp_all)
    then show ?thesis by (simp add: a)
  next
    case False
    have "(unat (0x6f :: u8) + 1) * 256 ^ length bs \<le> 46 * 58 ^ 33" unfolding assms by simp
    then have "SetBytes (0x6f # bs) < 46 * 58 ^ 33"
      using SetBytes_range(2) [of bs] unfolding SetBytes_range(1) by (simp only: add_mult_distrib mult_1)
    then have "hd (base58_Encode (0x6f # bs)) = alphabet ! 45"
      by (intro Encode_first [of _ _ 33]) (use False in simp_all)
    then show ?thesis by (simp add: a)
  qed
qed

lemma digits_length: "n < 58 ^ k \<Longrightarrow> length (le_digits 58 n) \<le> k"
proof (induction k arbitrary: n)
  case 0
  then show ?case by (simp add: b58_radix.digits_simps)
next
  case (Suc k)
  show ?case
  proof (cases "n = 0")
    case False
    have "n div 58 < 58 ^ k" using Suc.prems by (simp add: div_less_iff_less_mult mult.commute)
    then show ?thesis using Suc.IH [of "n div 58"] False by (simp add: b58_radix.digits_simps)
  qed (simp add: b58_radix.digits_simps)
qed

text \<open>The text of 25 bytes is shorter than that of a public key in hexadecimal.\<close>

lemma Encode_length:
  assumes "length bs = 25"
  shows "length (base58_Encode bs) \<le> 60"
proof -
  have "SetBytes bs < 256 ^ 25" using SetBytes_range(2) [of bs] unfolding assms .
  also have "(256 :: nat) ^ 25 \<le> 58 ^ 35" by simp
  finally have "length (Encode_loop (SetBytes bs)) \<le> 35" using digits_length by (simp add: Encode_loop_digits)
  moreover have "length (takeWhile (\<lambda>i. i = 0) bs) \<le> 25" using length_takeWhile_le [of _ bs] assms by simp
  ultimately show ?thesis by (simp add: base58_Encode_def)
qed

end
