(* ===== verification/Bech32.thy ===== *)
theory Bech32
  imports Utils
begin

text \<open>
  The vendored \<^verbatim>\<open>btcutil/bech32\<close>, which \<^verbatim>\<open>DecodeAddress\<close> uses for text that begins with the prefix of a
  segregated witness address: regrouping of bits, the checksum and the text.  An \<^verbatim>\<open>int\<close> is a word of 64
  bits.
\<close>

unbundle bit_operations_syntax

section \<open>The checksum\<close>

definition charset :: string where
  "charset = ''qpzry9x8gf2tvdw0s3jn54khce6mua7l''"

definition gen :: "u64 list" where
  "gen = [0x3b6a57b2, 0x26508e6d, 0x1ea119fa, 0x3d4233dd, 0x2a1462b3]"

definition polymod_step :: "u64 \<Rightarrow> u64 \<Rightarrow> u64" where
  "polymod_step v chk =
     (let b = drop_bit 25 chk; chk = push_bit 5 (chk AND 0x1ffffff) XOR v
      in fold (\<lambda>i chk. if drop_bit i b AND 1 = 1 then chk XOR gen ! i else chk) [0..<5] chk)"

definition bech32Polymod :: "u64 list \<Rightarrow> u64" where
  "bech32Polymod values = fold polymod_step values 1"

definition bech32HrpExpand :: "string \<Rightarrow> u64 list" where
  "bech32HrpExpand hrp =
     map (\<lambda>c. ucast (drop_bit 5 (of_char c :: u8))) hrp @ [0] @ map (\<lambda>c. ucast ((of_char c :: u8) AND 31)) hrp"

definition bech32Checksum :: "string \<Rightarrow> u8 list \<Rightarrow> u8 list" where
  "bech32Checksum hrp data =
     (let integers = map ucast data;
          values = bech32HrpExpand hrp @ integers;
          values = values @ [0, 0, 0, 0, 0, 0];
          polymod = bech32Polymod values XOR 1
      in map (\<lambda>i. ucast (drop_bit (5 * (5 - i)) polymod AND 31)) [0..<6])"

definition bech32VerifyChecksum :: "string \<Rightarrow> u8 list \<Rightarrow> bool" where
  "bech32VerifyChecksum hrp data \<longleftrightarrow>
     (let integers = map ucast data; concat = bech32HrpExpand hrp @ integers in bech32Polymod concat = 1)"

section \<open>The text\<close>

definition toBytes :: "string \<Rightarrow> u8 list fallible" where
  "toBytes chars = smap (\<lambda>c. case index_of c charset of
       None \<Rightarrow> Inl (Errorf ''invalid character not part of charset: %v'' [Num (of_char c)])
     | Some index \<Rightarrow> Inr (of_nat index)) chars"

definition toChars :: "u8 list \<Rightarrow> string fallible" where
  "toChars data = smap (\<lambda>b.
       if unat b \<ge> length charset then Inl (Errorf ''invalid data byte: %v'' [Num (uint b)])
       else Inr (charset ! unat b)) data"

text \<open>\<^verbatim>\<open>strings.ToLower\<close> and \<^verbatim>\<open>strings.ToUpper\<close> of text in ASCII.\<close>

definition to_lower :: "string \<Rightarrow> string" where
  "to_lower = map (\<lambda>c. if CHR ''A'' \<le> c \<and> c \<le> CHR ''Z'' then char_of (of_char c + 32 :: nat) else c)"

definition to_upper :: "string \<Rightarrow> string" where
  "to_upper = map (\<lambda>c. if CHR ''a'' \<le> c \<and> c \<le> CHR ''z'' then char_of (of_char c - 32 :: nat) else c)"

definition bech32_Encode :: "string \<Rightarrow> u8 list \<Rightarrow> string fallible" where
  "bech32_Encode hrp data =
     (let checksum = bech32Checksum hrp data; combined = data @ checksum in
      case toChars combined of
        Inl err \<Rightarrow> Inl (Wrapf err ''unable to convert data bytes to chars: %v'' [])
      | Inr dataChars \<Rightarrow> Inr (hrp @ ''1'' @ dataChars))"

definition checksum_failed :: "string \<Rightarrow> string \<Rightarrow> u8 list \<Rightarrow> go_error" where
  "checksum_failed bech hrp decoded =
     (let checksum = drop (length bech - 6) bech in
      case toChars (bech32Checksum hrp (take (length decoded - 6) decoded)) of
        Inr expected \<Rightarrow> Errorf ''checksum failed. Expected %v, got %v.'' [Str expected, Str checksum]
      | Inl _ \<Rightarrow> Errorf ''checksum failed. '' [])"

definition bech32_Decode :: "string \<Rightarrow> (string \<times> u8 list) fallible" where
  "bech32_Decode bech =
     (if length bech < 8 \<or> length bech > 90 then
        Inl (Errorf ''invalid bech32 string length %d'' [Num (int (length bech))])
      else case filter (\<lambda>c. (of_char c :: nat) < 33 \<or> (of_char c :: nat) > 126) bech of
        c # _ \<Rightarrow> Inl (Errorf ''invalid character in string: '%c' '' [Str [c]])
      | [] \<Rightarrow>
          (let lower = to_lower bech; upper = to_upper bech in
           if bech \<noteq> lower \<and> bech \<noteq> upper then
             Inl (Errorf ''string not all lowercase or all uppercase'' [])
           else
             (let bech = lower in
              case last_index_of (CHR ''1'') bech of
                None \<Rightarrow> Inl (Errorf ''invalid index of 1'' [])
              | Some one \<Rightarrow>
                  if one < 1 \<or> one + 7 > length bech then Inl (Errorf ''invalid index of 1'' [])
                  else
                    (let hrp = take one bech; data = drop (one + 1) bech in
                     case toBytes data of
                       Inl err \<Rightarrow> Inl (Wrapf err ''failed converting data to bytes: %v'' [])
                     | Inr decoded \<Rightarrow>
                         if \<not> bech32VerifyChecksum hrp decoded then Inl (checksum_failed bech hrp decoded)
                         else Inr (hrp, take (length decoded - 6) decoded)))))"

section \<open>Regrouping bits\<close>

text \<open>
  The inner loop over the bits of one byte: \<open>rem\<close> are left of the byte, \<open>filled\<close> are in the next one.
  The test of \<open>toExtract\<close> only makes the recursion total: \<open>filled\<close> stays below \<open>toBits\<close>.
\<close>

function extract_bits :: "nat \<Rightarrow> u8 \<Rightarrow> nat \<Rightarrow> u8 list \<times> u8 \<times> nat \<Rightarrow> u8 list \<times> u8 \<times> nat" where
  "extract_bits toBits b remFromBits (regrouped, nextByte, filledBits) =
     (let remToBits = toBits - filledBits; toExtract = min remFromBits remToBits in
      if remFromBits = 0 \<or> toExtract = 0 then (regrouped, nextByte, filledBits)
      else
        (let nextByte = push_bit toExtract nextByte OR drop_bit (8 - toExtract) b;
             b = push_bit toExtract b;
             filledBits = filledBits + toExtract
         in extract_bits toBits b (remFromBits - toExtract)
              (if filledBits = toBits then (regrouped @ [nextByte], 0, 0) else (regrouped, nextByte, filledBits))))"
  by pat_completeness auto

termination
  by (relation "measure (\<lambda>(toBits, b, remFromBits, s). remFromBits)") auto

definition ConvertBits :: "u8 list \<Rightarrow> nat \<Rightarrow> nat \<Rightarrow> bool \<Rightarrow> u8 list fallible" where
  "ConvertBits data fromBits toBits pad =
     (if fromBits < 1 \<or> fromBits > 8 \<or> toBits < 1 \<or> toBits > 8 then
        Inl (Errorf ''only bit groups between 1 and 8 allowed'' [])
      else
        (let (regrouped, nextByte, filledBits) =
               fold (\<lambda>b. extract_bits toBits (push_bit (8 - fromBits) b) fromBits) data ([], 0, 0);
             (regrouped, nextByte, filledBits) =
               (if pad \<and> filledBits > 0
                then (regrouped @ [push_bit (toBits - filledBits) nextByte], 0, 0)
                else (regrouped, nextByte, filledBits))
         in if filledBits > 0 \<and> (filledBits > 4 \<or> nextByte \<noteq> 0)
            then Inl (Errorf ''invalid incomplete group'' []) else Inr regrouped))"

declare extract_bits.simps [simp del]

section \<open>The checksum is linear\<close>

definition gen_term :: "u64 \<Rightarrow> nat \<Rightarrow> u64" where
  "gen_term chk i = (if bit chk (25 + i) then gen ! i else 0)"

lemma polymod_step_eq:
  "polymod_step v chk = push_bit 5 (take_bit 25 chk) XOR v XOR gen_term chk 0 XOR gen_term chk 1
     XOR gen_term chk 2 XOR gen_term chk 3 XOR gen_term chk 4"
proof -
  have m: "(0x1ffffff :: u64) = mask 25" by (simp add: mask_eq_exp_minus_1)
  have b: "drop_bit i (drop_bit 25 chk) AND 1 = 1 \<longleftrightarrow> bit chk (25 + i)" for i
    by (simp add: and_one_eq bit_iff_odd_drop_bit odd_iff_mod_2_eq_one add.commute)
  have five: "[0..<5] = [0, 1, 2, 3, 4 :: nat]" by (simp add: upt_rec)
  have step: "(if bit chk (25 + i) then c XOR gen ! i else c) = c XOR gen_term chk i" for c i
    by (simp add: gen_term_def)
  show ?thesis
    unfolding polymod_step_def Let_def b m five
    by (simp only: step fold_simps id_apply comp_apply take_bit_eq_mask xor.assoc)
qed

lemma and_31: "x AND 31 = take_bit 5 (x :: u64)"
  by (simp add: take_bit_eq_mask mask_eq_exp_minus_1)

lemma gen_term_xor: "gen_term (c XOR d) i = gen_term c i XOR gen_term d i"
  by (simp add: gen_term_def bit_xor_iff)

text \<open>A step is a linear map of the remainder, to which the symbol is added.\<close>

definition linear :: "(u64 \<Rightarrow> u64) \<Rightarrow> bool" where
  "linear f \<longleftrightarrow> (\<forall>c d. f (c XOR d) = f c XOR f d)"

lemma xor_swap: "(a XOR b) XOR (c XOR d) = (a XOR c) XOR (b XOR d :: u64)"
  by (simp only: xor.assoc xor.left_commute [of b c d])

lemma linear_xor: "linear f \<Longrightarrow> linear g \<Longrightarrow> linear (\<lambda>c. f c XOR g c)"
  unfolding linear_def by (simp only: xor_swap) simp

lemma linear_shift: "linear (\<lambda>c. push_bit 5 (take_bit 25 c))"
  by (simp add: linear_def take_bit_xor push_bit_xor)

lemma linear_gen_term: "linear (\<lambda>c. gen_term c i)"
  by (simp add: linear_def gen_term_xor)

definition remainder :: "u64 \<Rightarrow> u64" where
  "remainder c = push_bit 5 (take_bit 25 c) XOR (gen_term c 0 XOR (gen_term c 1 XOR (gen_term c 2 XOR
     (gen_term c 3 XOR gen_term c 4))))"

lemma linear_remainder: "linear remainder"
  unfolding remainder_def by (intro linear_xor linear_shift linear_gen_term)

lemma polymod_step_remainder: "polymod_step v c = v XOR remainder c"
  unfolding polymod_step_eq remainder_def xor.assoc by (rule xor.left_commute)

lemma polymod_step_xor: "polymod_step (v XOR w) (c XOR d) = polymod_step v c XOR polymod_step w d"
  using linear_remainder unfolding linear_def polymod_step_remainder by (simp only: xor_swap)

lemma polymod_xor:
  "length vs = length ws \<Longrightarrow>
    fold polymod_step (map2 (XOR) vs ws) (c XOR d) = fold polymod_step vs c XOR fold polymod_step ws d"
  by (induction vs ws arbitrary: c d rule: list_induct2) (simp_all add: polymod_step_xor)

lemma length_gen: "length gen = 5"
  by (simp add: gen_def)

lemma gen_small: "i < 5 \<Longrightarrow> take_bit 30 (gen ! i) = gen ! i"
proof -
  assume "i < 5"
  moreover have "\<forall>g\<in>set gen. take_bit 30 g = g" by (simp add: gen_def)
  ultimately show ?thesis by (simp add: length_gen)
qed

lemma polymod_step_small:
  assumes "take_bit 30 v = v"
  shows "take_bit 30 (polymod_step v chk) = polymod_step v chk"
proof -
  have "take_bit 30 (push_bit 5 (take_bit 25 chk)) = push_bit 5 (take_bit 25 chk)"
    by (rule bit_word_eqI) (auto simp: bit_simps)
  moreover have "take_bit 30 (gen_term chk i) = gen_term chk i" if "i < 5" for i
    using gen_small [OF that] by (simp add: gen_term_def)
  ultimately show ?thesis using assms by (simp add: polymod_step_eq take_bit_xor)
qed

text \<open>Appending a symbol to a short remainder only shifts it.\<close>

lemma polymod_step_append:
  assumes "take_bit 30 x = x"
  shows "polymod_step (x AND 31) (drop_bit 5 x) = x"
proof -
  have m: "(31 :: u64) = mask 5" by (simp add: mask_eq_exp_minus_1)
  have "\<not> bit x (25 + i + 5)" for i
    using arg_cong [OF assms, of "\<lambda>w. bit w (25 + i + 5)"] by (simp add: bit_simps)
  then have "gen_term (drop_bit 5 x) i = 0" for i by (simp add: gen_term_def bit_drop_bit_eq add.commute)
  moreover have "push_bit 5 (take_bit 25 (drop_bit 5 x)) XOR (x AND 31) = x"
  proof (rule bit_word_eqI)
    fix n
    have "bit x n \<Longrightarrow> n < 30" using arg_cong [OF assms, of "\<lambda>w. bit w n"] by (simp add: bit_simps)
    then show "bit (push_bit 5 (take_bit 25 (drop_bit 5 x)) XOR (x AND 31)) n = bit x n"
      unfolding m by (auto simp: bit_simps)
  qed
  ultimately show ?thesis by (simp add: polymod_step_eq)
qed

lemma polymod_symbols:
  assumes "take_bit 30 x = (x :: u64)"
  shows "fold polymod_step (map (\<lambda>i. drop_bit (5 * (5 - i)) x AND 31) [0..<6]) 0 = x"
proof -
  have t: "take_bit 30 (drop_bit n x) = drop_bit n x" for n
  proof (rule bit_word_eqI)
    fix i
    have "bit x (n + i) \<Longrightarrow> n + i < 30" using arg_cong [OF assms, of "\<lambda>w. bit w (n + i)"] by (simp add: bit_simps)
    then show "bit (take_bit 30 (drop_bit n x)) i = bit (drop_bit n x) i" by (auto simp: bit_simps)
  qed
  have s: "polymod_step (drop_bit n x AND 31) (drop_bit m x) = drop_bit n x" if "m = n + 5" for n m
    using polymod_step_append [OF t [of n]] that by (simp add: add.commute)
  have symbols: "map (\<lambda>i. drop_bit (5 * (5 - i)) x AND 31) [0..<6] =
      [drop_bit 25 x AND 31, drop_bit 20 x AND 31, drop_bit 15 x AND 31, drop_bit 10 x AND 31, drop_bit 5 x AND 31, drop_bit 0 x AND 31]"
    by (simp add: upt_rec)
  have z: "drop_bit 30 x = 0" using arg_cong [OF assms, of "drop_bit 30"] by (simp add: drop_bit_take_bit)
  have "polymod_step (drop_bit 25 x AND 31) 0 = drop_bit 25 x" unfolding z [symmetric] by (rule s) simp
  moreover have "polymod_step (drop_bit 20 x AND 31) (drop_bit 25 x) = drop_bit 20 x" by (rule s) simp
  moreover have "polymod_step (drop_bit 15 x AND 31) (drop_bit 20 x) = drop_bit 15 x" by (rule s) simp
  moreover have "polymod_step (drop_bit 10 x AND 31) (drop_bit 15 x) = drop_bit 10 x" by (rule s) simp
  moreover have "polymod_step (drop_bit 5 x AND 31) (drop_bit 10 x) = drop_bit 5 x" by (rule s) simp
  moreover have "polymod_step (drop_bit 0 x AND 31) (drop_bit 5 x) = drop_bit 0 x" by (rule s) simp
  ultimately show ?thesis unfolding symbols fold_simps by (simp only: drop_bit_0 id_apply)
qed

text \<open>The checksum that is appended verifies.\<close>

lemma length_bech32Checksum [simp]: "length (bech32Checksum hrp data) = 6"
  by (simp add: bech32Checksum_def Let_def)

lemma bech32Checksum_small: "\<forall>b\<in>set (bech32Checksum hrp data). unat b < 32"
proof -
  have "unat (ucast (x AND 31 :: u64) :: u8) < 32" for x
  proof -
    have "ucast (x AND 31) = take_bit 5 (ucast x :: u8)"
      unfolding and_31 by (rule bit_word_eqI) (auto simp: bit_simps)
    then have "unat (ucast (x AND 31 :: u64) :: u8) = take_bit 5 (unat (ucast x :: u8))" by (simp add: unsigned_take_bit_eq)
    also have "\<dots> < 2 ^ 5" by (rule take_bit_nat_less_exp)
    finally show ?thesis by simp
  qed
  then show ?thesis by (simp add: bech32Checksum_def Let_def)
qed

lemma checksum_verifies:
  assumes "\<forall>b\<in>set data. unat b < 32"
  shows "bech32VerifyChecksum hrp (data @ bech32Checksum hrp data)"
proof -
  let ?s = "fold polymod_step (bech32HrpExpand hrp @ map ucast data) 1"
  let ?zeros = "[0, 0, 0, 0, 0, 0] :: u64 list"
  let ?P = "fold polymod_step ?zeros ?s"
  let ?c = "map (\<lambda>i. drop_bit (5 * (5 - i)) (?P XOR 1) AND 31) [0..<6]"
  have "take_bit 30 ?P = ?P" using polymod_step_small [of 0] by simp
  then have small: "take_bit 30 (?P XOR 1) = ?P XOR 1" by (simp only: take_bit_xor) simp
  have down: "ucast (ucast (x AND 31 :: u64) :: u8) = x AND 31" for x
    unfolding and_31 by (rule bit_word_eqI) (auto simp: bit_simps)
  have "map ucast (bech32Checksum hrp data) = ?c"
    by (simp add: bech32Checksum_def bech32Polymod_def Let_def down comp_def del: upt_conv_Cons)
  then have "bech32Polymod (bech32HrpExpand hrp @ map ucast (data @ bech32Checksum hrp data)) = fold polymod_step ?c ?s"
    by (simp add: bech32Polymod_def)
  also have "?c = map2 (XOR) ?zeros ?c" by (simp add: upt_rec)
  also have "fold polymod_step \<dots> ?s = ?P XOR fold polymod_step ?c 0"
    using polymod_xor [of ?zeros ?c ?s 0] by (simp only: xor.right_neutral length_map) simp
  also have "fold polymod_step ?c 0 = ?P XOR 1" by (rule polymod_symbols [OF small])
  also have "?P XOR (?P XOR 1) = 1" by (simp add: xor.left_commute)
  finally show ?thesis by (simp add: bech32VerifyChecksum_def Let_def)
qed

section \<open>Regrouping keeps the number\<close>

text \<open>The number that groups of \<open>t\<close> bits spell, most significant group first.\<close>

definition number :: "nat \<Rightarrow> u8 list \<Rightarrow> nat" where
  "number t xs = foldl (\<lambda>v x. v * 2 ^ t + unat x) 0 xs"

lemma number_Nil [simp]: "number t [] = 0"
  and number_snoc [simp]: "number t (xs @ [x]) = number t xs * 2 ^ t + unat x"
  by (simp_all add: number_def)

lemma number_inj:
  assumes "\<forall>x\<in>set xs. unat x < 2 ^ t" and "\<forall>x\<in>set ys. unat x < 2 ^ t"
    and "length xs = length ys" and "number t xs = number t ys"
  shows "xs = ys"
  using assms
proof (induction xs arbitrary: ys rule: rev_induct)
  case (snoc x xs)
  then obtain zs y where ys: "ys = zs @ [y]" by (cases ys rule: rev_cases) auto
  have e: "number t xs * 2 ^ t + unat x = number t zs * 2 ^ t + unat y" and x: "unat x < 2 ^ t" and y: "unat y < 2 ^ t"
    using snoc.prems ys by simp_all
  have "number t xs = number t zs"
    using arg_cong [OF e, of "\<lambda>n. n div 2 ^ t"] x y by simp
  moreover from this have "unat x = unat y" using e by simp
  ultimately show ?case using snoc.IH [of zs] snoc.prems ys by (simp add: unsigned_word_eqI)
qed simp

text \<open>The state of the loop after \<open>n\<close> bits that spell \<open>v\<close>.\<close>

fun groups :: "nat \<Rightarrow> nat \<Rightarrow> nat \<Rightarrow> u8 list \<times> u8 \<times> nat \<Rightarrow> bool" where
  "groups t n v (regrouped, nextByte, filledBits) \<longleftrightarrow>
     filledBits < t \<and> unat nextByte < 2 ^ filledBits \<and> (\<forall>x\<in>set regrouped. unat x < 2 ^ t) \<and>
     n = t * length regrouped + filledBits \<and> v = number t regrouped * 2 ^ filledBits + unat nextByte"

lemma unat_less: "unat (w :: u8) < 2 ^ 8"
  using unsigned_less [where w = w and 'a = nat] by simp

lemma unat_down: "unat (drop_bit k (w :: u8)) = unat w div 2 ^ k"
  unfolding unsigned_drop_bit_eq unfolding drop_bit_eq_div take_bit_eq_mod using unat_less [of w] by simp

lemma unat_shift: "unat (push_bit k (w :: u8)) = unat w * 2 ^ k mod 256"
  unfolding unsigned_push_bit_eq unfolding take_bit_eq_mod push_bit_eq_mult by simp

lemma shift_in:
  fixes w x :: u8
  assumes "unat w < 2 ^ f" and "unat x < 2 ^ k" and "f + k \<le> 8"
  shows "unat (push_bit k w OR x) = unat w * 2 ^ k + unat x"
proof -
  have "w = take_bit f w" and "x = take_bit k x"
    using assms(1,2) by (simp_all add: word_unat_eq_iff unsigned_take_bit_eq take_bit_nat_eq_self)
  then have "push_bit k w AND x = 0"
    by (intro bit_word_eqI) (metis bit_and_iff bit_push_bit_iff bit_take_bit_iff bit_0_eq bot_apply linorder_not_less bot_bool_def)
  then have "push_bit k w OR x = push_bit k w + x" by (simp add: disjunctive_add_eq_or)
  moreover have less: "unat w * 2 ^ k + unat x < 2 ^ 8"
  proof -
    have "unat w * 2 ^ k + unat x < (unat w + 1) * 2 ^ k" using assms(2) by simp
    also have "\<dots> \<le> 2 ^ f * 2 ^ k" using assms(1) by (intro mult_right_mono) simp_all
    also have "\<dots> \<le> 2 ^ 8" unfolding power_add [symmetric] using assms(3) by (rule power_increasing) simp
    finally show ?thesis .
  qed
  ultimately show ?thesis
    by (simp add: unat_word_ariths(1) unat_shift del: push_bit_eq_mult)
qed

lemma shift_out:
  fixes b :: u8
  assumes "k \<le> rem" and "rem \<le> 8"
  shows "unat (drop_bit (8 - k) b) * 2 ^ (rem - k) + unat (push_bit k b) div 2 ^ (8 - (rem - k)) = unat b div 2 ^ (8 - rem)"
proof -
  let ?A = "2 ^ (8 - rem) :: nat" and ?B = "2 ^ (rem - k) :: nat" and ?K = "2 ^ k :: nat"
  have AB: "2 ^ (8 - k) = ?A * ?B" and KA: "2 ^ (8 - (rem - k)) = ?K * ?A" and "256 = ?K * (?A * ?B)"
    using assms by (simp_all flip: power_add)
  moreover have "unat (push_bit k b) = ?K * unat b mod 256"
    unfolding unat_shift by (simp only: mult.commute)
  ultimately have "unat (push_bit k b) = ?K * (unat b mod (?A * ?B))"
    by (simp only: mult_mod_right)
  then have "unat (push_bit k b) div 2 ^ (8 - (rem - k)) = unat b mod (?A * ?B) div ?A"
    by (simp add: KA)
  also have "\<dots> = unat b div ?A mod ?B" by (simp add: mod_mult2_eq)
  finally show ?thesis
    unfolding unat_down AB div_mult2_eq by (simp only: div_mult_mod_eq)
qed

lemma extract_groups:
  assumes "groups t n v s" and "t \<le> 8" and "rem \<le> 8"
  shows "groups t (n + rem) (v * 2 ^ rem + unat b div 2 ^ (8 - rem)) (extract_bits t b rem s)"
  using assms
proof (induction t b rem s arbitrary: n v rule: extract_bits.induct)
  case (1 t b rem reg nx fl)
  show ?case
  proof (cases "rem = 0")
    case True
    have "unat b div 2 ^ 8 = 0" using unat_less [of b] by simp
    then show ?thesis using 1(2) True by (simp add: extract_bits.simps)
  next
    case False
    define k where "k = min rem (t - fl)"
    let ?b = "push_bit k b"
    let ?nx = "push_bit k nx OR drop_bit (8 - k) b"
    let ?s = "if fl + k = t then (reg @ [?nx], 0, 0) else (reg, ?nx, fl + k)"
    have k: "0 < k" "k \<le> rem" "fl + k \<le> t" using False 1(2) by (auto simp: k_def)
    have small: "unat (drop_bit (8 - k) b) < 2 ^ k"
    proof -
      have "unat b < 2 ^ k * 2 ^ (8 - k)" using unat_less [of b] k(2) 1(4) by (simp flip: power_add)
      then show ?thesis unfolding unat_down by (simp add: less_mult_imp_div_less)
    qed
    have nx: "unat ?nx = unat nx * 2 ^ k + unat (drop_bit (8 - k) b)"
      using 1(2,3) k(3) small by (intro shift_in [of _ fl]) auto
    have less: "unat ?nx < 2 ^ (fl + k)"
    proof -
      have "unat nx * 2 ^ k + unat (drop_bit (8 - k) b) < (unat nx + 1) * 2 ^ k" using small by simp
      also have "\<dots> \<le> 2 ^ fl * 2 ^ k" using 1(2) by (intro mult_right_mono) simp_all
      finally show ?thesis by (simp add: nx power_add)
    qed
    have "groups t (n + k) (v * 2 ^ k + unat (drop_bit (8 - k) b)) ?s"
    proof (cases "fl + k = t")
      case True
      then show ?thesis using 1(2) k less
        by (simp add: nx) (simp add: power_add [symmetric] add_mult_distrib mult.assoc)
    next
      case False
      then show ?thesis using 1(2) k less by (simp add: nx power_add add_mult_distrib)
    qed
    moreover have x: "extract_bits t b rem (reg, nx, fl) = extract_bits t ?b (rem - k) ?s"
      using False k(1) by (subst extract_bits.simps) (simp add: Let_def flip: k_def)
    moreover have "rem - k \<le> 8" using 1(4) by simp
    ultimately have "groups t (n + k + (rem - k))
        ((v * 2 ^ k + unat (drop_bit (8 - k) b)) * 2 ^ (rem - k) + unat ?b div 2 ^ (8 - (rem - k))) (extract_bits t ?b (rem - k) ?s)"
      using 1(1) [OF refl k_def] False k(1) 1(3) by auto
    moreover have "(v * 2 ^ k + unat (drop_bit (8 - k) b)) * 2 ^ (rem - k) + unat ?b div 2 ^ (8 - (rem - k))
        = v * 2 ^ rem + unat b div 2 ^ (8 - rem)"
    proof -
      have "(2 :: nat) ^ rem = 2 ^ k * 2 ^ (rem - k)" using k(2) by (simp flip: power_add)
      then show ?thesis using shift_out [OF k(2) 1(4), of b] by (simp only: add_mult_distrib mult.assoc add.assoc)
    qed
    ultimately show ?thesis using k(2) by (simp add: x)
  qed
qed

lemma fold_groups:
  assumes "groups t n v s" and "t \<le> 8" and "f \<le> 8" and "\<forall>b\<in>set data. unat b < 2 ^ f"
  shows "groups t (n + f * length data) (v * 2 ^ (f * length data) + number f data)
           (fold (\<lambda>b. extract_bits t (push_bit (8 - f) b) f) data s)"
  using assms(4)
proof (induction data rule: rev_induct)
  case Nil
  then show ?case using assms(1) by simp
next
  case (snoc b data)
  have "unat b * 2 ^ (8 - f) < 2 ^ f * 2 ^ (8 - f)" using snoc.prems by simp
  then have "unat (push_bit (8 - f) b) = unat b * 2 ^ (8 - f)"
    using assms(3) unfolding unat_shift by (simp flip: power_add)
  then have "unat (push_bit (8 - f) b) div 2 ^ (8 - f) = unat b" by simp
  then show ?case
    using extract_groups [OF snoc.IH assms(2,3), of "push_bit (8 - f) b"] snoc.prems
    by (simp add: power_add add_mult_distrib add_mult_distrib2 mult.assoc mult.commute [of "2 ^ f"] add.commute [of f] add.assoc)
qed

text \<open>The groups that come out are determined by the number and the count of its bits.\<close>

lemma groups_unique:
  assumes "groups t n v (regrouped, nextByte, filledBits)"
  shows "length regrouped = n div t" and "filledBits = n mod t" and "unat nextByte = v mod 2 ^ filledBits"
    and "number t regrouped = v div 2 ^ filledBits"
  using assms by auto

lemma ConvertBits_8_5:
  "\<exists>groups5 pad. ConvertBits data 8 5 True = Inr groups5 \<and> pad < 5 \<and> 5 * length groups5 = 8 * length data + pad \<and>
     number 5 groups5 = number 8 data * 2 ^ pad \<and> (\<forall>x\<in>set groups5. unat x < 32)"
proof -
  obtain reg nx fl where loop: "fold (\<lambda>b. extract_bits 5 (push_bit (8 - 8) b) 8) data ([], 0, 0) = (reg, nx, fl)"
    by (cases "fold (\<lambda>b. extract_bits 5 (push_bit (8 - 8) b) 8) data ([], 0, 0)") auto
  have g: "groups 5 (8 * length data) (number 8 data) (reg, nx, fl)"
    using fold_groups [of 5 0 0 "([], 0, 0)" 8 data] loop unat_less by simp
  show ?thesis
  proof (cases "fl = 0")
    case True
    then have "ConvertBits data 8 5 True = Inr reg" using loop by (simp add: ConvertBits_def)
    then show ?thesis using g True by (intro exI [of _ reg] exI [of _ 0]) auto
  next
    case False
    let ?last = "push_bit (5 - fl) nx"
    have fl: "fl < 5" "unat nx < 2 ^ fl" using g by simp_all
    have "unat nx * 2 ^ (5 - fl) < 2 ^ fl * 2 ^ (5 - fl)" using fl(2) by simp
    then have less: "unat nx * 2 ^ (5 - fl) < 32" using fl(1) by (simp flip: power_add)
    then have last: "unat ?last = unat nx * 2 ^ (5 - fl)" unfolding unat_shift by simp
    have "ConvertBits data 8 5 True = Inr (reg @ [?last])" using loop False by (simp add: ConvertBits_def)
    moreover have "number 5 (reg @ [?last]) = number 8 data * 2 ^ (5 - fl)"
    proof -
      have "number 8 data = number 5 reg * 2 ^ fl + unat nx" using g by simp
      moreover have "(32 :: nat) = 2 ^ fl * 2 ^ (5 - fl)" using fl(1) by (simp flip: power_add)
      ultimately show ?thesis unfolding number_snoc last by (simp add: add_mult_distrib)
    qed
    ultimately show ?thesis using g False fl(1) less last by (intro exI [of _ "reg @ [?last]"] exI [of _ "5 - fl"]) auto
  qed
qed

lemma ConvertBits_5_8:
  assumes "pad < 5" and "5 * length groups5 = 8 * length data + pad" and "number 5 groups5 = number 8 data * 2 ^ pad"
    and "\<forall>x\<in>set groups5. unat x < 32"
  shows "ConvertBits groups5 5 8 False = Inr data"
proof -
  let ?loop = "fold (\<lambda>b. extract_bits 8 (push_bit (8 - 5) b) 5) groups5 ([], 0, 0)"
  obtain reg nx fl where loop: "?loop = (reg, nx, fl)" by (cases ?loop) auto
  have g: "groups 8 (8 * length data + pad) (number 8 data * 2 ^ pad) (reg, nx, fl)"
    using fold_groups [of 8 0 0 "([], 0, 0)" 5 groups5] loop assms by simp
  note u = groups_unique [OF g]
  have fl: "fl = pad" using u(2) assms(1) by simp
  have "unat nx = 0" using u(3) by (simp add: fl)
  then have "nx = 0" by (simp add: word_unat_eq_iff)
  moreover have "reg = data"
    using u(1,4) g assms(1) unat_less by (intro number_inj [of _ 8]) (auto simp: fl)
  ultimately show ?thesis using loop assms(1) by (simp add: ConvertBits_def fl)
qed

theorem ConvertBits_roundtrip:
  "\<exists>groups5. ConvertBits data 8 5 True = Inr groups5 \<and> ConvertBits groups5 5 8 False = Inr data \<and>
     (\<forall>x\<in>set groups5. unat x < 32) \<and> 5 * length groups5 < 8 * length data + 5"
  using ConvertBits_8_5 [of data] ConvertBits_5_8 [of _ _ data] by (metis add_strict_left_mono)

section \<open>The text and back\<close>

lemma charset_facts:
  "length charset = 32" "CHR ''1'' \<notin> set charset" "to_lower charset = charset"
  "\<forall>i\<in>set [0..<32]. index_of (charset ! i) charset = Some i"
  "\<forall>c\<in>set charset. 33 \<le> (of_char c :: nat) \<and> (of_char c :: nat) \<le> 126"
  by code_simp+

lemma toChars_small:
  assumes "\<forall>b\<in>set data. unat b < 32"
  shows "toChars data = Inr (map (\<lambda>b. charset ! unat b) data)"
  using assms unfolding toChars_def by (intro smap_Inr_map) (auto simp: charset_facts(1))

lemma toBytes_toChars:
  assumes "\<forall>b\<in>set data. unat b < 32"
  shows "toBytes (map (\<lambda>b. charset ! unat b) data) = Inr data"
  unfolding toBytes_def smap_Inr_iff list_all2_map1
  using assms charset_facts(4) by (intro list.rel_refl_strong) (auto simp: set_upt)

text \<open>A human-readable part that is kept as it is: not empty, printable and without capitals.\<close>

definition readable :: "string \<Rightarrow> bool" where
  "readable hrp \<longleftrightarrow> hrp \<noteq> [] \<and> to_lower hrp = hrp \<and>
     (\<forall>c\<in>set hrp. 33 \<le> (of_char c :: nat) \<and> (of_char c :: nat) \<le> 126)"

lemma to_lower_append [simp]: "to_lower (s @ t) = to_lower s @ to_lower t"
  by (simp add: to_lower_def)

lemma to_lower_charset: "set s \<subseteq> set charset \<Longrightarrow> to_lower s = s"
proof (induction s)
  case (Cons c s)
  moreover have "\<forall>c\<in>set charset. to_lower [c] = [c]" by code_simp
  ultimately have "to_lower [c] = [c]" "to_lower s = s" by auto
  then show ?case using to_lower_append [of "[c]" s] by simp
qed (simp add: to_lower_def)

lemma Decode_Encode_bech32:
  assumes hrp: "readable hrp" and data: "\<forall>b\<in>set data. unat b < 32" and len: "length hrp + length data \<le> 83"
  shows "\<exists>chars. bech32_Encode hrp data = Inr (hrp @ ''1'' @ chars) \<and> set chars \<subseteq> set charset \<and>
    bech32_Decode (hrp @ ''1'' @ chars) = Inr (hrp, data)"
proof -
  let ?combined = "data @ bech32Checksum hrp data"
  let ?chars = "map (\<lambda>b. charset ! unat b) ?combined"
  let ?bech = "hrp @ ''1'' @ ?chars"
  have small: "\<forall>b\<in>set ?combined. unat b < 32" using data bech32Checksum_small by auto
  have chars: "set ?chars \<subseteq> set charset" using small by (auto simp: charset_facts(1) intro!: nth_mem)
  have "to_lower ?chars = ?chars" by (rule to_lower_charset [OF chars])
  then have lower: "to_lower ?bech = ?bech"
    using hrp by (simp add: readable_def) (simp add: to_lower_def)
  have printable: "filter (\<lambda>c. (of_char c :: nat) < 33 \<or> (of_char c :: nat) > 126) ?bech = []"
    using hrp chars charset_facts(5) unfolding readable_def by (fastforce simp: filter_empty_conv)
  have sep: "last_index_of (CHR ''1'') ?bech = Some (length hrp)"
    using last_index_of_append_notin [of "CHR ''1''" ?chars hrp] chars charset_facts(2) by auto
  have hl: "length hrp \<ge> 1" using hrp by (simp add: readable_def Suc_le_eq)
  have l: "length ?bech = length hrp + 7 + length data" by simp
  have "bech32_Decode ?bech = Inr (hrp, data)"
    unfolding bech32_Decode_def Let_def printable lower sep
    using l len hrp hl toBytes_toChars [OF small] checksum_verifies [OF data, of hrp]
    by (simp add: readable_def)
  moreover have "bech32_Encode hrp data = Inr ?bech"
    by (simp add: bech32_Encode_def Let_def toChars_small [OF small])
  ultimately show ?thesis using chars by blast
qed

end
