(* ===== verification/Addresses.thy ===== *)
theory Addresses
  imports Deriver Base58 Bech32
begin

text \<open>
  The vendored \<^verbatim>\<open>btcutil/address.go\<close>: the text of an address and back, over the base58 and bech32 texts.
  With it the library of the deriver is the code itself down to the hash functions and the curve: \<open>btcutil\<close>
  replaces the addresses of any library, and the laws the deriver relies on hold.
\<close>

section \<open>Encoding\<close>

definition Hash160 :: "(u8 list \<Rightarrow> u8 list) \<Rightarrow> (u8 list \<Rightarrow> u8 list) \<Rightarrow> u8 list \<Rightarrow> u8 list" where
  "Hash160 sha256 ripemd160 buf = ripemd160 (sha256 buf)"

definition encodeAddress :: "(u8 list \<Rightarrow> u8 list) \<Rightarrow> u8 list \<Rightarrow> u8 \<Rightarrow> string" where
  "encodeAddress sha256 hash160 netID = CheckEncode sha256 (take 20 hash160) netID"

definition decodeSegWitAddress :: "string \<Rightarrow> (u8 \<times> u8 list) fallible" where
  "decodeSegWitAddress address =
     sbind (bech32_Decode address) (\<lambda>(_, data).
       if length data < 1 then Inl (Errorf ''no witness version'' [])
       else
         (let version = data ! 0 in
          if version > 16 then Inl (Errorf ''invalid witness version: %v'' [Num (uint version)])
          else
            sbind (ConvertBits (drop 1 data) 5 8 False) (\<lambda>regrouped.
              if length regrouped < 2 \<or> length regrouped > 40 then Inl (Errorf ''invalid data length'' [])
              else if version = 0 \<and> length regrouped \<noteq> 20 \<and> length regrouped \<noteq> 32 then
                Inl (Errorf ''invalid data length for witness version 0: %v'' [Num (int (length regrouped))])
              else Inr (version, regrouped))))"

definition encodeSegWitAddress :: "string \<Rightarrow> u8 \<Rightarrow> u8 list \<Rightarrow> string fallible" where
  "encodeSegWitAddress hrp witnessVersion witnessProgram =
     sbind (ConvertBits witnessProgram 8 5 True) (\<lambda>converted.
     sbind (bech32_Encode hrp (witnessVersion # converted)) (\<lambda>bech.
       case decodeSegWitAddress bech of
         Inl err \<Rightarrow> Inl (Wrapf err ''invalid segwit address: %v'' [])
       | Inr (version, program) \<Rightarrow>
           if version \<noteq> witnessVersion \<or> program \<noteq> witnessProgram
           then Inl (Errorf ''invalid segwit address'' []) else Inr bech))"

fun btc_EncodeAddress :: "(u8 list \<Rightarrow> u8 list) \<Rightarrow> (u8 list \<Rightarrow> u8 list) \<Rightarrow> btc_address \<Rightarrow> string" where
  "btc_EncodeAddress sha256 ripemd160 (AddressPubKeyHash hash netID) = encodeAddress sha256 hash netID"
| "btc_EncodeAddress sha256 ripemd160 (AddressScriptHash hash netID) = encodeAddress sha256 hash netID"
| "btc_EncodeAddress sha256 ripemd160 (AddressPubKey pk netID) = encodeAddress sha256 (Hash160 sha256 ripemd160 pk) netID"
| "btc_EncodeAddress sha256 ripemd160 (AddressWitnessPubKeyHash hrp prog) =
     (case encodeSegWitAddress hrp 0 prog of Inl _ \<Rightarrow> '''' | Inr str \<Rightarrow> str)"
| "btc_EncodeAddress sha256 ripemd160 (AddressWitnessScriptHash hrp prog) =
     (case encodeSegWitAddress hrp 0 prog of Inl _ \<Rightarrow> '''' | Inr str \<Rightarrow> str)"

section \<open>Constructors\<close>

fun Bech32HRPSegwit :: "chain_params \<Rightarrow> string" where
  "Bech32HRPSegwit MainNetParams = ''bc''"
| "Bech32HRPSegwit TestNet3Params = ''tb''"

definition newAddressPubKeyHash :: "u8 list \<Rightarrow> u8 \<Rightarrow> btc_address fallible" where
  "newAddressPubKeyHash pkHash netID =
     (if length pkHash \<noteq> 20 then Inl (Errorf ''pkHash must be 20 bytes'' []) else Inr (AddressPubKeyHash pkHash netID))"

definition newAddressScriptHashFromHash :: "u8 list \<Rightarrow> u8 \<Rightarrow> btc_address fallible" where
  "newAddressScriptHashFromHash scriptHash netID =
     (if length scriptHash \<noteq> 20 then Inl (Errorf ''scriptHash must be 20 bytes'' [])
      else Inr (AddressScriptHash scriptHash netID))"

definition newAddressWitnessPubKeyHash :: "string \<Rightarrow> u8 list \<Rightarrow> btc_address fallible" where
  "newAddressWitnessPubKeyHash hrp witnessProg =
     (if length witnessProg \<noteq> 20 then Inl (Errorf ''witness program must be 20 bytes for p2wpkh'' [])
      else Inr (AddressWitnessPubKeyHash (to_lower hrp) witnessProg))"

definition newAddressWitnessScriptHash :: "string \<Rightarrow> u8 list \<Rightarrow> btc_address fallible" where
  "newAddressWitnessScriptHash hrp witnessProg =
     (if length witnessProg \<noteq> 32 then Inl (Errorf ''witness program must be 32 bytes for p2wsh'' [])
      else Inr (AddressWitnessScriptHash (to_lower hrp) witnessProg))"

definition btc_NewAddressScriptHash ::
    "(u8 list \<Rightarrow> u8 list) \<Rightarrow> (u8 list \<Rightarrow> u8 list) \<Rightarrow> u8 list \<Rightarrow> chain_params \<Rightarrow> btc_address fallible" where
  "btc_NewAddressScriptHash sha256 ripemd160 serializedScript net =
     newAddressScriptHashFromHash (Hash160 sha256 ripemd160 serializedScript) (ScriptHashAddrID net)"

section \<open>Decoding\<close>

text \<open>What the registered networks of \<^verbatim>\<open>chaincfg\<close> know: main, test, regression and simulation.\<close>

definition IsPubKeyHashAddrID :: "u8 \<Rightarrow> bool" where
  "IsPubKeyHashAddrID v \<longleftrightarrow> v \<in> {0x00, 0x6f, 0x3f}"

definition IsScriptHashAddrID :: "u8 \<Rightarrow> bool" where
  "IsScriptHashAddrID v \<longleftrightarrow> v \<in> {0x05, 0xc4, 0x7b}"

definition IsBech32SegwitPrefix :: "string \<Rightarrow> bool" where
  "IsBech32SegwitPrefix prefix \<longleftrightarrow> to_lower prefix \<in> {''bc1'', ''tb1'', ''bcrt1'', ''sb1''}"

definition decode_segwit :: "string \<Rightarrow> string \<Rightarrow> btc_address fallible" where
  "decode_segwit addr prefix =
     sbind (decodeSegWitAddress addr) (\<lambda>(witnessVer, witnessProg).
       if witnessVer \<noteq> 0 then Inl (Errorf ''unsupported witness version: '' [Num (uint witnessVer)])
       else
         (let hrp = butlast prefix in
          if length witnessProg = 20 then newAddressWitnessPubKeyHash hrp witnessProg
          else if length witnessProg = 32 then newAddressWitnessScriptHash hrp witnessProg
          else Inl (Errorf ''unsupported witness program length: '' [Num (int (length witnessProg))])))"

text \<open>\<open>new_pubkey\<close> is \<^verbatim>\<open>NewAddressPubKey\<close>, which parses a point of the curve.\<close>

definition decode_other ::
    "(u8 list \<Rightarrow> u8 list) \<Rightarrow> (u8 list \<Rightarrow> chain_params \<Rightarrow> btc_address fallible) \<Rightarrow> string \<Rightarrow> chain_params
      \<Rightarrow> btc_address fallible" where
  "decode_other sha256 new_pubkey addr defaultNet =
     (if length addr = 130 \<or> length addr = 66 then
        (case hex_decode addr of
           (serializedPubKey, True) \<Rightarrow> new_pubkey serializedPubKey defaultNet
         | (_, False) \<Rightarrow> Inl (Errorf ''encoding/hex: invalid byte'' []))
      else
        (case CheckDecode sha256 addr of
           Inl err \<Rightarrow> if err = ErrChecksum then Inl (Errorf ''checksum mismatch'' [])
             else Inl (Errorf ''decoded address is of unknown format'' [])
         | Inr (decoded, netID) \<Rightarrow>
             if length decoded = 20 then
               (let isP2PKH = IsPubKeyHashAddrID netID; isP2SH = IsScriptHashAddrID netID in
                if isP2PKH \<and> isP2SH then Inl (Errorf ''address collision'' [])
                else if isP2PKH then newAddressPubKeyHash decoded netID
                else if isP2SH then newAddressScriptHashFromHash decoded netID
                else Inl (Errorf ''unknown address type'' []))
             else Inl (Errorf ''decoded address is of unknown size'' [])))"

definition btc_DecodeAddress ::
    "(u8 list \<Rightarrow> u8 list) \<Rightarrow> (u8 list \<Rightarrow> chain_params \<Rightarrow> btc_address fallible) \<Rightarrow> string \<Rightarrow> chain_params
      \<Rightarrow> btc_address fallible" where
  "btc_DecodeAddress sha256 new_pubkey addr defaultNet =
     (case last_index_of (CHR ''1'') addr of
        Some oneIndex \<Rightarrow>
          (let prefix = take (oneIndex + 1) addr in
           if oneIndex > 1 \<and> IsBech32SegwitPrefix prefix then decode_segwit addr prefix
           else decode_other sha256 new_pubkey addr defaultNet)
      | None \<Rightarrow> decode_other sha256 new_pubkey addr defaultNet)"

section \<open>The library of the deriver\<close>

text \<open>
  \<^verbatim>\<open>hdkeychain\<close> makes the address of a key from the hash of its public key, which is \<open>key_bytes\<close>.  The other
  operations of the library are kept.
\<close>

definition key_address ::
    "(u8 list \<Rightarrow> u8 list) \<Rightarrow> (u8 list \<Rightarrow> u8 list) \<Rightarrow> ('k \<Rightarrow> u8 list) \<Rightarrow> 'k \<Rightarrow> chain_params \<Rightarrow> btc_address fallible" where
  "key_address sha256 ripemd160 key_bytes k net =
     newAddressPubKeyHash (Hash160 sha256 ripemd160 (key_bytes k)) (PubKeyHashAddrID net)"

definition btcutil ::
    "(u8 list \<Rightarrow> u8 list) \<Rightarrow> ('k \<Rightarrow> u8 list) \<Rightarrow> ('k, 'p) btc_lib \<Rightarrow> ('k, 'p) btc_lib" where
  "btcutil ripemd160 key_bytes lib = lib
     \<lparr>KeyAddress := key_address (Sum256 lib) ripemd160 key_bytes,
      NewAddressScriptHash := btc_NewAddressScriptHash (Sum256 lib) ripemd160,
      EncodeAddress := btc_EncodeAddress (Sum256 lib) ripemd160,
      DecodeAddress := btc_DecodeAddress (Sum256 lib) (NewAddressPubKey lib)\<rparr>"

section \<open>Round trip\<close>

text \<open>No text of base58 that begins with one of these characters is taken for a segregated witness address.\<close>

lemma not_segwit:
  assumes "c \<in> {CHR ''1'', CHR ''2'', CHR ''3'', CHR ''m'', CHR ''n''}"
  shows "\<not> IsBech32SegwitPrefix (c # s)"
  using assms by (auto simp: IsBech32SegwitPrefix_def to_lower_def)

lemma decode_base58:
  assumes "hd addr \<in> {CHR ''1'', CHR ''2'', CHR ''3'', CHR ''m'', CHR ''n''}" and "addr \<noteq> []"
  shows "btc_DecodeAddress sha256 new_pubkey addr net = decode_other sha256 new_pubkey addr net"
proof -
  obtain c s where "addr = c # s" using assms(2) by (cases addr) auto
  then show ?thesis
    using assms(1) not_segwit by (simp add: btc_DecodeAddress_def Let_def split: option.splits)
qed

lemma version_bytes:
  "IsPubKeyHashAddrID (PubKeyHashAddrID p) \<and> \<not> IsScriptHashAddrID (PubKeyHashAddrID p)"
  "IsScriptHashAddrID (ScriptHashAddrID p) \<and> \<not> IsPubKeyHashAddrID (ScriptHashAddrID p)"
  by (cases p; simp add: IsPubKeyHashAddrID_def IsScriptHashAddrID_def)+

text \<open>The text of a hash of 20 bytes under a version byte.\<close>

lemma encoded:
  assumes "length h = 20" and sha: "\<And>x. length (sha256 x) = 32"
  shows "\<exists>bs. encodeAddress sha256 h n = base58_Encode (n # bs) \<and> length bs = 24"
    and "length (encodeAddress sha256 h n) \<le> 60" and "CheckDecode sha256 (encodeAddress sha256 h n) = Inr (h, n)"
proof -
  have e: "encodeAddress sha256 h n = base58_Encode (n # h @ checksum sha256 (n # h))"
    using assms(1) by (simp add: encodeAddress_def CheckEncode_def Let_def)
  have l: "length (h @ checksum sha256 (n # h)) = 24" using assms by (simp add: checksum_def)
  show "\<exists>bs. encodeAddress sha256 h n = base58_Encode (n # bs) \<and> length bs = 24" using e l by blast
  show "length (encodeAddress sha256 h n) \<le> 60" unfolding e by (rule Encode_length) (use l in simp)
  show "CheckDecode sha256 (encodeAddress sha256 h n) = Inr (h, n)"
    using CheckDecode_CheckEncode [of sha256 h n] assms by (simp add: encodeAddress_def)
qed

text \<open>Its first character tells the network and the kind of the address.\<close>

lemma encoded_first:
  assumes "length h = 20" and "\<And>x. length (sha256 x) = 32"
  shows "hd (encodeAddress sha256 h (PubKeyHashAddrID MainNetParams)) = CHR ''1''"
    "hd (encodeAddress sha256 h (ScriptHashAddrID MainNetParams)) = CHR ''3''"
    "hd (encodeAddress sha256 h (PubKeyHashAddrID TestNet3Params)) \<in> {CHR ''m'', CHR ''n''}"
    "hd (encodeAddress sha256 h (ScriptHashAddrID TestNet3Params)) = CHR ''2''"
  using encoded(1) [of h sha256, OF assms] version_character
  by (metis PubKeyHashAddrID.simps(1), metis ScriptHashAddrID.simps(1), metis PubKeyHashAddrID.simps(2),
      metis ScriptHashAddrID.simps(2))

lemma encoded_not_Nil:
  assumes "length h = 20" and "\<And>x. length (sha256 x) = 32"
  shows "encodeAddress sha256 h n \<noteq> []"
proof
  assume "encodeAddress sha256 h n = []"
  moreover have "base58_Decode [] = []" by (simp add: base58_Decode_def big_Bytes_def le_digits.simps)
  ultimately show False using encoded(3) [of h sha256 n, OF assms] by (simp add: CheckDecode_def)
qed

lemma encoded_network:
  assumes "length h = 20" and "\<And>x. length (sha256 x) = 32" and "ChainConfig net = Inr p"
    and "n \<in> {PubKeyHashAddrID p, ScriptHashAddrID p}"
  shows "AddressToNetwork (encodeAddress sha256 h n) = Inr net"
    and "hd (encodeAddress sha256 h n) \<in> {CHR ''1'', CHR ''2'', CHR ''3'', CHR ''m'', CHR ''n''}"
proof -
  let ?s = "encodeAddress sha256 h n"
  have ne: "?s \<noteq> []" by (rule encoded_not_Nil [OF assms(1,2)])
  have net: "net = (case p of MainNetParams \<Rightarrow> Mainnet | TestNet3Params \<Rightarrow> Testnet)"
    using assms(3) by (auto simp: ChainConfig_def go_simps split: if_splits)
  have "AddressToNetwork ?s = Inr net \<and> hd ?s \<in> {CHR ''1'', CHR ''2'', CHR ''3'', CHR ''m'', CHR ''n''}"
    using encoded_first [of h sha256, OF assms(1,2)] assms(4) ne net
    by (cases p; cases ?s) (auto simp: AddressToNetwork_def at_index_def go_simps)
  then show "AddressToNetwork ?s = Inr net" "hd ?s \<in> {CHR ''1'', CHR ''2'', CHR ''3'', CHR ''m'', CHR ''n''}"
    by simp_all
qed

lemma decode_encode:
  assumes "length h = 20" and "\<And>x. length (sha256 x) = 32"
  shows "btc_DecodeAddress sha256 new_pubkey (encodeAddress sha256 h (PubKeyHashAddrID p)) net
      = Inr (AddressPubKeyHash h (PubKeyHashAddrID p))"
    and "btc_DecodeAddress sha256 new_pubkey (encodeAddress sha256 h (ScriptHashAddrID p)) net
      = Inr (AddressScriptHash h (ScriptHashAddrID p))"
proof -
  obtain network where chain: "ChainConfig network = Inr p"
    by (cases p) (auto simp: ChainConfig_def go_simps dest: meta_spec [of _ Mainnet] meta_spec [of _ Testnet])
  have d: "btc_DecodeAddress sha256 new_pubkey (encodeAddress sha256 h n) net
      = decode_other sha256 new_pubkey (encodeAddress sha256 h n) net"
    if "n \<in> {PubKeyHashAddrID p, ScriptHashAddrID p}" for n
    by (rule decode_base58 [OF encoded_network(2) [of h sha256, OF assms chain that] encoded_not_Nil [of h sha256, OF assms]])
  have l: "length (encodeAddress sha256 h n) \<noteq> 130" "length (encodeAddress sha256 h n) \<noteq> 66" for n
    using encoded(2) [of h sha256 n, OF assms] by auto
  note c = encoded(3) [of h sha256, OF assms]
  show "btc_DecodeAddress sha256 new_pubkey (encodeAddress sha256 h (PubKeyHashAddrID p)) net
      = Inr (AddressPubKeyHash h (PubKeyHashAddrID p))"
    "btc_DecodeAddress sha256 new_pubkey (encodeAddress sha256 h (ScriptHashAddrID p)) net
      = Inr (AddressScriptHash h (ScriptHashAddrID p))"
    using version_bytes [of p] assms(1)
    by (simp_all add: d decode_other_def l c newAddressPubKeyHash_def newAddressScriptHashFromHash_def)
qed

lemma Bech32HRPSegwit_readable: "readable (Bech32HRPSegwit p)"
  by (cases p) (simp_all add: readable_def to_lower_def)

lemma segwit_text:
  assumes "length prog \<in> {20, 32}"
  shows "\<exists>chars. encodeSegWitAddress (Bech32HRPSegwit p) 0 prog = Inr (Bech32HRPSegwit p @ ''1'' @ chars) \<and>
    set chars \<subseteq> set charset \<and> decodeSegWitAddress (Bech32HRPSegwit p @ ''1'' @ chars) = Inr (0, prog)"
proof -
  let ?hrp = "Bech32HRPSegwit p"
  obtain groups5 where c: "ConvertBits prog 8 5 True = Inr groups5" "ConvertBits groups5 5 8 False = Inr prog"
    and small: "\<forall>x\<in>set groups5. unat x < 32" and l: "5 * length groups5 < 8 * length prog + 5"
    using ConvertBits_roundtrip by blast
  have "length ?hrp + length (0 # groups5) \<le> 83" using l assms by (cases p) auto
  moreover have "\<forall>b\<in>set (0 # groups5). unat b < 32" using small by simp
  ultimately obtain chars where b: "bech32_Encode ?hrp (0 # groups5) = Inr (?hrp @ ''1'' @ chars)"
    "set chars \<subseteq> set charset" "bech32_Decode (?hrp @ ''1'' @ chars) = Inr (?hrp, 0 # groups5)"
    using Decode_Encode_bech32 [OF Bech32HRPSegwit_readable] by blast
  have "decodeSegWitAddress (?hrp @ ''1'' @ chars) = Inr (0, prog)"
    unfolding decodeSegWitAddress_def b(3) using assms by (auto simp: c(2))
  then show ?thesis using b by (auto simp: encodeSegWitAddress_def c(1))
qed

text \<open>The text of a program of version 0: the prefix of the network tells it from a text of base58.\<close>

lemma segwit_decoded:
  assumes "length prog \<in> {20, 32}" and "encodeSegWitAddress (Bech32HRPSegwit p) 0 prog = Inr s"
  shows "btc_DecodeAddress sha256 new_pubkey s net =
      Inr (if length prog = 20 then AddressWitnessPubKeyHash (Bech32HRPSegwit p) prog
           else AddressWitnessScriptHash (Bech32HRPSegwit p) prog)"
    and "AddressToNetwork s = Inl (Panic ''unknown prefix: %s'' [Str s])"
proof -
  let ?hrp = "Bech32HRPSegwit p"
  obtain chars where s: "s = ?hrp @ ''1'' @ chars" and c: "set chars \<subseteq> set charset"
    and d: "decodeSegWitAddress s = Inr (0, prog)"
    using segwit_text [OF assms(1), of p] assms(2) by auto
  have "last_index_of (CHR ''1'') s = Some (length ?hrp)"
    using last_index_of_append_notin [of "CHR ''1''" chars ?hrp] c charset_facts(2) by (auto simp: s)
  moreover have "IsBech32SegwitPrefix (?hrp @ ''1'')" "length ?hrp > 1" "to_lower ?hrp = ?hrp"
    using Bech32HRPSegwit_readable [of p] by (cases p; simp add: IsBech32SegwitPrefix_def to_lower_def readable_def)+
  moreover have "take (length ?hrp + 1) s = ?hrp @ ''1''" by (simp add: s)
  ultimately show "btc_DecodeAddress sha256 new_pubkey s net =
      Inr (if length prog = 20 then AddressWitnessPubKeyHash ?hrp prog else AddressWitnessScriptHash ?hrp prog)"
    using assms(1) d
    by (auto simp: btc_DecodeAddress_def Let_def decode_segwit_def newAddressWitnessPubKeyHash_def
        newAddressWitnessScriptHash_def)
  show "AddressToNetwork s = Inl (Panic ''unknown prefix: %s'' [Str s])"
    by (cases p) (simp_all add: s AddressToNetwork_def at_index_def)
qed

lemma btcutil_simps [simp]:
  "KeyAddress (btcutil rip kb lib) = key_address (Sum256 lib) rip kb"
  "NewAddressScriptHash (btcutil rip kb lib) = btc_NewAddressScriptHash (Sum256 lib) rip"
  "EncodeAddress (btcutil rip kb lib) = btc_EncodeAddress (Sum256 lib) rip"
  "DecodeAddress (btcutil rip kb lib) = btc_DecodeAddress (Sum256 lib) (NewAddressPubKey lib)"
  "Sum256 (btcutil rip kb lib) = Sum256 lib" "NewAddressPubKey (btcutil rip kb lib) = NewAddressPubKey lib"
  "childKey (btcutil rip kb lib) = childKey lib" "pubKeyBytes (btcutil rip kb lib) = pubKeyBytes lib"
  by (simp_all add: btcutil_def childKey_def pubKeyBytes_def fun_eq_iff)

text \<open>The laws that the deriver relies on hold for the code, for hash functions with the right lengths.\<close>

lemma btcutil_laws:
  assumes "\<And>x. length (Sum256 lib x) = 32" and "\<And>x. length (rip x) = 20"
  shows "lib_laws (btcutil rip kb lib)"
  using assms decode_encode [of _ "Sum256 lib", OF _ assms(1)]
  by (auto simp: lib_laws_def key_address_def btc_NewAddressScriptHash_def Hash160_def
      newAddressPubKeyHash_def newAddressScriptHashFromHash_def split: if_splits)

text \<open>The encodings of the code never fail, so an address is derived wherever another library derives one.\<close>

lemma btcutil_derives:
  assumes "\<And>x. length (rip x) = 20" and "Derive lib d change addressIndex = Inr a"
  shows "\<exists>a'. Derive (btcutil rip kb lib) d change addressIndex = Inr a'"
  using assms(2)
  by (auto simp: Derive_def Let_def singleDerive_def multiSigSegwitDerive_def sbind_Inr_iff PanicOnError_Inr_iff
      key_address_def newAddressPubKeyHash_def btc_NewAddressScriptHash_def newAddressScriptHashFromHash_def
      Hash160_def assms(1) split: if_splits)

section \<open>Properties\<close>

text \<open>
  C10: the text of an address.  For a hash of 20 bytes under the version byte of either network and either
  kind, \<^verbatim>\<open>DecodeAddress\<close> reads the text that \<^verbatim>\<open>EncodeAddress\<close> writes back to the address, whatever the default
  network, and the first character of the text, which is all \<^verbatim>\<open>AddressToNetwork\<close> looks at, names the network.
\<close>

theorem address_text_roundtrip:
  assumes "\<And>x. length (sha256 x) = 32" and "ChainConfig network = Inr p" and "length h = 20"
    and "a = AddressPubKeyHash h (PubKeyHashAddrID p) \<or> a = AddressScriptHash h (ScriptHashAddrID p)"
  shows "btc_DecodeAddress sha256 new_pubkey (btc_EncodeAddress sha256 ripemd160 a) net = Inr a \<and>
    AddressToNetwork (btc_EncodeAddress sha256 ripemd160 a) = Inr network"
  using assms(4) decode_encode [of h sha256, OF assms(3,1)] encoded_network(1) [of h sha256, OF assms(3,1,2)]
  by auto

text \<open>
  C11: the text of a segregated witness address.  For a program of 20 or of 32 bytes under the prefix of either
  network, \<^verbatim>\<open>EncodeAddress\<close> gives a text (regrouping, checksum and all) that \<^verbatim>\<open>DecodeAddress\<close> reads back to the
  address, whatever the default network; \<^verbatim>\<open>AddressToNetwork\<close>, which knows the prefixes of base58 only, panics on it.
\<close>

theorem segwit_text_roundtrip:
  assumes "a = AddressWitnessPubKeyHash (Bech32HRPSegwit p) program \<and> length program = 20 \<or>
    a = AddressWitnessScriptHash (Bech32HRPSegwit p) program \<and> length program = 32"
  shows "btc_DecodeAddress sha256 new_pubkey (btc_EncodeAddress sha256 ripemd160 a) net = Inr a \<and>
    AddressToNetwork (btc_EncodeAddress sha256 ripemd160 a) =
      Inl (Panic ''unknown prefix: %s'' [Str (btc_EncodeAddress sha256 ripemd160 a)])"
proof -
  obtain chars where e: "encodeSegWitAddress (Bech32HRPSegwit p) 0 program = Inr (Bech32HRPSegwit p @ ''1'' @ chars)"
    using segwit_text [of program p] assms by auto
  then show ?thesis using assms segwit_decoded [OF _ e] by auto
qed

text \<open>
  C9: what a derived address pays to, down to the hashes.  With the address encodings of the code, and for
  any key tree, the address of a wallet with one extended key is the text of the hash of the derived public
  key, and the address of a wallet with several is the text of the hash of the version 0 witness program of the
  multi-signature script over the sorted keys; \<^verbatim>\<open>Script\<close> reads the text back to that hash, and the text names
  the network of the deriver.
\<close>

theorem derived_address_form:
  assumes "\<And>x. length (Sum256 lib x) = 32" and "\<And>x. length (ripemd160 x) = 20" and "d_singleAddress d = ''''"
    and "Derive (btcutil ripemd160 key_bytes lib) d change addressIndex = Inr a"
  shows "AddressToNetwork (Address_String a) = Inr (d_network d) \<and>
    (if length (d_xpubs d) = 1 then
       (\<exists>k. childKey lib (d_xpubs d ! 0) change addressIndex = Inr k \<and>
         Address_Script (btcutil ripemd160 key_bytes lib) a =
           Inr (hex_encode ([0x76, 0xa9, 20] @ ripemd160 (Sum256 lib (key_bytes k)) @ [0x88, 0xac])))
     else
       (\<exists>keys pubKeys script. smap (pubKeyBytes lib change addressIndex) (d_xpubs d) = Inr keys \<and>
         smap (\<lambda>bs. sbind (ChainConfig (d_network d)) (\<lambda>p. PanicOnError (NewAddressPubKey lib bs p)))
           (sortByteArrays keys) = Inr pubKeys \<and>
         MultiSigScript pubKeys (d_m d) = Inr script \<and>
         Address_Script (btcutil ripemd160 key_bytes lib) a =
           Inr (hex_encode ([0xa9, 20] @ ripemd160 (Sum256 lib ([0x00, 32] @ Sum256 lib script)) @ [0x87]))))"
proof (cases "length (d_xpubs d) = 1")
  case True
  then obtain k p where k: "childKey lib (d_xpubs d ! 0) change addressIndex = Inr k" and p: "ChainConfig (d_network d) = Inr p"
    and a: "a_addr a = encodeAddress (Sum256 lib) (Hash160 (Sum256 lib) ripemd160 (key_bytes k)) (PubKeyHashAddrID p)"
      "a_net a = d_network d"
    using assms(2-4)
    by (auto simp: Derive_def Let_def singleDerive_def sbind_Inr_iff PanicOnError_Inr_iff key_address_def
        newAddressPubKeyHash_def Hash160_def at_index_def split: if_splits)
  have h: "length (Hash160 (Sum256 lib) ripemd160 (key_bytes k)) = 20" by (simp add: Hash160_def assms(2))
  have "AddressToNetwork (Address_String a) = Inr (d_network d)"
    using encoded_network(1) [of _ "Sum256 lib", OF h assms(1) p] by (simp add: Address_String_def a)
  moreover have "Address_Script (btcutil ripemd160 key_bytes lib) a =
      Inr (hex_encode ([0x76, 0xa9, 20] @ ripemd160 (Sum256 lib (key_bytes k)) @ [0x88, 0xac]))"
    using decode_encode(1) [of _ "Sum256 lib", OF h assms(1)] h
    by (simp add: Address_Script_def Address_Address_def a p pay_scripts) (simp add: Hash160_def)
  ultimately show ?thesis using True k by simp
next
  case False
  let ?loop = "sfold (\<lambda>xpub acc. sbind (pubKeyBytes lib change addressIndex xpub) (\<lambda>b. Inr (sortByteArrays (acc @ [b]))))"
  from False obtain sorted pubKeys script segwit p where
    loop: "?loop (d_xpubs d) [] = Inr sorted"
    and pk: "smap (\<lambda>bs. sbind (ChainConfig (d_network d)) (\<lambda>p. PanicOnError (NewAddressPubKey lib bs p))) sorted = Inr pubKeys"
    and script: "MultiSigScript pubKeys (d_m d) = Inr script"
    and segwit: "Script (AddData (Sum256 lib script) (AddOp OP_0 NewScriptBuilder)) = Inr segwit"
    and p: "ChainConfig (d_network d) = Inr p"
    and a: "a_addr a = encodeAddress (Sum256 lib) (Hash160 (Sum256 lib) ripemd160 segwit) (ScriptHashAddrID p)" "a_net a = d_network d"
    using assms(2-4)
    by (auto simp: Derive_def Let_def multiSigSegwitDerive_def sbind_Inr_iff PanicOnError_Inr_iff
        btc_NewAddressScriptHash_def newAddressScriptHashFromHash_def split: if_splits)
  obtain keys where keys: "smap (pubKeyBytes lib change addressIndex) (d_xpubs d) = Inr keys" "sorted = sortByteArrays keys"
    using loop key_loop [of "pubKeyBytes lib change addressIndex" "d_xpubs d" "[]"]
    by (cases "smap (pubKeyBytes lib change addressIndex) (d_xpubs d)") auto
  have sw: "segwit = [0x00, 32] @ Sum256 lib script"
    using segwit by (simp add: Script_def builder_simps assms(1))
  have h: "length (Hash160 (Sum256 lib) ripemd160 segwit) = 20" by (simp add: Hash160_def assms(2))
  have "AddressToNetwork (Address_String a) = Inr (d_network d)"
    using encoded_network(1) [of _ "Sum256 lib", OF h assms(1) p] by (simp add: Address_String_def a)
  moreover have "Address_Script (btcutil ripemd160 key_bytes lib) a =
      Inr (hex_encode ([0xa9, 20] @ ripemd160 (Sum256 lib ([0x00, 32] @ Sum256 lib script)) @ [0x87]))"
    using decode_encode(2) [of _ "Sum256 lib", OF h assms(1)] h
    by (simp add: Address_Script_def Address_Address_def a p pay_scripts) (simp add: Hash160_def sw)
  ultimately show ?thesis using False keys pk script by auto
qed

section \<open>Witnesses\<close>

theorem address_text_roundtrip_witness:
  "btc_DecodeAddress (tail_digest 32) (\<lambda>_ _. Inl (Errorf '''' []))
     (btc_EncodeAddress (tail_digest 32) (tail_digest 20) (AddressScriptHash (replicate 20 7) 0xc4)) MainNetParams
     = Inr (AddressScriptHash (replicate 20 7) 0xc4) \<and>
   AddressToNetwork (btc_EncodeAddress (tail_digest 32) (tail_digest 20) (AddressScriptHash (replicate 20 7) 0xc4)) = Inr Testnet"
  by (rule address_text_roundtrip [of _ _ TestNet3Params "replicate 20 7"]) (simp_all add: ChainConfig_def go_simps)

theorem segwit_text_roundtrip_witness:
  "let s = btc_EncodeAddress id id (AddressWitnessScriptHash ''bc'' (replicate 32 9)) in
     btc_DecodeAddress id (\<lambda>_ _. Inl (Errorf [] [])) s TestNet3Params
       = Inr (AddressWitnessScriptHash ''bc'' (replicate 32 9)) \<and>
     AddressToNetwork s = Inl (Panic ''unknown prefix: %s'' [Str s])"
  unfolding Let_def
  by (rule segwit_text_roundtrip [of _ MainNetParams "replicate 32 9", simplified Bech32HRPSegwit.simps]) simp

theorem derived_address_form_witness:
  "\<exists>a script. Derive (btcutil (tail_digest 20) id sample_lib) (NewAddressDeriver Testnet [''tpubA'', ''tpubB''] 2 '''') 0 5 = Inr a \<and>
     AddressToNetwork (Address_String a) = Inr Testnet \<and>
     Address_Script (btcutil (tail_digest 20) id sample_lib) a = Inr (hex_encode ([0xa9, 20] @ script @ [0x87]))"
proof -
  let ?d = "NewAddressDeriver Testnet [''tpubA'', ''tpubB''] 2 ''''" and ?lib = "btcutil (tail_digest 20) id sample_lib"
  have "\<not> isl (Derive sample_lib ?d 0 5)" by code_simp
  then obtain a0 where "Derive sample_lib ?d 0 5 = Inr a0" by (cases "Derive sample_lib ?d 0 5") auto
  then obtain a where a: "Derive ?lib ?d 0 5 = Inr a" using btcutil_derives [of "tail_digest 20"] by fastforce
  have "length (Sum256 sample_lib x) = 32" for x by (simp add: sample_lib_def)
  from derived_address_form [OF this _ _ a] a show ?thesis by (auto simp: NewAddressDeriver_def)
qed

end
