(* ===== verification/Spec2Isabelle.thy ===== *)
theory Spec2Isabelle
  imports Recordings CommandLine Liveness Addresses
begin

text \<open>
  A verification development for beancounter, a tool that computes the balance of a Bitcoin wallet
  at a block height from the wallet's extended public keys.

  \<^bold>\<open>The program.\<close>  \<^verbatim>\<open>accounter/accounter.go\<close> derives the wallet's addresses
  (\<^verbatim>\<open>deriver/address_deriver.go\<close>), asks a backend (\<^verbatim>\<open>backend/\<close>) for the transactions of each, extends the
  range of addresses a lookahead past every used one, and then adds up what the wallet received and
  did not spend up to a block height.  \<^verbatim>\<open>blockfinder/blockfinder.go\<close> finds the block height for a date.
  A backend is a pair of channels per kind of request, served by goroutines; it can be a recorded
  file (\<^verbatim>\<open>fixture_backend.go\<close>), a recorder around another backend (\<^verbatim>\<open>recorder_backend.go\<close>), a btcd node or
  a set of Electrum servers.  \<^verbatim>\<open>reporter/reporter.go\<close> counts the progress and \<^verbatim>\<open>utils/utils.go\<close> holds
  the helpers.

  \<^bold>\<open>The theories.\<close>
  \<^item> \<open>Prelude\<close>: results, faults and errors, machine words, enumerations of maps, generic lemmas.
  \<^item> \<open>Go_Std\<close>: what is used of the Go standard library (\<^verbatim>\<open>encoding/hex\<close>, \<^verbatim>\<open>strings\<close>, \<^verbatim>\<open>net\<close>,
    \<^verbatim>\<open>sort\<close>); the locale \<open>sort_interface\<close> is the contract of a \<^verbatim>\<open>Less\<close> method.
  \<^item> \<open>Utils\<close>, \<open>Reporter\<close>: \<^verbatim>\<open>utils/utils.go\<close> and \<^verbatim>\<open>reporter/reporter.go\<close>, one definition per function.
  \<^item> \<open>Txscript\<close>: the parts of \<^verbatim>\<open>btcd/txscript\<close> the deriver calls: script builder, scripts of
    addresses, multisig scripts.
  \<^item> \<open>Deriver\<close>: \<^verbatim>\<open>deriver/address_deriver.go\<close>; the libraries for keys, addresses and hashes are the
    record \<open>btc_lib\<close>, with what the code relies on as the hypothesis \<open>lib_laws\<close>.
  \<^item> \<open>Base58\<close>, \<open>Bech32\<close>, \<open>Addresses\<close>: \<^verbatim>\<open>btcutil/base58\<close>, \<^verbatim>\<open>btcutil/bech32\<close> and \<^verbatim>\<open>btcutil/address.go\<close>, the text of
    an address and back; the locale \<open>radix\<close> is what both bases share.  \<open>btcutil\<close> puts this code in the place
    of the addresses of a \<open>btc_lib\<close>, and \<open>lib_laws\<close> holds for it (\<open>btcutil_laws\<close>).
  \<^item> \<open>Backend\<close>: \<^verbatim>\<open>backend/backend.go\<close> and \<^verbatim>\<open>backend/common.go\<close>; the locale \<open>backend_contract\<close> is what
    the accounter relies on: every request is answered exactly once.
  \<^item> \<open>Fixture\<close>, \<open>Recorder\<close>: the two backends as step relations over their channels, each an
    interpretation of the contract.
  \<^item> \<open>Wire\<close>: reading and writing transactions (\<^verbatim>\<open>btcd/wire\<close>); the locale \<open>wire_codec\<close> pairs a reader
    with its writer.
  \<^item> \<open>Accounter\<close>: the accounter's state and its sequential operations.
  \<^item> \<open>Balance\<close>: the tally: \<^verbatim>\<open>processTransactions\<close> and \<^verbatim>\<open>balance\<close> against a ledger.
  \<^item> \<open>Fetch\<close>: the goroutines \<^verbatim>\<open>sendWork\<close> and \<^verbatim>\<open>recvWork\<close> with a backend as one step relation, the
    invariant of the fetch and what a finished fetch holds.
  \<^item> \<open>Ledger\<close>: why the transactions that were not fetched do not matter.
  \<^item> \<open>ComputeBalance\<close>: the whole program over a fixture or a recorder, an executable schedule of it
    (locale \<open>scheduler\<close>), and the end to end theorems.
  \<^item> \<open>Replay\<close>, \<open>Recordings\<close>: a recorder filing the answers of any backend that keeps the contract, and the
    fetch over the file it writes.
  \<^item> \<open>Ideal\<close>: the abstract backend, whose state is the answers it owes, and the proof that every backend
    that keeps the contract refines it.
  \<^item> \<open>Progress\<close>, \<open>Liveness\<close>: the fetch can always end: the locale \<open>responsive\<close> extends the contract by what
    this needs, with the fixture and the ideal backend as its instances; and where the fetch can not end any more.
  \<^item> \<open>Btcd\<close>, \<open>BtcdBalance\<close>: \<^verbatim>\<open>backend/btcd_backend.go\<close>, the hundred workers step by step with both caches;
    the balance of a wallet over a btcd node.
  \<^item> \<open>ElectrumNode\<close>, \<open>Semver\<close>: \<^verbatim>\<open>backend/electrum/\<close>, one exchange over a connection and the methods of a node,
    and the part of the semver package that checks a server's version.
  \<^item> \<open>Electrum\<close>, \<open>ElectrumPool\<close>, \<open>ElectrumBalance\<close>: \<^verbatim>\<open>backend/electrum_backend.go\<close>: its state and operations,
    its goroutines as one step relation with the invariants of the cache and of the map of nodes, and the
    balance of a wallet over Electrum servers.
  \<^item> \<open>Blockfinder\<close>: the search for a block; the locale \<open>block_source\<close> is what it relies on.
  \<^item> \<open>Commands\<close>, \<open>Program\<close>, \<open>CommandLine\<close>: \<^verbatim>\<open>main.go\<close>: reading the keys, the commands \<^verbatim>\<open>keytree\<close>,
    \<^verbatim>\<open>find-address\<close> and \<^verbatim>\<open>find-block\<close>, building a backend; then \<^verbatim>\<open>compute-balance\<close> over any of them; then the
    flags and \<^verbatim>\<open>main\<close>.

  \<^bold>\<open>Correspondence.\<close>  A Go struct is a record, a method a function on it, a buffered channel a list
  with its capacity as the guard of the send, a goroutine a datatype of program counters with a
  step relation.  A panic is \<open>Inl\<close> of a \<open>fault\<close>, a Go error \<open>Inl\<close> of a \<open>go_error\<close>.  \<^verbatim>\<open>int64\<close> and
  \<^verbatim>\<open>uint64\<close> are 64 bit words, read with \<open>sint\<close> where the Go type is signed, \<^verbatim>\<open>uint32\<close> is a 32 bit word; a
  loop over a map takes the order of the runtime as an argument, a list that enumerates the map.

  \<^bold>\<open>What is proved.\<close>  End to end: over every backend the program can build (Electrum, btcd, either behind
  a recorder, a fixture), when the answers tell the truth about a ledger, the only thing
  \<^verbatim>\<open>compute-balance\<close> can do is print the sum of the wallet's confirmed unspent coins, for every
  interleaving of its goroutines.  The proof goes by refinement: each backend keeps the contract of the
  interface and so refines the ideal backend, over which the accounter is proved correct.  That the
  fetch also ends is a theorem of its own: over a fixture it can be completed from every reachable
  state, unless an address lists more transactions than the channels can hold.  Below it: the
  tally against a ledger, the completeness and determinism of the concurrent fetch, the
  transparency and the round trip of recording and the replay of a recorded fetch, the invariants of the caches and of the nodes, the round
  trip of the transaction encoding, the round trips of base58 and bech32 addresses, what a derived address
  pays to down to the hashes, the result of the block search and of the other commands, and the faults the
  code has.

  \<^bold>\<open>Bounds and fuel.\<close>  \<open>room\<close> in \<open>Progress\<close> is the capacity of the channel for transaction requests, 1000 for a
  fixture; the accounter asks for no more than \<open>listed_count\<close> transactions.  The counters of the accounter wrap around at 2^32; \<open>counts_fit\<close> says they do not.
  The loops of the block search are \<open>partial_function\<close>s, and the theorems about them say that they
  return.  The fuel of \<open>run\<close> only bounds the runs of the witnesses: every run of any length is a run
  of the step relation.

  \<^bold>\<open>Not modelled.\<close>  The JSON and file layers, dialling and the RPC client, the key tree, the curve and the
  hash functions are libraries and parameters of the model, with documented behaviour as named hypotheses
  (\<open>lib_laws\<close>, \<open>node_ok\<close>, \<open>honest\<close>, \<open>truthful\<close>).  The parser of the command line is vendored; \<open>documented\<close> is what
  it gives.  Prompts and log lines other than their effect on the counters are left out, and so are the types
  and the method \<^verbatim>\<open>IsCoinBase\<close> of the package \<^verbatim>\<open>electrum\<close> that nothing uses.  A panic of a goroutine of the btcd or Electrum backend ends the
  whole program; in the model the goroutine stops for good and what it owes is never delivered.
\<close>

end
